(* ===== verification/Prelude.thy ===== *)
theory Prelude
  imports Main "HOL-Library.Word"
begin

text \<open>
  What every component shares: bytes and Go strings, machine integers, the maps the
  contracts speak of, and the collections the component proofs draw on.

  A Go string is a sequence of bytes; the type \<open>string\<close> of HOL is a list of
  8-bit characters, so it is used for Go strings and for byte slices alike, and
  \<open>byte\<close> reads one character as the number of its byte.
\<close>

named_theorems json_simps \<open>evaluation of the JSON scanner and decoder\<close>
named_theorems prog_simps \<open>execution of effectful programs, one call at a time\<close>
named_theorems svc_defs \<open>the bodies of the repository and of the service\<close>

type_synonym bytes = string

text \<open>Go's \<^verbatim>\<open>int\<close> on a 64-bit platform.\<close>

type_synonym go_int = "64 word"

definition byte :: "char \<Rightarrow> nat" where
  "byte c = of_char c"

lemma byte_less_256 [simp]: "byte c < 256"
  by (simp add: byte_def)

lemma byte_inject [simp]: "byte c = byte d \<longleftrightarrow> c = d"
  by (simp add: byte_def)

lemma byte_char_of [simp]: "n < 256 \<Longrightarrow> byte (char_of n) = n"
  by (simp add: byte_def)

text \<open>Two characters the JSON syntax turns on, and white space as JSON has it.\<close>

abbreviation quote_char :: char where
  "quote_char \<equiv> CHR 0x22"

abbreviation backslash :: char where
  "backslash \<equiv> CHR 0x5C"

text \<open>A pair \<open>(value, rest)\<close> whose first part gets a prefix.\<close>

definition push :: "'a list \<Rightarrow> ('a list \<times> 'b) option \<Rightarrow> ('a list \<times> 'b) option" where
  "push p r = map_option (\<lambda>(v, rest). (p @ v, rest)) r"

lemma push_Some [simp]: "push p (Some (v, rest)) = Some (p @ v, rest)"
  by (simp add: push_def)

lemma push_None [simp]: "push p None = None"
  by (simp add: push_def)

lemma push_eq_Some: "push p r = Some (v, rest) \<longleftrightarrow> (\<exists>u. r = Some (u, rest) \<and> v = p @ u)"
  by (auto simp: push_def)

lemma map_le_refl_upd: "m \<subseteq>\<^sub>m n \<Longrightarrow> m(k \<mapsto> v) \<subseteq>\<^sub>m n(k \<mapsto> v)"
  by (auto simp: map_le_def)

end
