(* ===== verification/Utf8.thy ===== *)
theory Utf8
  imports Prelude
begin

text \<open>
  The part of Go's \<^verbatim>\<open>unicode/utf8\<close> that \<^verbatim>\<open>encoding/json\<close> runs on every string:
  how many bytes the first well-formed UTF-8 sequence has (\<^verbatim>\<open>DecodeRune\<close>, with 0 for
  the answer \<^verbatim>\<open>RuneError, 1\<close>), the bytes of a code point (\<^verbatim>\<open>AppendRune\<close>), and
  the replacement of every byte that is not part of a well-formed sequence by U+FFFD.
\<close>

definition between :: "nat \<Rightarrow> nat \<Rightarrow> char \<Rightarrow> bool" where
  "between lo hi c \<longleftrightarrow> lo \<le> byte c \<and> byte c \<le> hi"

text \<open>The table of first and second bytes of \<^verbatim>\<open>unicode/utf8\<close>.\<close>

definition two_ok :: "char \<Rightarrow> char \<Rightarrow> bool" where
  "two_ok b0 b1 \<longleftrightarrow> between 0xC2 0xDF b0 \<and> between 0x80 0xBF b1"

definition three_ok :: "char \<Rightarrow> char \<Rightarrow> char \<Rightarrow> bool" where
  "three_ok b0 b1 b2 \<longleftrightarrow> between 0x80 0xBF b2 \<and>
     (if byte b0 = 0xE0 then between 0xA0 0xBF b1
      else if byte b0 = 0xED then between 0x80 0x9F b1
      else between 0xE1 0xEF b0 \<and> between 0x80 0xBF b1)"

definition four_ok :: "char \<Rightarrow> char \<Rightarrow> char \<Rightarrow> char \<Rightarrow> bool" where
  "four_ok b0 b1 b2 b3 \<longleftrightarrow> between 0x80 0xBF b2 \<and> between 0x80 0xBF b3 \<and>
     (if byte b0 = 0xF0 then between 0x90 0xBF b1
      else if byte b0 = 0xF4 then between 0x80 0x8F b1
      else between 0xF1 0xF3 b0 \<and> between 0x80 0xBF b1)"

definition rune_len :: "bytes \<Rightarrow> nat" where
  "rune_len s =
    (case s of
      [] \<Rightarrow> 0
    | b0 # s1 \<Rightarrow> if byte b0 < 0x80 then 1 else
      (case s1 of
        [] \<Rightarrow> 0
      | b1 # s2 \<Rightarrow> if two_ok b0 b1 then 2 else
        (case s2 of
          [] \<Rightarrow> 0
        | b2 # s3 \<Rightarrow> if three_ok b0 b1 b2 then 3 else
          (case s3 of
            [] \<Rightarrow> 0
          | b3 # _ \<Rightarrow> if four_ok b0 b1 b2 b3 then 4 else 0))))"

definition replacement :: bytes where
  "replacement = [CHR 0xEF, CHR 0xBF, CHR 0xBD]"

function utf8_fix :: "bytes \<Rightarrow> bytes" where
  "utf8_fix [] = []"
| "utf8_fix (b # s) =
     (let n = rune_len (b # s)
      in if n = 0 then replacement @ utf8_fix s
         else take n (b # s) @ utf8_fix (drop (n - 1) s))"
  by pat_completeness auto
termination
  by (relation "measure length") auto

function utf8_valid :: "bytes \<Rightarrow> bool" where
  "utf8_valid [] \<longleftrightarrow> True"
| "utf8_valid (b # s) \<longleftrightarrow>
     (let n = rune_len (b # s) in n \<noteq> 0 \<and> utf8_valid (drop (n - 1) s))"
  by pat_completeness auto
termination
  by (relation "measure length") auto

declare utf8_fix.simps(2) [simp del] utf8_valid.simps(2) [simp del]

text \<open>The bytes of a code point that is no surrogate.\<close>

definition utf8_enc :: "nat \<Rightarrow> bytes" where
  "utf8_enc n =
    (if n < 0x80 then [char_of n]
     else if n < 0x800 then [char_of (0xC0 + n div 64), char_of (0x80 + n mod 64)]
     else if n < 0x10000 then
       [char_of (0xE0 + n div 4096), char_of (0x80 + n div 64 mod 64), char_of (0x80 + n mod 64)]
     else
       [char_of (0xF0 + n div 262144), char_of (0x80 + n div 4096 mod 64),
        char_of (0x80 + n div 64 mod 64), char_of (0x80 + n mod 64)])"

subsection \<open>Facts\<close>

lemma rune_len_ascii [simp]: "byte b < 0x80 \<Longrightarrow> rune_len (b # s) = 1"
  by (simp add: rune_len_def)

lemma rune_len_le: "rune_len s \<le> length s"
  by (auto simp: rune_len_def split: list.splits)

lemma rune_len_cases:
  assumes "rune_len s \<noteq> 0"
  obtains (one) b r where "s = b # r" "byte b < 0x80" "rune_len s = 1"
  | (two) b0 b1 r where "s = b0 # b1 # r" "\<not> byte b0 < 0x80" "two_ok b0 b1" "rune_len s = 2"
  | (three) b0 b1 b2 r where "s = b0 # b1 # b2 # r" "\<not> byte b0 < 0x80" "\<not> two_ok b0 b1"
      "three_ok b0 b1 b2" "rune_len s = 3"
  | (four) b0 b1 b2 b3 r where "s = b0 # b1 # b2 # b3 # r" "\<not> byte b0 < 0x80"
      "\<not> two_ok b0 b1" "\<not> three_ok b0 b1 b2" "four_ok b0 b1 b2 b3" "rune_len s = 4"
proof -
  from assms obtain b0 s1 where s: "s = b0 # s1" by (cases s) (auto simp: rune_len_def)
  show thesis
  proof (cases "byte b0 < 0x80")
    case True
    with s one show thesis by simp
  next
    case b0: False
    with assms s obtain b1 s2 where s1: "s1 = b1 # s2" by (cases s1) (auto simp: rune_len_def)
    show thesis
    proof (cases "two_ok b0 b1")
      case True
      with b0 s s1 two show thesis by (simp add: rune_len_def)
    next
      case b1: False
      with assms b0 s s1 obtain b2 s3 where s2: "s2 = b2 # s3"
        by (cases s2) (simp_all add: rune_len_def)
      show thesis
      proof (cases "three_ok b0 b1 b2")
        case True
        with b0 b1 s s1 s2 three show thesis by (simp add: rune_len_def)
      next
        case b2: False
        with assms b0 b1 s s1 s2 obtain b3 s4 where s3: "s3 = b3 # s4"
          by (cases s3) (simp_all add: rune_len_def)
        with assms b0 b1 b2 s s1 s2 have "four_ok b0 b1 b2 b3"
          by (simp add: rune_len_def split: if_splits)
        with b0 b1 b2 s s1 s2 s3 four show thesis by (simp add: rune_len_def)
      qed
    qed
  qed
qed

lemma rune_len_append:
  assumes "rune_len s \<noteq> 0"
  shows "rune_len (take (rune_len s) s @ t) = rune_len s"
  using assms by (cases rule: rune_len_cases) (simp_all add: rune_len_def)

lemma rune_len_bytes_high:
  assumes "rune_len (b # s) \<noteq> 0" "\<not> byte b < 0x80" "c \<in> set (take (rune_len (b # s)) (b # s))"
  shows "0x80 \<le> byte c"
  using assms(1)
proof (cases rule: rune_len_cases)
  case one
  with assms(2) show ?thesis by simp
next
  case (two b0 b1 r)
  with assms(2,3) show ?thesis by (auto simp: two_ok_def between_def)
next
  case (three b0 b1 b2 r)
  with assms(2,3) show ?thesis by (auto simp: three_ok_def between_def split: if_splits)
next
  case (four b0 b1 b2 b3 r)
  with assms(2,3) show ?thesis by (auto simp: four_ok_def between_def split: if_splits)
qed

lemma rune_len_replacement [simp]: "rune_len (replacement @ s) = 3"
  by (simp add: rune_len_def replacement_def two_ok_def three_ok_def between_def byte_def)

lemma utf8_fix_ascii [simp]: "byte b < 0x80 \<Longrightarrow> utf8_fix (b # s) = b # utf8_fix s"
  by (simp add: utf8_fix.simps)

lemma utf8_fix_unfold:
  "rune_len s \<noteq> 0 \<Longrightarrow> utf8_fix s = take (rune_len s) s @ utf8_fix (drop (rune_len s) s)"
  by (cases s) (auto simp: utf8_fix.simps Let_def rune_len_def drop_Cons')

lemma utf8_fix_replacement: "utf8_fix (replacement @ s) = replacement @ utf8_fix s"
proof -
  have n: "rune_len (replacement @ s) = 3" by simp
  have "take 3 (replacement @ s) = replacement" "drop 3 (replacement @ s) = s"
    by (simp_all add: replacement_def)
  with n show ?thesis using utf8_fix_unfold [of "replacement @ s"] by simp
qed

lemma utf8_fix_idem: "utf8_fix (utf8_fix s) = utf8_fix s"
proof (induction s rule: utf8_fix.induct)
  case 1
  then show ?case by simp
next
  case (2 b s)
  let ?n = "rune_len (b # s)"
  show ?case
  proof (cases "?n = 0")
    case True
    with 2 show ?thesis by (simp add: utf8_fix.simps utf8_fix_replacement)
  next
    case False
    let ?t = "utf8_fix (drop (?n - 1) s)"
    have eq: "utf8_fix (b # s) = take ?n (b # s) @ ?t"
      using False by (simp add: utf8_fix.simps Let_def)
    have len: "rune_len (take ?n (b # s) @ ?t) = ?n"
      using False by (rule rune_len_append)
    have "length (take ?n (b # s)) = ?n" using rune_len_le [of "b # s"] by simp
    then have "utf8_fix (take ?n (b # s) @ ?t) = take ?n (b # s) @ utf8_fix ?t"
      using utf8_fix_unfold [of "take ?n (b # s) @ ?t"] False len by simp
    with eq 2 False show ?thesis by simp
  qed
qed

lemma utf8_valid_fix: "utf8_valid s \<Longrightarrow> utf8_fix s = s"
proof (induction s rule: utf8_valid.induct)
  case 1
  then show ?case by simp
next
  case (2 b s)
  then show ?case
    by (cases "rune_len (b # s)") (auto simp: utf8_fix.simps utf8_valid.simps Let_def)
qed

lemma utf8_valid_utf8_fix: "utf8_valid (utf8_fix s)"
proof (induction s rule: utf8_fix.induct)
  case 1
  then show ?case by simp
next
  case (2 b s)
  let ?n = "rune_len (b # s)"
  show ?case
  proof (cases "?n = 0")
    case True
    then have "utf8_fix (b # s) = replacement @ utf8_fix s" by (simp add: utf8_fix.simps)
    moreover have "utf8_valid (utf8_fix s)" using 2 True by simp
    ultimately show ?thesis
      using rune_len_replacement [of "utf8_fix s"]
      by (simp add: replacement_def utf8_valid.simps numeral_3_eq_3)
  next
    case False
    let ?t = "utf8_fix (drop (?n - 1) s)"
    have eq: "utf8_fix (b # s) = b # take (?n - 1) s @ ?t"
      using False by (cases ?n) (simp_all add: utf8_fix.simps Let_def)
    have "rune_len (b # take (?n - 1) s @ ?t) = ?n"
      using rune_len_append [OF False, of ?t] False by (cases ?n) simp_all
    moreover have "length (take (?n - 1) s) = ?n - 1"
      using rune_len_le [of "b # s"] by simp
    ultimately show ?thesis using 2 False by (simp add: eq utf8_valid.simps)
  qed
qed

lemma utf8_fix_eq_iff: "utf8_fix s = s \<longleftrightarrow> utf8_valid s"
  by (metis utf8_valid_fix utf8_valid_utf8_fix)

lemma utf8_valid_ascii [simp]: "byte b < 0x80 \<Longrightarrow> utf8_valid (b # s) \<longleftrightarrow> utf8_valid s"
  by (simp add: utf8_valid.simps)

lemma utf8_valid_all_ascii: "\<forall>c \<in> set s. byte c < 0x80 \<Longrightarrow> utf8_valid s"
  by (induction s) auto

end
