(* ===== verification/Json_String.thy ===== *)
theory Json_String
  imports Utf8
begin

text \<open>
  How Go's \<^verbatim>\<open>encoding/json\<close> writes and reads a string.

  \<open>json_quote\<close> is \<^verbatim>\<open>appendString\<close> with HTML escaping on, as
  \<^verbatim>\<open>json.Marshal\<close> and \<^verbatim>\<open>json.Encoder\<close> call it: control characters, the
  quote, the backslash, \<^verbatim>\<open><\<close>, \<^verbatim>\<open>>\<close>, \<^verbatim>\<open>&\<close>, U+2028 and U+2029 are
  escaped, and a byte that is not part of well-formed UTF-8 becomes the escape of
  U+FFFD.

  \<open>parse_str\<close> reads a string after its opening quote: the scanner's rules (no
  control characters, known escapes only) and \<^verbatim>\<open>unquote\<close>, which resolves the
  escapes, pairs surrogates and replaces ill-formed bytes. An escape yields well-formed
  bytes and starts with an ASCII character, so resolving the escapes first and replacing
  ill-formed bytes afterwards gives what \<^verbatim>\<open>unquote\<close> computes in one pass.
\<close>

definition hex_digit :: "nat \<Rightarrow> char" where
  "hex_digit n = (if n < 10 then char_of (48 + n) else char_of (87 + n))"

definition esc_ascii :: "char \<Rightarrow> bytes" where
  "esc_ascii c =
    (let n = byte c in
     if c = backslash \<or> c = quote_char then [backslash, c]
     else if n = 8 then [backslash, CHR ''b'']
     else if n = 12 then [backslash, CHR ''f'']
     else if n = 10 then [backslash, CHR ''n'']
     else if n = 13 then [backslash, CHR ''r'']
     else if n = 9 then [backslash, CHR ''t'']
     else if n < 32 \<or> c = CHR ''<'' \<or> c = CHR ''>'' \<or> c = CHR ''&'' then
       backslash # ''u00'' @ [hex_digit (n div 16), hex_digit (n mod 16)]
     else [c])"

text \<open>The two line separators, and the escape of the byte that is not UTF-8.\<close>

definition line_sep :: "bytes \<Rightarrow> bytes option" where
  "line_sep r =
    (if r = [CHR 0xE2, CHR 0x80, CHR 0xA8] then Some (backslash # ''u2028'')
     else if r = [CHR 0xE2, CHR 0x80, CHR 0xA9] then Some (backslash # ''u2029'')
     else None)"

definition esc_fffd :: bytes where
  "esc_fffd = backslash # ''ufffd''"

function escape :: "bytes \<Rightarrow> bytes" where
  "escape [] = []"
| "escape (b # s) =
    (if byte b < 0x80 then esc_ascii b @ escape s
     else let n = rune_len (b # s) in
       if n = 0 then esc_fffd @ escape s
       else (case line_sep (take n (b # s)) of
               Some e \<Rightarrow> e
             | None \<Rightarrow> take n (b # s)) @ escape (drop (n - 1) s))"
  by pat_completeness auto
termination
  by (relation "measure length") auto

declare escape.simps(2) [simp del]

definition json_quote :: "bytes \<Rightarrow> bytes" where
  "json_quote s = quote_char # escape s @ [quote_char]"

subsection \<open>Reading\<close>

definition hex_val :: "char \<Rightarrow> nat option" where
  "hex_val c =
    (let n = byte c in
     if 48 \<le> n \<and> n \<le> 57 then Some (n - 48)
     else if 97 \<le> n \<and> n \<le> 102 then Some (n - 87)
     else if 65 \<le> n \<and> n \<le> 70 then Some (n - 55)
     else None)"

text \<open>Four hexadecimal digits: the code unit after \<^verbatim>\<open>\u\<close>.\<close>

fun hex4 :: "bytes \<Rightarrow> (nat \<times> bytes) option" where
  "hex4 (a # b # c # d # s) =
    (case (hex_val a, hex_val b, hex_val c, hex_val d) of
      (Some w, Some x, Some y, Some z) \<Rightarrow> Some (((w * 16 + x) * 16 + y) * 16 + z, s)
    | _ \<Rightarrow> None)"
| "hex4 _ = None"

definition is_surrogate :: "nat \<Rightarrow> bool" where
  "is_surrogate u \<longleftrightarrow> 0xD800 \<le> u \<and> u \<le> 0xDFFF"

text \<open>
  What follows a surrogate: the code point of a pair whose second half comes next,
  as \<^verbatim>\<open>utf16.DecodeRune\<close> computes it, and the rest behind that half.
\<close>

definition surrogate_pair :: "nat \<Rightarrow> bytes \<Rightarrow> (nat \<times> bytes) option" where
  "surrogate_pair u s =
    (case s of
      b # c # s' \<Rightarrow>
        if b = backslash \<and> c = CHR ''u'' then
          (case hex4 s' of
            Some (v, s'') \<Rightarrow>
              if u \<le> 0xDBFF \<and> 0xDC00 \<le> v \<and> v \<le> 0xDFFF
              then Some (0x10000 + (u - 0xD800) * 0x400 + (v - 0xDC00), s'')
              else None
          | None \<Rightarrow> None)
        else None
    | _ \<Rightarrow> None)"

definition simple_escape :: "char \<Rightarrow> char option" where
  "simple_escape e =
    (if e = quote_char \<or> e = backslash \<or> e = CHR ''/'' then Some e
     else if e = CHR ''b'' then Some (CHR 0x08)
     else if e = CHR ''f'' then Some (CHR 0x0C)
     else if e = CHR ''n'' then Some (CHR 0x0A)
     else if e = CHR ''r'' then Some (CHR 0x0D)
     else if e = CHR ''t'' then Some (CHR 0x09)
     else None)"

lemma hex4_shorter: "hex4 s = Some (u, s') \<Longrightarrow> length s' < length s"
  by (induction s rule: hex4.induct) (auto split: option.splits prod.splits)

lemma surrogate_pair_shorter: "surrogate_pair u s = Some (v, s') \<Longrightarrow> length s' < length s"
  by (auto simp: surrogate_pair_def split: list.splits if_splits option.splits
      dest!: hex4_shorter)

function unescape :: "bytes \<Rightarrow> (bytes \<times> bytes) option" where
  "unescape [] = None"
| "unescape (c # s) =
    (if c = quote_char then Some ([], s)
     else if byte c < 0x20 then None
     else if c \<noteq> backslash then push [c] (unescape s)
     else
      (case s of
        [] \<Rightarrow> None
      | e # s' \<Rightarrow>
        if e = CHR ''u'' then
          (case hex4 s' of
            None \<Rightarrow> None
          | Some (u, s'') \<Rightarrow>
              if is_surrogate u then
                (case surrogate_pair u s'' of
                  Some (p, s3) \<Rightarrow> push (utf8_enc p) (unescape s3)
                | None \<Rightarrow> push replacement (unescape s''))
              else push (utf8_enc u) (unescape s''))
        else
          (case simple_escape e of
            None \<Rightarrow> None
          | Some d \<Rightarrow> push [d] (unescape s'))))"
  by pat_completeness auto
termination
  by (relation "measure length") (auto dest!: hex4_shorter surrogate_pair_shorter)

declare unescape.simps(2) [simp del]

definition parse_str :: "bytes \<Rightarrow> (bytes \<times> bytes) option" where
  "parse_str s = map_option (\<lambda>(v, rest). (utf8_fix v, rest)) (unescape s)"

subsection \<open>Reading back what was written\<close>

lemma unescape_quote [simp]: "unescape (quote_char # s) = Some ([], s)"
  by (simp add: unescape.simps)

lemma unescape_plain:
  "c \<noteq> quote_char \<Longrightarrow> c \<noteq> backslash \<Longrightarrow> 0x20 \<le> byte c \<Longrightarrow> unescape (c # s) = push [c] (unescape s)"
  by (simp add: unescape.simps)

lemma push_push [simp]: "push p (push q r) = push (p @ q) r"
  by (cases r) (auto simp: push_def)

lemma push_Nil [simp]: "push [] r = r"
  by (cases r) (auto simp: push_def)

lemma byte_quote [simp]: "byte quote_char = 34" and byte_backslash [simp]: "byte backslash = 92"
  by (simp_all add: byte_def)

lemma unescape_high:
  "\<forall>c \<in> set r. 0x80 \<le> byte c \<Longrightarrow> unescape (r @ s) = push r (unescape s)"
proof (induction r)
  case Nil
  then show ?case by simp
next
  case (Cons c r)
  then have "c \<noteq> quote_char" "c \<noteq> backslash" by auto
  with Cons show ?case by (simp add: unescape_plain)
qed

lemma hex_val_digit: "n < 16 \<Longrightarrow> hex_val (hex_digit n) = Some n"
  by (auto simp: hex_val_def hex_digit_def)

lemma hex_val_zero [simp]: "hex_val (CHR ''0'') = Some 0"
  by (simp add: hex_val_def byte_def)

lemma byte_control:
  "byte c = 8 \<longleftrightarrow> c = CHR 0x08" "byte c = 9 \<longleftrightarrow> c = CHR 0x09" "byte c = 10 \<longleftrightarrow> c = CHR 0x0A"
  "byte c = 12 \<longleftrightarrow> c = CHR 0x0C" "byte c = 13 \<longleftrightarrow> c = CHR 0x0D"
proof -
  have "byte (CHR 0x08) = 8" "byte (CHR 0x09) = 9" "byte (CHR 0x0A) = 10"
    "byte (CHR 0x0C) = 12" "byte (CHR 0x0D) = 13"
    by (simp_all add: byte_def)
  then show
    "byte c = 8 \<longleftrightarrow> c = CHR 0x08" "byte c = 9 \<longleftrightarrow> c = CHR 0x09" "byte c = 10 \<longleftrightarrow> c = CHR 0x0A"
    "byte c = 12 \<longleftrightarrow> c = CHR 0x0C" "byte c = 13 \<longleftrightarrow> c = CHR 0x0D"
    by (metis byte_inject)+
qed

lemma utf8_enc_byte: "byte c < 0x80 \<Longrightarrow> utf8_enc (byte c) = [c]"
  by (simp add: utf8_enc_def byte_def)

lemma unescape_esc_ascii:
  assumes "byte c < 0x80"
  shows "unescape (esc_ascii c @ s) = push [c] (unescape s)"
proof -
  let ?n = "byte c"
  consider (slash) "c = backslash \<or> c = quote_char"
    | (short) "c \<in> {CHR 0x08, CHR 0x0C, CHR 0x0A, CHR 0x0D, CHR 0x09}"
    | (hex) "c \<noteq> backslash" "c \<noteq> quote_char"
        "c \<notin> {CHR 0x08, CHR 0x0C, CHR 0x0A, CHR 0x0D, CHR 0x09}"
        "?n < 32 \<or> c = CHR ''<'' \<or> c = CHR ''>'' \<or> c = CHR ''&''"
    | (plain) "c \<noteq> backslash" "c \<noteq> quote_char"
        "c \<notin> {CHR 0x08, CHR 0x0C, CHR 0x0A, CHR 0x0D, CHR 0x09}"
        "\<not> (?n < 32 \<or> c = CHR ''<'' \<or> c = CHR ''>'' \<or> c = CHR ''&'')"
    by blast
  then show ?thesis
  proof cases
    case slash
    then show ?thesis
      by (auto simp: esc_ascii_def unescape.simps(2) [of backslash] simple_escape_def)
  next
    case short
    then show ?thesis
      by (auto simp: esc_ascii_def byte_def unescape.simps(2) [of backslash] simple_escape_def)
  next
    case hex
    then have "?n \<notin> {8, 12, 10, 13, 9}"
      by (simp add: byte_control)
    with hex have esc: "esc_ascii c = backslash # ''u00'' @ [hex_digit (?n div 16), hex_digit (?n mod 16)]"
      by (auto simp: esc_ascii_def Let_def)
    have "hex4 ([CHR ''0'', CHR ''0'', hex_digit (?n div 16), hex_digit (?n mod 16)] @ s) = Some (?n, s)"
      using assms by (simp add: hex_val_digit)
    moreover have "\<not> is_surrogate ?n" using assms by (simp add: is_surrogate_def)
    ultimately show ?thesis
      using assms by (simp add: esc unescape.simps(2) [of backslash] utf8_enc_byte)
  next
    case plain
    then have "?n \<notin> {8, 12, 10, 13, 9}"
      by (simp add: byte_control)
    with plain have "esc_ascii c = [c]" by (auto simp: esc_ascii_def Let_def)
    with plain show ?thesis by (simp add: unescape_plain)
  qed
qed

lemma utf8_enc_special:
  "utf8_enc 8232 = [CHR 0xE2, CHR 0x80, CHR 0xA8]"
  "utf8_enc 8233 = [CHR 0xE2, CHR 0x80, CHR 0xA9]"
  "utf8_enc 65533 = replacement"
  by (simp_all add: utf8_enc_def replacement_def char_of_eq_iff)

lemma hex4_special [simp]:
  "hex4 (CHR ''2'' # CHR ''0'' # CHR ''2'' # CHR ''8'' # s) = Some (8232, s)"
  "hex4 (CHR ''2'' # CHR ''0'' # CHR ''2'' # CHR ''9'' # s) = Some (8233, s)"
  "hex4 (CHR ''f'' # CHR ''f'' # CHR ''f'' # CHR ''d'' # s) = Some (65533, s)"
  by (simp_all add: hex_val_def byte_def)

lemma unescape_line_sep:
  "line_sep r = Some e \<Longrightarrow> unescape (e @ s) = push r (unescape s)"
  by (auto simp: line_sep_def unescape.simps(2) [of backslash]
      is_surrogate_def utf8_enc_special simp del: hex4.simps split: if_splits)

lemma unescape_esc_fffd: "unescape (esc_fffd @ s) = push replacement (unescape s)"
  by (simp add: esc_fffd_def unescape.simps(2) [of backslash]
      is_surrogate_def utf8_enc_special del: hex4.simps)

lemma unescape_escape: "unescape (escape s @ quote_char # rest) = Some (utf8_fix s, rest)"
proof (induction s rule: escape.induct)
  case 1
  then show ?case by simp
next
  case (2 b s)
  let ?n = "rune_len (b # s)"
  consider (ascii) "byte b < 0x80" | (bad) "\<not> byte b < 0x80" "?n = 0"
    | (good) "\<not> byte b < 0x80" "?n \<noteq> 0"
    by blast
  then show ?case
  proof cases
    case ascii
    with 2 show ?thesis by (simp add: escape.simps unescape_esc_ascii)
  next
    case bad
    with 2 show ?thesis by (simp add: escape.simps utf8_fix.simps unescape_esc_fffd)
  next
    case good
    then have IH: "unescape (escape (drop (?n - 1) s) @ quote_char # rest)
        = Some (utf8_fix (drop (?n - 1) s), rest)"
      using 2 by simp
    have fixed: "utf8_fix (b # s) = take ?n (b # s) @ utf8_fix (drop (?n - 1) s)"
      using good by (simp add: utf8_fix.simps Let_def)
    show ?thesis
    proof (cases "line_sep (take ?n (b # s))")
      case None
      have "\<forall>c \<in> set (take ?n (b # s)). 0x80 \<le> byte c"
        using good by (blast intro: rune_len_bytes_high)
      with None good IH fixed show ?thesis
        by (simp add: escape.simps Let_def unescape_high del: take_Cons' drop_Cons')
    next
      case (Some e)
      with good IH fixed show ?thesis
        by (simp add: escape.simps Let_def unescape_line_sep del: take_Cons' drop_Cons')
    qed
  qed
qed

theorem parse_str_quote:
  "parse_str (escape s @ quote_char # rest) = Some (utf8_fix s, rest)"
  by (simp add: parse_str_def unescape_escape utf8_fix_idem)

end
