(* ===== verification/Json_Scan.thy ===== *)
theory Json_Scan
  imports Json_String
begin

text \<open>
  The scanner of \<^verbatim>\<open>encoding/json\<close>: where a value ends, which members an object
  has (each with its decoded key and the bytes of its value), and what kind of document
  the input is. \<^verbatim>\<open>json.Unmarshal\<close> checks the whole input before it stores
  anything, which \<open>read_doc\<close> reflects: it yields no document unless the input is one
  value surrounded by white space.

  The recursion is on fuel. \<open>scan_fuel_enough\<close> shows that the length of the input is
  enough, so the fuel-free \<open>value_end\<close>, \<open>elems_end\<close> and \<open>members\<close> satisfy the
  recursive equations of the grammar, and nothing about them depends on the fuel.
\<close>

subsection \<open>White space, punctuation, numbers\<close>

definition is_ws :: "char \<Rightarrow> bool" where
  "is_ws c \<longleftrightarrow> byte c = 32 \<or> byte c = 9 \<or> byte c = 10 \<or> byte c = 13"

definition skip_ws :: "bytes \<Rightarrow> bytes" where
  "skip_ws = dropWhile is_ws"

definition expect :: "char \<Rightarrow> bytes \<Rightarrow> bytes option" where
  "expect c s = (case s of [] \<Rightarrow> None | x # r \<Rightarrow> if x = c then Some r else None)"

fun expect_all :: "bytes \<Rightarrow> bytes \<Rightarrow> bytes option" where
  "expect_all [] s = Some s"
| "expect_all (c # cs) s = Option.bind (expect c s) (expect_all cs)"

definition is_digit :: "char \<Rightarrow> bool" where
  "is_digit c \<longleftrightarrow> 48 \<le> byte c \<and> byte c \<le> 57"

definition scan_digits :: "bytes \<Rightarrow> bytes option" where
  "scan_digits s =
    (case s of [] \<Rightarrow> None | c # r \<Rightarrow> if is_digit c then Some (dropWhile is_digit r) else None)"

definition scan_int :: "bytes \<Rightarrow> bytes option" where
  "scan_int s = (case expect (CHR ''0'') s of Some r \<Rightarrow> Some r | None \<Rightarrow> scan_digits s)"

definition scan_frac :: "bytes \<Rightarrow> bytes option" where
  "scan_frac s = (case expect (CHR ''.'') s of Some r \<Rightarrow> scan_digits r | None \<Rightarrow> Some s)"

definition scan_exp :: "bytes \<Rightarrow> bytes option" where
  "scan_exp s =
    (case s of
      [] \<Rightarrow> Some s
    | c # r \<Rightarrow>
        if c = CHR ''e'' \<or> c = CHR ''E'' then
          (case r of
            [] \<Rightarrow> None
          | x # r' \<Rightarrow> scan_digits (if x = CHR ''+'' \<or> x = CHR ''-'' then r' else r))
        else Some s)"

definition scan_number :: "bytes \<Rightarrow> bytes option" where
  "scan_number s =
    Option.bind (scan_int (case expect (CHR ''-'') s of Some r \<Rightarrow> r | None \<Rightarrow> s))
      (\<lambda>r. Option.bind (scan_frac r) scan_exp)"

definition max_nesting_depth :: nat where
  "max_nesting_depth = 10000"

subsection \<open>The recursive scanner\<close>

fun scan_value :: "nat \<Rightarrow> nat \<Rightarrow> bytes \<Rightarrow> bytes option"
and scan_elems :: "nat \<Rightarrow> nat \<Rightarrow> bytes \<Rightarrow> bytes option"
and scan_members :: "nat \<Rightarrow> nat \<Rightarrow> bytes \<Rightarrow> ((bytes \<times> bytes) list \<times> bytes) option" where
  "scan_value 0 d s = None"
| "scan_value (Suc n) d s =
    (case s of
      [] \<Rightarrow> None
    | c # r \<Rightarrow>
      if c = quote_char then map_option snd (parse_str r)
      else if c = CHR ''{'' then
        (if max_nesting_depth \<le> d then None
         else
          (case expect (CHR ''}'') (skip_ws r) of
            Some r' \<Rightarrow> Some r'
          | None \<Rightarrow> map_option snd (scan_members n (Suc d) (skip_ws r))))
      else if c = CHR ''['' then
        (if max_nesting_depth \<le> d then None
         else
          (case expect (CHR '']'') (skip_ws r) of
            Some r' \<Rightarrow> Some r'
          | None \<Rightarrow> scan_elems n (Suc d) (skip_ws r)))
      else if c = CHR ''t'' then expect_all ''rue'' r
      else if c = CHR ''f'' then expect_all ''alse'' r
      else if c = CHR ''n'' then expect_all ''ull'' r
      else scan_number s)"
| "scan_elems 0 d s = None"
| "scan_elems (Suc n) d s =
    (case scan_value n d s of
      None \<Rightarrow> None
    | Some r \<Rightarrow>
      (case skip_ws r of
        [] \<Rightarrow> None
      | c # r' \<Rightarrow>
          if c = CHR '']'' then Some r'
          else if c = CHR '','' then scan_elems n d (skip_ws r')
          else None))"
| "scan_members 0 d s = None"
| "scan_members (Suc n) d s =
    (case Option.bind (expect quote_char s) parse_str of
      None \<Rightarrow> None
    | Some (k, r) \<Rightarrow>
      (case expect (CHR '':'') (skip_ws r) of
        None \<Rightarrow> None
      | Some v \<Rightarrow>
        (case scan_value n d (skip_ws v) of
          None \<Rightarrow> None
        | Some r' \<Rightarrow>
          (let raw = take (length (skip_ws v) - length r') (skip_ws v) in
           case skip_ws r' of
             [] \<Rightarrow> None
           | c # r'' \<Rightarrow>
               if c = CHR ''}'' then Some ([(k, raw)], r'')
               else if c = CHR '','' then push [(k, raw)] (scan_members n d (skip_ws r''))
               else None))))"

subsection \<open>The scanner consumes input\<close>

lemma skip_ws_le: "length (skip_ws s) \<le> length s"
  by (simp add: skip_ws_def length_dropWhile_le)

lemma expect_Some [simp]: "expect c (x # r) = (if x = c then Some r else None)"
  and expect_Nil [simp]: "expect c [] = None"
  by (simp_all add: expect_def)

lemma expect_shorter: "expect c s = Some r \<Longrightarrow> length s = Suc (length r)"
  by (cases s) (auto split: if_splits)

lemma expect_all_le: "expect_all cs s = Some r \<Longrightarrow> length r \<le> length s"
proof (induction cs arbitrary: s)
  case Nil
  then show ?case by simp
next
  case (Cons c cs)
  then obtain s' where "expect c s = Some s'" "expect_all cs s' = Some r"
    by (auto simp: bind_eq_Some_conv)
  with Cons.IH [of s'] show ?case by (auto dest: expect_shorter)
qed

lemma unescape_shorter: "unescape s = Some (v, r) \<Longrightarrow> length r < length s"
proof (induction s arbitrary: v r rule: measure_induct_rule [of length])
  case (less s)
  have IH: "length r < length s" if "unescape s' = Some (u, r)" "length s' < length s" for s' u
    using less.IH that by force
  from less.prems obtain c s1 where s: "s = c # s1" by (cases s) auto
  show ?case
  proof (cases "c = backslash")
    case False
    with less.prems s IH [of s1] show ?thesis
      by (auto simp: unescape.simps(2) push_eq_Some split: if_splits)
  next
    case True
    with less.prems s obtain e s2 where s1: "s1 = e # s2"
      by (cases s1) (auto simp: unescape.simps(2))
    show ?thesis
    proof (cases "e = CHR ''u''")
      case False
      with less.prems True s s1 IH [of s2] show ?thesis
        by (auto simp: unescape.simps(2) push_eq_Some split: option.splits)
    next
      case e: True
      with less.prems True s s1 obtain u s3 where h: "hex4 s2 = Some (u, s3)"
        by (cases "hex4 s2") (auto simp: unescape.simps(2))
      with hex4_shorter have s3: "length s3 < length s2" by blast
      show ?thesis
      proof (cases "is_surrogate u")
        case False
        with less.prems True s s1 e h s3 IH [of s3] show ?thesis
          by (auto simp: unescape.simps(2) push_eq_Some)
      next
        case sur: True
        show ?thesis
        proof (cases "surrogate_pair u s3")
          case None
          with less.prems True s s1 e h s3 sur IH [of s3] show ?thesis
            by (auto simp: unescape.simps(2) push_eq_Some)
        next
          case (Some a)
          then obtain p s4 where p: "surrogate_pair u s3 = Some (p, s4)" by (cases a) auto
          with surrogate_pair_shorter have "length s4 < length s3" by blast
          with less.prems True s s1 e h s3 sur p IH [of s4] show ?thesis
            by (auto simp: unescape.simps(2) push_eq_Some)
        qed
      qed
    qed
  qed
qed

lemma parse_str_shorter: "parse_str s = Some (v, r) \<Longrightarrow> length r < length s"
  by (auto simp: parse_str_def dest: unescape_shorter)

lemma scan_digits_shorter: "scan_digits s = Some r \<Longrightarrow> length r < length s"
  by (auto simp: scan_digits_def less_Suc_eq_le length_dropWhile_le split: list.splits if_splits)

lemma scan_int_shorter: "scan_int s = Some r \<Longrightarrow> length r < length s"
  by (auto simp: scan_int_def dest: scan_digits_shorter expect_shorter split: option.splits)

lemma scan_frac_le: "scan_frac s = Some r \<Longrightarrow> length r \<le> length s"
  by (fastforce simp: scan_frac_def dest: scan_digits_shorter expect_shorter
      split: option.splits)

lemma scan_exp_le: "scan_exp s = Some r \<Longrightarrow> length r \<le> length s"
  by (auto simp: scan_exp_def dest!: scan_digits_shorter split: list.splits if_splits)

lemma scan_number_shorter: "scan_number s = Some r \<Longrightarrow> length r < length s"
  by (fastforce simp: scan_number_def bind_eq_Some_conv
      dest: scan_int_shorter scan_frac_le scan_exp_le expect_shorter split: option.splits)

lemma skip_ws_Cons_shorter: "skip_ws s = c # r \<Longrightarrow> length r < length s"
  using skip_ws_le [of s] by simp

lemma expect_skip_ws_shorter: "expect c (skip_ws s) = Some r \<Longrightarrow> length r < length s"
  using skip_ws_le [of s] by (auto dest!: expect_shorter)

lemma scan_shorter:
  "scan_value n d s = Some r \<Longrightarrow> length r < length s"
  "scan_elems n d s = Some r \<Longrightarrow> length r < length s"
  "scan_members n d s = Some (m, r) \<Longrightarrow> length r < length s"
proof (induction n arbitrary: d s r m)
  case 0
  {
    case 1
    then show ?case by simp
  next
    case 2
    then show ?case by simp
  next
    case 3
    then show ?case by simp
  }
next
  case (Suc n)
  {
    case (1 d s r)
    then obtain c t where s: "s = c # t" by (cases s) auto
    have elems: "length r < Suc (length t)" if "scan_elems n d' (skip_ws t) = Some r" for d'
      using Suc.IH(2) [OF that] skip_ws_le [of t] by simp
    have membs: "length r < Suc (length t)" if "scan_members n d' (skip_ws t) = Some (m', r)" for d' m'
      using Suc.IH(3) [OF that] skip_ws_le [of t] by simp
    from 1 s show ?case
      by (auto dest: parse_str_shorter expect_skip_ws_shorter expect_all_le
          scan_number_shorter elems membs simp: less_Suc_eq_le
          simp del: expect_all.simps split: if_splits option.splits)
  next
    case (2 d s r)
    then obtain r1 c r2 where v: "scan_value n d s = Some r1" and ws: "skip_ws r1 = c # r2"
      by (auto split: option.splits list.splits)
    have len: "length r2 < length s"
      using Suc.IH(1) [OF v] skip_ws_Cons_shorter [OF ws] by simp
    have "length r < length s" if "scan_elems n d (skip_ws r2) = Some r"
      using Suc.IH(2) [OF that] skip_ws_le [of r2] len by simp
    with 2 v ws len show ?case by (auto split: if_splits)
  next
    case (3 d s r m)
    from 3 obtain s1 k r1 where q: "expect quote_char s = Some s1" "parse_str s1 = Some (k, r1)"
      by (auto simp: bind_eq_Some_conv split: option.splits)
    with 3 obtain v r2 c r3 where v: "expect (CHR '':'') (skip_ws r1) = Some v"
        "scan_value n d (skip_ws v) = Some r2" and ws: "skip_ws r2 = c # r3"
      by (auto simp: Let_def split: option.splits list.splits)
    have len: "length r3 < length s"
      using expect_shorter [OF q(1)] parse_str_shorter [OF q(2)] expect_skip_ws_shorter [OF v(1)]
        Suc.IH(1) [OF v(2)] skip_ws_le [of v] skip_ws_Cons_shorter [OF ws]
      by simp
    have "length r < length s" if "scan_members n d (skip_ws r3) = Some (m', r)" for m'
      using Suc.IH(3) [OF that] skip_ws_le [of r3] len by simp
    with 3 q v ws len show ?case by (auto simp: Let_def push_eq_Some split: if_splits)
  }
qed

subsection \<open>Enough fuel\<close>

lemma scan_fuel_enough:
  "2 * length s < n \<Longrightarrow> 2 * length s < n' \<Longrightarrow> scan_value n d s = scan_value n' d s"
  "2 * length s + 1 < n \<Longrightarrow> 2 * length s + 1 < n' \<Longrightarrow> scan_elems n d s = scan_elems n' d s"
  "2 * length s + 1 < n \<Longrightarrow> 2 * length s + 1 < n' \<Longrightarrow> scan_members n d s = scan_members n' d s"
proof (induction n arbitrary: n' d s)
  case 0
  {
    case 1
    then show ?case by simp
  next
    case 2
    then show ?case by simp
  next
    case 3
    then show ?case by simp
  }
next
  case (Suc n)
  {
    case (1 n' d s)
    then obtain k where n': "n' = Suc k" by (cases n') auto
    show ?case
    proof (cases s)
      case Nil
      then show ?thesis by (simp add: n')
    next
      case (Cons c t)
      with 1 n' have "2 * length (skip_ws t) + 1 < n" "2 * length (skip_ws t) + 1 < k"
        using skip_ws_le [of t] by auto
      then have "scan_elems n d' (skip_ws t) = scan_elems k d' (skip_ws t)"
        "scan_members n d' (skip_ws t) = scan_members k d' (skip_ws t)" for d'
        using Suc.IH(2,3) by blast+
      then show ?thesis by (simp add: n' Cons del: expect_all.simps split: option.split)
    qed
  next
    case (2 n' d s)
    then obtain k where n': "n' = Suc k" by (cases n') auto
    have val: "scan_value n d s = scan_value k d s"
      using 2 n' by (intro Suc.IH(1)) simp_all
    have tail: "scan_elems n d (skip_ws r2) = scan_elems k d (skip_ws r2)"
      if "scan_value k d s = Some r1" "skip_ws r1 = c # r2" for r1 c r2
    proof -
      have "length (skip_ws r2) < length s"
        using scan_shorter(1) [OF that(1)] skip_ws_Cons_shorter [OF that(2)] skip_ws_le [of r2]
        by simp
      with 2 n' show ?thesis by (intro Suc.IH(2)) simp_all
    qed
    show ?case by (simp add: n' val tail split: option.split list.split)
  next
    case (3 n' d s)
    then obtain k where n': "n' = Suc k" by (cases n') auto
    have step: "scan_value n d (skip_ws v) = scan_value k d (skip_ws v)"
        "scan_value k d (skip_ws v) = Some r' \<Longrightarrow> skip_ws r' = c # r'' \<Longrightarrow>
           scan_members n d (skip_ws r'') = scan_members k d (skip_ws r'')"
      if "Option.bind (expect quote_char s) parse_str = Some (key, r)"
        "expect (CHR '':'') (skip_ws r) = Some v"
      for key r v r' c r''
    proof -
      from that(1) obtain s1 where "expect quote_char s = Some s1" "parse_str s1 = Some (key, r)"
        by (auto simp: bind_eq_Some_conv)
      then have len: "length (skip_ws v) < length s"
        using expect_shorter parse_str_shorter expect_skip_ws_shorter [OF that(2)]
          skip_ws_le [of v] by fastforce
      then show "scan_value n d (skip_ws v) = scan_value k d (skip_ws v)"
        using 3 n' by (intro Suc.IH(1)) simp_all
      assume "scan_value k d (skip_ws v) = Some r'" "skip_ws r' = c # r''"
      then have "length (skip_ws r'') < length s"
        using len scan_shorter(1) [of k d "skip_ws v" r'] skip_ws_Cons_shorter [of r' c r'']
          skip_ws_le [of r''] by simp
      then show "scan_members n d (skip_ws r'') = scan_members k d (skip_ws r'')"
        using 3 n' by (intro Suc.IH(3)) simp_all
    qed
    show ?case
      by (simp add: n' Let_def step split: option.split list.split prod.split)
  }
qed

text \<open>The scanner without its fuel, and its equations.\<close>

definition value_end :: "nat \<Rightarrow> bytes \<Rightarrow> bytes option" where
  "value_end d s = scan_value (2 * length s + 1) d s"

definition elems_end :: "nat \<Rightarrow> bytes \<Rightarrow> bytes option" where
  "elems_end d s = scan_elems (2 * length s + 2) d s"

definition members :: "nat \<Rightarrow> bytes \<Rightarrow> ((bytes \<times> bytes) list \<times> bytes) option" where
  "members d s = scan_members (2 * length s + 2) d s"

lemma value_end_fuel: "2 * length s < n \<Longrightarrow> scan_value n d s = value_end d s"
  and elems_end_fuel: "2 * length s + 1 < n \<Longrightarrow> scan_elems n d s = elems_end d s"
  and members_fuel: "2 * length s + 1 < n \<Longrightarrow> scan_members n d s = members d s"
  unfolding value_end_def elems_end_def members_def by (rule scan_fuel_enough; simp)+

end
