(* ===== verification/Json_Doc.thy ===== *)
theory Json_Doc
  imports Json_Scan
begin

text \<open>
  Whole documents: what \<^verbatim>\<open>json.Unmarshal\<close> finds at the top level, how
  \<^verbatim>\<open>json.Marshal\<close> lays out an object, decimal integers, and the compaction that the
  encoder runs over the output of a \<^verbatim>\<open>MarshalJSON\<close> method.

  The reading side and the writing side meet in \<open>self_delimiting\<close>: a value text that
  the scanner ends exactly where the text ends, whatever delimiter follows. Strings,
  integers and objects of self-delimiting members are, so a document written member by
  member is read back member by member.
\<close>

subsection \<open>The grammar without fuel\<close>

definition object_members :: "nat \<Rightarrow> bytes \<Rightarrow> ((bytes \<times> bytes) list \<times> bytes) option" where
  "object_members d s =
    (case expect (CHR ''}'') (skip_ws s) of
      Some r \<Rightarrow> Some ([], r)
    | None \<Rightarrow> members d (skip_ws s))"

lemma value_end_string [json_simps]:
  "value_end d (quote_char # s) = map_option snd (parse_str s)"
  by (simp add: value_end_def)

lemma value_end_object:
  "value_end d (CHR ''{'' # s) =
    (if max_nesting_depth \<le> d then None else map_option snd (object_members (Suc d) s))"
proof -
  have "scan_members (Suc (Suc (2 * length s))) (Suc d) (skip_ws s) = members (Suc d) (skip_ws s)"
    using skip_ws_le [of s] by (intro members_fuel) simp
  then show ?thesis
    by (simp add: value_end_def object_members_def split: option.split)
qed

lemma members_unfold:
  "members d s =
    (case Option.bind (expect quote_char s) parse_str of
      None \<Rightarrow> None
    | Some (k, r) \<Rightarrow>
      (case expect (CHR '':'') (skip_ws r) of
        None \<Rightarrow> None
      | Some v \<Rightarrow>
        (case value_end d (skip_ws v) of
          None \<Rightarrow> None
        | Some r' \<Rightarrow>
          (let raw = take (length (skip_ws v) - length r') (skip_ws v) in
           case skip_ws r' of
             [] \<Rightarrow> None
           | c # r'' \<Rightarrow>
               if c = CHR ''}'' then Some ([(k, raw)], r'')
               else if c = CHR '','' then push [(k, raw)] (members d (skip_ws r''))
               else None))))"
proof -
  define n where "n = 2 * length s + 1"
  have val: "scan_value n d (skip_ws v) = value_end d (skip_ws v)"
    and tail: "value_end d (skip_ws v) = Some r' \<Longrightarrow> skip_ws r' = c # r'' \<Longrightarrow>
       scan_members n d (skip_ws r'') = members d (skip_ws r'')"
    if "Option.bind (expect quote_char s) parse_str = Some (k, r)"
      "expect (CHR '':'') (skip_ws r) = Some v"
    for k r v r' c r''
  proof -
    from that(1) obtain s1 where "expect quote_char s = Some s1" "parse_str s1 = Some (k, r)"
      by (auto simp: bind_eq_Some_conv)
    then have len: "length (skip_ws v) < length s"
      using expect_shorter parse_str_shorter expect_skip_ws_shorter [OF that(2)]
        skip_ws_le [of v] by fastforce
    then show "scan_value n d (skip_ws v) = value_end d (skip_ws v)"
      by (intro value_end_fuel) (simp add: n_def)
    assume "value_end d (skip_ws v) = Some r'" "skip_ws r' = c # r''"
    then have "length (skip_ws r'') < length s"
      using len scan_shorter(1) [of "2 * length (skip_ws v) + 1" d "skip_ws v" r']
        skip_ws_Cons_shorter [of r' c r''] skip_ws_le [of r'']
      by (simp add: value_end_def)
    then show "scan_members n d (skip_ws r'') = members d (skip_ws r'')"
      by (intro members_fuel) (simp add: n_def)
  qed
  have "members d s = scan_members (Suc n) d s" by (simp add: members_def n_def)
  also have "\<dots> = (case Option.bind (expect quote_char s) parse_str of
      None \<Rightarrow> None
    | Some (k, r) \<Rightarrow>
      (case expect (CHR '':'') (skip_ws r) of
        None \<Rightarrow> None
      | Some v \<Rightarrow>
        (case value_end d (skip_ws v) of
          None \<Rightarrow> None
        | Some r' \<Rightarrow>
          (let raw = take (length (skip_ws v) - length r') (skip_ws v) in
           case skip_ws r' of
             [] \<Rightarrow> None
           | c # r'' \<Rightarrow>
               if c = CHR ''}'' then Some ([(k, raw)], r'')
               else if c = CHR '','' then push [(k, raw)] (members d (skip_ws r''))
               else None))))"
    unfolding scan_members.simps
    by (simp add: Let_def val tail split: option.split list.split prod.split)
  finally show ?thesis .
qed

subsection \<open>The document\<close>

datatype json_doc = DObject "(bytes \<times> bytes) list" | DNull | DOther

definition read_doc :: "bytes \<Rightarrow> json_doc option" where
  "read_doc s =
    (let s1 = skip_ws s in
     case value_end 0 s1 of
       None \<Rightarrow> None
     | Some r \<Rightarrow>
         if skip_ws r \<noteq> [] then None
         else
          (case s1 of
            [] \<Rightarrow> None
          | c # t \<Rightarrow>
              if c = CHR ''{'' then map_option (\<lambda>(m, _). DObject m) (object_members 1 t)
              else if c = CHR ''n'' then Some DNull
              else Some DOther))"

definition write_member :: "bytes \<times> bytes \<Rightarrow> bytes" where
  "write_member = (\<lambda>(k, v). json_quote k @ CHR '':'' # v)"

fun write_members :: "(bytes \<times> bytes) list \<Rightarrow> bytes" where
  "write_members [] = []"
| "write_members [m] = write_member m"
| "write_members (m # ms) = write_member m @ CHR '','' # write_members ms"

definition write_object :: "(bytes \<times> bytes) list \<Rightarrow> bytes" where
  "write_object ms = CHR ''{'' # write_members ms @ [CHR ''}'']"

subsection \<open>Self-delimiting values\<close>

definition delimited :: "bytes \<Rightarrow> bool" where
  "delimited s \<longleftrightarrow> (case s of [] \<Rightarrow> True | c # _ \<Rightarrow> c \<in> {CHR '','', CHR ''}'', CHR '']''})"

definition self_delimiting :: "nat \<Rightarrow> bytes \<Rightarrow> bool" where
  "self_delimiting d v \<longleftrightarrow>
    (\<exists>c t. v = c # t \<and> \<not> is_ws c) \<and> (\<forall>rest. delimited rest \<longrightarrow> value_end d (v @ rest) = Some rest)"

lemma delimited_simps [simp]:
  "delimited []" "delimited (CHR '','' # s)" "delimited (CHR ''}'' # s)" "delimited (CHR '']'' # s)"
  by (simp_all add: delimited_def)

lemma skip_ws_plain [simp]: "\<not> is_ws c \<Longrightarrow> skip_ws (c # s) = c # s"
  by (simp add: skip_ws_def)

lemma skip_ws_Nil [simp]: "skip_ws [] = []"
  by (simp add: skip_ws_def)

lemma is_ws_punct [simp]:
  "\<not> is_ws quote_char" "\<not> is_ws (CHR ''{'')" "\<not> is_ws (CHR ''}'')" "\<not> is_ws (CHR '':'')"
  "\<not> is_ws (CHR '','')" "\<not> is_ws (CHR ''-'')"
  by (simp_all add: is_ws_def byte_def)

lemma self_delimiting_end:
  "self_delimiting d v \<Longrightarrow> delimited rest \<Longrightarrow> value_end d (v @ rest) = Some rest"
  by (simp add: self_delimiting_def)

lemma self_delimiting_skip_ws:
  "self_delimiting d v \<Longrightarrow> skip_ws (v @ rest) = v @ rest"
  by (auto simp: self_delimiting_def)

lemma self_delimiting_quote: "self_delimiting d (json_quote s)"
  by (simp add: self_delimiting_def json_quote_def value_end_string parse_str_quote)

lemma members_last:
  assumes "self_delimiting d v"
  shows "members d (write_member (k, v) @ CHR ''}'' # rest) = Some ([(utf8_fix k, v)], rest)"
  using self_delimiting_skip_ws [OF assms, of "CHR ''}'' # rest"]
    self_delimiting_end [OF assms, of "CHR ''}'' # rest"]
  by (subst members_unfold) (simp add: write_member_def json_quote_def parse_str_quote)

lemma members_more:
  assumes "self_delimiting d v"
  shows "members d (write_member (k, v) @ CHR '','' # quote_char # rest)
    = push [(utf8_fix k, v)] (members d (quote_char # rest))"
  using self_delimiting_skip_ws [OF assms, of "CHR '','' # quote_char # rest"]
    self_delimiting_end [OF assms, of "CHR '','' # quote_char # rest"]
  by (subst members_unfold) (simp add: write_member_def json_quote_def parse_str_quote)

lemma write_members_quote:
  "ms \<noteq> [] \<Longrightarrow> \<exists>t. write_members ms = quote_char # t"
  by (cases ms rule: write_members.cases)
    (auto simp: write_member_def json_quote_def split: prod.split)

lemma members_write:
  "ms \<noteq> [] \<Longrightarrow> \<forall>(k, v) \<in> set ms. self_delimiting d v \<Longrightarrow>
   members d (write_members ms @ CHR ''}'' # rest) = Some (map (\<lambda>(k, v). (utf8_fix k, v)) ms, rest)"
proof (induction ms rule: write_members.induct)
  case 1
  then show ?case by simp
next
  case (2 m)
  then show ?case by (cases m) (simp add: members_last)
next
  case (3 m m' ms)
  obtain k v where m: "m = (k, v)" by (cases m)
  obtain t where t: "write_members (m' # ms) = quote_char # t"
    using write_members_quote [of "m' # ms"] by auto
  have "members d (write_members (m' # ms) @ CHR ''}'' # rest)
      = Some (map (\<lambda>(k, v). (utf8_fix k, v)) (m' # ms), rest)"
    using 3 by auto
  with "3.prems" m t show ?case by (simp add: members_more)
qed

lemma object_members_write:
  assumes "\<forall>(k, v) \<in> set ms. self_delimiting d v"
  shows "object_members d (write_members ms @ CHR ''}'' # rest)
    = Some (map (\<lambda>(k, v). (utf8_fix k, v)) ms, rest)"
proof (cases "ms = []")
  case True
  then show ?thesis by (simp add: object_members_def)
next
  case False
  then obtain t where "write_members ms = quote_char # t"
    using write_members_quote by blast
  with members_write [OF False assms, of rest] show ?thesis
    by (simp add: object_members_def)
qed

lemma self_delimiting_object:
  assumes "d < max_nesting_depth" "\<forall>(k, v) \<in> set ms. self_delimiting (Suc d) v"
  shows "self_delimiting d (write_object ms)"
  using assms by (simp add: self_delimiting_def write_object_def value_end_object
      object_members_write del: expect_all.simps)

theorem read_doc_write_object:
  assumes "\<forall>(k, v) \<in> set ms. self_delimiting 1 v"
  shows "read_doc (write_object ms) = Some (DObject (map (\<lambda>(k, v). (utf8_fix k, v)) ms))"
proof -
  have "self_delimiting 0 (write_object ms)"
    using assms by (intro self_delimiting_object) (auto simp: max_nesting_depth_def)
  then have "value_end 0 (write_object ms) = Some []"
    using self_delimiting_end [of 0 "write_object ms" "[]"] by simp
  moreover have "object_members 1 (write_members ms @ [CHR ''}''])
      = Some (map (\<lambda>(k, v). (utf8_fix k, v)) ms, [])"
    using object_members_write [OF assms, of "[]"] by simp
  ultimately show ?thesis
    by (simp add: read_doc_def write_object_def)
qed

end
