(* ===== verification/Json_Int.thy ===== *)
theory Json_Int
  imports Json_Doc
begin

text \<open>
  Decimal integers: \<^verbatim>\<open>strconv.AppendInt\<close> writes a Go \<^verbatim>\<open>int\<close>, and a number
  token is stored into an \<^verbatim>\<open>int\<close> field through \<^verbatim>\<open>strconv.ParseInt(s, 10, 64)\<close>,
  which fails on a fraction, on an exponent and outside the 64-bit range.
\<close>

definition digit_char :: "nat \<Rightarrow> char" where
  "digit_char d = char_of (48 + d)"

definition digit_val :: "char \<Rightarrow> nat" where
  "digit_val c = byte c - 48"

fun dec_nat :: "nat \<Rightarrow> bytes" where
  "dec_nat n = (if n < 10 then [digit_char n] else dec_nat (n div 10) @ [digit_char (n mod 10)])"

declare dec_nat.simps [simp del]

definition dec_int :: "int \<Rightarrow> bytes" where
  "dec_int i = (if i < 0 then CHR ''-'' # dec_nat (nat (- i)) else dec_nat (nat i))"

definition digits_val :: "bytes \<Rightarrow> nat" where
  "digits_val s = foldl (\<lambda>a c. a * 10 + digit_val c) 0 s"

definition format_int :: "go_int \<Rightarrow> bytes" where
  "format_int w = dec_int (sint w)"

definition parse_digits :: "bytes \<Rightarrow> nat option" where
  "parse_digits s = (if s \<noteq> [] \<and> list_all is_digit s then Some (digits_val s) else None)"

definition in_int64 :: "int \<Rightarrow> bool" where
  "in_int64 i \<longleftrightarrow> - (2 ^ 63) \<le> i \<and> i < 2 ^ 63"

definition parse_int :: "bytes \<Rightarrow> go_int option" where
  "parse_int s =
    (case (case expect (CHR ''-'') s of
             Some r \<Rightarrow> map_option (\<lambda>n. - int n) (parse_digits r)
           | None \<Rightarrow> map_option int (parse_digits s)) of
       Some i \<Rightarrow> if in_int64 i then Some (word_of_int i) else None
     | None \<Rightarrow> None)"

subsection \<open>Facts\<close>

lemma is_digit_char [simp]: "d < 10 \<Longrightarrow> is_digit (digit_char d)"
  by (simp add: is_digit_def digit_char_def)

lemma digit_val_char [simp]: "d < 10 \<Longrightarrow> digit_val (digit_char d) = d"
  by (simp add: digit_val_def digit_char_def)

lemma digits_val_snoc [simp]: "digits_val (s @ [c]) = digits_val s * 10 + digit_val c"
  by (simp add: digits_val_def)

lemma dec_nat_digits: "list_all is_digit (dec_nat n)"
  by (induction n rule: dec_nat.induct) (subst dec_nat.simps, auto)

lemma dec_nat_nonempty [simp]: "dec_nat n \<noteq> []"
  by (subst dec_nat.simps) simp

lemma digits_val_dec_nat [simp]: "digits_val (dec_nat n) = n"
proof (induction n rule: dec_nat.induct)
  case (1 n)
  show ?case
  proof (cases "n < 10")
    case True
    then show ?thesis by (subst dec_nat.simps) (simp add: digits_val_def)
  next
    case False
    then have "digits_val (dec_nat n) = digits_val (dec_nat (n div 10)) * 10 + n mod 10"
      by (subst dec_nat.simps) simp
    with 1 False show ?thesis by simp
  qed
qed

lemma dec_nat_lead: "0 < n \<Longrightarrow> \<exists>c t. dec_nat n = c # t \<and> c \<noteq> CHR ''0'' \<and> is_digit c"
proof (induction n rule: dec_nat.induct)
  case (1 n)
  show ?case
  proof (cases "n < 10")
    case True
    then have "dec_nat n = [digit_char n]" by (subst dec_nat.simps) simp
    moreover have "byte (digit_char n) \<noteq> byte (CHR ''0'')"
      using True 1 by (simp add: digit_char_def) (simp add: byte_def)
    ultimately show ?thesis using True by auto
  next
    case False
    with 1 have "\<exists>c t. dec_nat (n div 10) = c # t \<and> c \<noteq> CHR ''0'' \<and> is_digit c" by auto
    with False show ?thesis by (subst dec_nat.simps) auto
  qed
qed

lemma dec_nat_0 [simp]: "dec_nat 0 = ''0''"
  by (subst dec_nat.simps) (simp add: digit_char_def char_of_eq_iff)

lemma is_digit_simps [simp]:
  "\<not> is_digit (CHR ''-'')" "\<not> is_digit quote_char" "\<not> is_digit (CHR '','')"
  "\<not> is_digit (CHR ''}'')" "\<not> is_digit (CHR '']'')" "is_digit (CHR ''0'')" "\<not> is_digit (CHR ''.'')"
  by (simp_all add: is_digit_def byte_def)

lemma dropWhile_digits:
  "list_all is_digit ds \<Longrightarrow> delimited rest \<Longrightarrow> dropWhile is_digit (ds @ rest) = rest"
  by (induction ds) (auto simp: delimited_def split: list.splits)

lemma scan_int_dec_nat: "delimited rest \<Longrightarrow> scan_int (dec_nat n @ rest) = Some rest"
proof (cases "n = 0")
  case True
  then show ?thesis by (simp add: scan_int_def)
next
  case False
  then obtain c t where c: "dec_nat n = c # t" "c \<noteq> CHR ''0''" "is_digit c"
    using dec_nat_lead by blast
  moreover assume "delimited rest"
  moreover have "list_all is_digit t" using dec_nat_digits [of n] c by simp
  ultimately show ?thesis
    by (simp add: scan_int_def scan_digits_def dropWhile_digits)
qed

lemma scan_tail_delimited:
  "delimited rest \<Longrightarrow> scan_frac rest = Some rest \<and> scan_exp rest = Some rest"
  by (auto simp: delimited_def scan_frac_def scan_exp_def expect_def split: list.splits)

lemma scan_number_dec_int: "delimited rest \<Longrightarrow> scan_number (dec_int i @ rest) = Some rest"
proof (cases "i < 0")
  case True
  moreover assume "delimited rest"
  ultimately show ?thesis
    using scan_tail_delimited [of rest] scan_int_dec_nat [of rest "nat (- i)"]
    by (simp add: scan_number_def dec_int_def)
next
  case False
  moreover assume "delimited rest"
  moreover have "expect (CHR ''-'') (dec_nat (nat i) @ rest) = None"
    using dec_nat_digits [of "nat i"] by (cases "dec_nat (nat i)") auto
  ultimately show ?thesis
    using scan_tail_delimited [of rest] scan_int_dec_nat [of rest "nat i"]
    by (simp add: scan_number_def dec_int_def)
qed

lemma dec_int_head: "\<exists>c t. dec_int i = c # t \<and> (is_digit c \<or> c = CHR ''-'')"
  using dec_nat_digits by (cases "dec_nat (nat i)"; auto simp: dec_int_def)
    (metis list.exhaust list.pred_inject(2) dec_nat_digits dec_nat_nonempty)+

lemma number_head:
  assumes "is_digit c \<or> c = CHR ''-''"
  shows "c \<notin> {quote_char, CHR ''{'', CHR ''['', CHR ''t'', CHR ''f'', CHR ''n''}" "\<not> is_ws c"
proof -
  have "\<forall>x \<in> {quote_char, CHR ''{'', CHR ''['', CHR ''t'', CHR ''f'', CHR ''n''}.
      \<not> is_digit x \<and> x \<noteq> CHR ''-''"
    by (simp add: is_digit_def byte_def)
  with assms show "c \<notin> {quote_char, CHR ''{'', CHR ''['', CHR ''t'', CHR ''f'', CHR ''n''}" by blast
  show "\<not> is_ws c"
    using assms by (auto simp: is_ws_def is_digit_def byte_def)
qed

lemma self_delimiting_dec_int: "self_delimiting d (dec_int i)"
proof -
  obtain c t where c: "dec_int i = c # t" and "is_digit c \<or> c = CHR ''-''"
    using dec_int_head by blast
  then have h: "c \<notin> {quote_char, CHR ''{'', CHR ''['', CHR ''t'', CHR ''f'', CHR ''n''}" "\<not> is_ws c"
    using number_head by blast+
  have "value_end d (dec_int i @ rest) = Some rest" if "delimited rest" for rest
    using scan_number_dec_int [OF that, of i] h c by (simp add: value_end_def)
  with c h show ?thesis by (simp add: self_delimiting_def)
qed

lemma parse_digits_dec_nat: "parse_digits (dec_nat n) = Some n"
  by (simp add: parse_digits_def dec_nat_digits)

lemma expect_minus_dec_nat: "expect (CHR ''-'') (dec_nat n) = None"
  using dec_nat_digits [of n] by (cases "dec_nat n") auto

theorem parse_format_int: "parse_int (format_int w) = Some w"
proof -
  have "in_int64 (sint w)"
    using sint_range_size [of w] by (simp add: in_int64_def word_size)
  then show ?thesis
    by (simp add: parse_int_def format_int_def dec_int_def parse_digits_dec_nat
        expect_minus_dec_nat)
qed

end
