(* ===== verification/Json_Compact.thy ===== *)
theory Json_Compact
  imports Json_Int
begin

text \<open>
  What the encoder does with the bytes a \<^verbatim>\<open>MarshalJSON\<close> method returns
  (\<^verbatim>\<open>appendCompact\<close> with HTML escaping): the bytes must be one valid JSON value, white
  space outside strings goes, and \<^verbatim>\<open><\<close>, \<^verbatim>\<open>>\<close>, \<^verbatim>\<open>&\<close>, U+2028 and U+2029 are
  escaped. The payload of an event envelope is such a value (\<^verbatim>\<open>json.RawMessage\<close>).

  Text that \<^verbatim>\<open>json.Marshal\<close> wrote is already compact, so nesting it in an envelope
  leaves its bytes as they are: \<open>compact_stable\<close> says so of each kind of value.
\<close>

definition html_escape :: "char \<Rightarrow> bytes option" where
  "html_escape c =
    (if c = CHR ''<'' \<or> c = CHR ''>'' \<or> c = CHR ''&''
     then Some (backslash # ''u00'' @ [hex_digit (byte c div 16), hex_digit (byte c mod 16)])
     else None)"

text \<open>The first argument says whether the position is inside a string.\<close>

function compact :: "bool \<Rightarrow> bytes \<Rightarrow> bytes" where
  "compact q [] = []"
| "compact q (c # s) =
    (case html_escape c of
      Some e \<Rightarrow> e @ compact q s
    | None \<Rightarrow>
      (case line_sep (c # take 2 s) of
        Some e \<Rightarrow> e @ compact q (drop 2 s)
      | None \<Rightarrow>
        if q then
          (if c = quote_char then c # compact False s
           else if c = backslash then c # take 1 s @ compact True (drop 1 s)
           else c # compact True s)
        else if is_ws c then compact False s
        else c # compact (c = quote_char) s))"
  by pat_completeness auto
termination
  by (relation "measure (\<lambda>(q, s). length s)") auto

declare compact.simps(2) [simp del]

text \<open>
  \<^verbatim>\<open>RawMessage.MarshalJSON\<close> followed by the compaction; a nil message is written as
  \<^verbatim>\<open>null\<close>.
\<close>

definition marshal_raw :: "bytes \<Rightarrow> bytes option" where
  "marshal_raw v =
    (let m = (if v = [] then ''null'' else v)
     in if read_doc m = None then None else Some (compact False m))"

definition compact_stable :: "bytes \<Rightarrow> bool" where
  "compact_stable v \<longleftrightarrow> (\<forall>rest. compact False (v @ rest) = v @ compact False rest)"

subsection \<open>Compact text stays as it is\<close>

lemma compact_stableD: "compact_stable v \<Longrightarrow> compact False (v @ rest) = v @ compact False rest"
  by (simp add: compact_stable_def)

lemma compact_stable_compact: "compact_stable v \<Longrightarrow> compact False v = v"
  using compact_stableD [of v "[]"] by simp

lemma compact_stable_Nil: "compact_stable []"
  by (simp add: compact_stable_def)

lemma compact_stable_append: "compact_stable u \<Longrightarrow> compact_stable v \<Longrightarrow> compact_stable (u @ v)"
  by (simp add: compact_stable_def)

text \<open>A plain character: nothing any rule of the compaction applies to.\<close>

definition plain :: "char \<Rightarrow> bool" where
  "plain c \<longleftrightarrow> html_escape c = None \<and> byte c \<noteq> 0xE2 \<and> c \<noteq> quote_char \<and> c \<noteq> backslash \<and> \<not> is_ws c"

lemma line_sep_first: "byte c \<noteq> 0xE2 \<Longrightarrow> line_sep (c # r) = None"
  by (auto simp: line_sep_def byte_def)

lemma compact_plain: "plain c \<Longrightarrow> compact q (c # s) = c # compact q s"
  by (simp add: compact.simps plain_def line_sep_first)

lemma compact_quote: "compact q (quote_char # s) = quote_char # compact (\<not> q) s"
  by (simp add: compact.simps html_escape_def line_sep_first byte_def)

lemma compact_escaped:
  "html_escape c = None \<Longrightarrow> line_sep (c # take 2 s) = None \<Longrightarrow>
   compact True (backslash # c # s) = backslash # c # compact True s"
  by (simp add: compact.simps(2) [of True backslash] html_escape_def line_sep_first byte_def)

lemma compact_stable_plain: "\<forall>c \<in> set v. plain c \<Longrightarrow> compact_stable v"
  unfolding compact_stable_def by (induction v) (simp_all add: compact_plain)

text \<open>Inside a string, every other byte is copied.\<close>

definition string_safe :: "char \<Rightarrow> bool" where
  "string_safe c \<longleftrightarrow> byte c \<notin> {0x26, 0x3C, 0x3E, 0x22, 0x5C, 0xE2}"

lemma string_safeD:
  assumes "string_safe c"
  shows "html_escape c = None" "byte c \<noteq> 0xE2" "c \<noteq> quote_char" "c \<noteq> backslash"
  using assms by (auto simp: string_safe_def html_escape_def byte_def)

lemma compact_string_safe: "string_safe c \<Longrightarrow> compact True (c # s) = c # compact True s"
  by (simp add: compact.simps line_sep_first string_safeD)

lemma compact_string_safe_list:
  "\<forall>c \<in> set v. string_safe c \<Longrightarrow> compact True (v @ s) = v @ compact True s"
  by (induction v) (simp_all add: compact_string_safe)

lemma string_safe_hex: "n < 16 \<Longrightarrow> string_safe (hex_digit n)"
  by (simp add: string_safe_def hex_digit_def)

lemma compact_backslash:
  "compact True (backslash # c # s) = backslash # c # compact True s"
  by (simp add: compact.simps(2) [of True backslash] html_escape_def line_sep_first byte_def)

lemma string_safeI:
  "byte c < 0x80 \<Longrightarrow> c \<notin> {CHR ''&'', CHR ''<'', CHR ''>'', quote_char, backslash} \<Longrightarrow> string_safe c"
proof -
  have "byte (CHR ''&'') = 0x26" "byte (CHR ''<'') = 0x3C" "byte (CHR ''>'') = 0x3E"
    by (simp_all add: byte_def)
  then have "byte c = 0x26 \<longleftrightarrow> c = CHR ''&''" "byte c = 0x3C \<longleftrightarrow> c = CHR ''<''"
    "byte c = 0x3E \<longleftrightarrow> c = CHR ''>''" "byte c = 0x22 \<longleftrightarrow> c = quote_char" "byte c = 0x5C \<longleftrightarrow> c = backslash"
    by (metis byte_inject byte_quote byte_backslash)+
  then show "byte c < 0x80 \<Longrightarrow> c \<notin> {CHR ''&'', CHR ''<'', CHR ''>'', quote_char, backslash} \<Longrightarrow>
    string_safe c"
    by (simp add: string_safe_def)
qed

lemma esc_ascii_cases:
  "(\<exists>d. esc_ascii c = [backslash, d]) \<or>
   esc_ascii c = backslash # ''u00'' @ [hex_digit (byte c div 16), hex_digit (byte c mod 16)] \<or>
   (esc_ascii c = [c] \<and> c \<notin> {CHR ''&'', CHR ''<'', CHR ''>'', quote_char, backslash})"
  unfolding esc_ascii_def Let_def by (simp split: if_split)

lemma compact_esc_ascii:
  assumes "byte c < 0x80"
  shows "compact True (esc_ascii c @ s) = esc_ascii c @ compact True s"
proof -
  consider (two) d where "esc_ascii c = [backslash, d]"
    | (hex) "esc_ascii c = backslash # ''u00'' @ [hex_digit (byte c div 16), hex_digit (byte c mod 16)]"
    | (plain) "esc_ascii c = [c]" "string_safe c"
    using esc_ascii_cases [of c] string_safeI [OF assms] by blast
  then show ?thesis
  proof cases
    case two
    then show ?thesis by (simp add: compact_backslash)
  next
    case hex
    have "\<forall>x \<in> set [CHR ''0'', CHR ''0'', hex_digit (byte c div 16), hex_digit (byte c mod 16)].
        string_safe x"
      using assms by (auto simp: string_safe_hex) (auto simp: string_safe_def byte_def)
    from compact_string_safe_list [OF this, of s] hex show ?thesis
      by (simp add: compact_backslash)
  next
    case plain
    then show ?thesis by (simp add: compact_string_safe)
  qed
qed

lemma string_safe_letters: "\<forall>c \<in> set ''fd0289''. string_safe c"
  by (simp add: string_safe_def byte_def)

lemma compact_esc_fffd: "compact True (esc_fffd @ s) = esc_fffd @ compact True s"
  using string_safe_letters by (simp add: esc_fffd_def compact_backslash compact_string_safe)

lemma compact_esc_line_sep:
  "line_sep r = Some e \<Longrightarrow> compact True (e @ s) = e @ compact True s"
  using string_safe_letters
  by (auto simp: line_sep_def compact_backslash compact_string_safe split: if_splits)

lemma string_safe_high: "between 0x80 0xBF c \<or> between 0xC2 0xE1 c \<or> between 0xE3 0xF4 c \<Longrightarrow> string_safe c"
  by (auto simp: between_def string_safe_def)

lemma compact_rune:
  assumes n: "rune_len (b # s) \<noteq> 0" and high: "\<not> byte b < 0x80"
    and sep: "line_sep (take (rune_len (b # s)) (b # s)) = None"
  shows "compact True (take (rune_len (b # s)) (b # s) @ t)
    = take (rune_len (b # s)) (b # s) @ compact True t"
  using n
proof (cases rule: rune_len_cases)
  case one
  with high show ?thesis by simp
next
  case (two b0 b1 r)
  then have "string_safe b0" "string_safe b1"
    by (auto simp: two_ok_def between_def string_safe_def)
  with two show ?thesis by (simp add: compact_string_safe)
next
  case (three b0 b1 b2 r)
  then have tail: "string_safe b1" "string_safe b2"
    by (auto simp: three_ok_def between_def string_safe_def split: if_splits)
  have "html_escape b0 = None" "b0 \<noteq> quote_char" "b0 \<noteq> backslash"
    using three by (auto simp: html_escape_def byte_def)
  moreover have "line_sep [b0, b1, b2] = None" using sep three by simp
  ultimately have "compact True (b0 # b1 # b2 # t) = b0 # compact True (b1 # b2 # t)"
    by (simp add: compact.simps(2) [of True b0])
  with three tail show ?thesis by (simp add: compact_string_safe)
next
  case (four b0 b1 b2 b3 r)
  then have "string_safe b0" "string_safe b1" "string_safe b2" "string_safe b3"
    by (auto simp: four_ok_def between_def string_safe_def split: if_splits)
  with four show ?thesis by (simp add: compact_string_safe)
qed

lemma compact_escape: "compact True (escape s @ t) = escape s @ compact True t"
proof (induction s rule: escape.induct)
  case 1
  then show ?case by simp
next
  case (2 b s)
  let ?n = "rune_len (b # s)"
  consider (ascii) "byte b < 0x80" | (bad) "\<not> byte b < 0x80" "?n = 0"
    | (good) "\<not> byte b < 0x80" "?n \<noteq> 0"
    by blast
  then show ?case
  proof cases
    case ascii
    with 2 show ?thesis by (simp add: escape.simps compact_esc_ascii)
  next
    case bad
    with 2 show ?thesis by (simp add: escape.simps compact_esc_fffd)
  next
    case good
    then have IH: "compact True (escape (drop (?n - 1) s) @ t)
        = escape (drop (?n - 1) s) @ compact True t"
      using 2 by simp
    show ?thesis
    proof (cases "line_sep (take ?n (b # s))")
      case None
      with good IH compact_rune [of b s] show ?thesis
        by (simp add: escape.simps Let_def del: take_Cons' drop_Cons')
    next
      case (Some e)
      with good IH show ?thesis
        by (simp add: escape.simps Let_def compact_esc_line_sep del: take_Cons' drop_Cons')
    qed
  qed
qed

lemma compact_stable_quote: "compact_stable (json_quote s)"
  by (simp add: compact_stable_def json_quote_def compact_quote compact_escape)

lemma plain_digit: "is_digit c \<or> c = CHR ''-'' \<Longrightarrow> plain c"
  by (auto simp: plain_def html_escape_def is_digit_def is_ws_def byte_def)

lemma dec_int_chars: "\<forall>c \<in> set (dec_int i). is_digit c \<or> c = CHR ''-''"
  using dec_nat_digits by (auto simp: dec_int_def list_all_iff)

lemma compact_stable_dec_int: "compact_stable (dec_int i)"
  by (rule compact_stable_plain) (use dec_int_chars plain_digit in blast)

lemma plain_punct: "plain (CHR ''{'')" "plain (CHR ''}'')" "plain (CHR '':'')" "plain (CHR '','')"
  by (simp_all add: plain_def html_escape_def is_ws_def byte_def)

lemma compact_stable_member:
  "compact_stable v \<Longrightarrow> compact_stable (write_member (k, v))"
  using compact_stableD [OF compact_stable_quote [of k]]
  by (simp add: compact_stable_def write_member_def compact_plain plain_punct)

lemma compact_stable_members:
  "\<forall>(k, v) \<in> set ms. compact_stable v \<Longrightarrow> compact_stable (write_members ms)"
proof (induction ms rule: write_members.induct)
  case 1
  then show ?case by (simp add: compact_stable_Nil)
next
  case (2 m)
  then show ?case by (cases m) (simp add: compact_stable_member)
next
  case (3 m m' ms)
  then have "compact_stable (write_member m)" "compact_stable (write_members (m' # ms))"
    by (cases m; auto simp: compact_stable_member)+
  moreover have "compact_stable [CHR '','']"
    by (rule compact_stable_plain) (simp add: plain_punct)
  ultimately show ?case
    using compact_stable_append [of "write_member m" "CHR '','' # write_members (m' # ms)"]
      compact_stable_append [of "[CHR '','']" "write_members (m' # ms)"]
    by simp
qed

lemma compact_stable_object:
  assumes "\<forall>(k, v) \<in> set ms. compact_stable v"
  shows "compact_stable (write_object ms)"
  using compact_stableD [OF compact_stable_members [OF assms]]
  by (simp add: compact_stable_def write_object_def compact_plain plain_punct)

theorem marshal_raw_object:
  assumes "\<forall>(k, v) \<in> set ms. self_delimiting 1 v \<and> compact_stable v"
  shows "marshal_raw (write_object ms) = Some (write_object ms)"
proof -
  have "read_doc (write_object ms) \<noteq> None"
    using assms by (subst read_doc_write_object) auto
  moreover have "compact False (write_object ms) = write_object ms"
    using assms by (intro compact_stable_compact compact_stable_object) auto
  ultimately show ?thesis by (simp add: marshal_raw_def write_object_def Let_def)
qed

end
