(* ===== verification/Go_Time.thy ===== *)
theory Go_Time
  imports Json_Compact
begin

text \<open>
  Instants, and the RFC 3339 text by which Go's \<^verbatim>\<open>time.Time\<close> crosses JSON.

  A time is its civil reading: the fields of the calendar, the nanosecond and the
  offset of its zone in minutes (0 for UTC, which \<^verbatim>\<open>time.Now().UTC()\<close> yields).
  \<open>format_time\<close> is \<^verbatim>\<open>MarshalJSON\<close> (layout \<^verbatim>\<open>RFC3339Nano\<close>, an error for a year
  of more than four digits or an offset of a day and more); \<open>parse_rfc3339\<close> is the
  parser \<^verbatim>\<open>UnmarshalJSON\<close> tries on the text between the quotes. The
  lenient second parser that Go tries on text the first one refuses is not modelled.
\<close>

record go_time =
  t_year :: int
  t_month :: nat
  t_day :: nat
  t_hour :: nat
  t_min :: nat
  t_sec :: nat
  t_nsec :: nat
  t_zone :: int

definition leap_year :: "nat \<Rightarrow> bool" where
  "leap_year y \<longleftrightarrow> y mod 4 = 0 \<and> (y mod 100 \<noteq> 0 \<or> y mod 400 = 0)"

definition days_in :: "nat \<Rightarrow> nat \<Rightarrow> nat" where
  "days_in m y =
    (if m = 2 then (if leap_year y then 29 else 28)
     else if m = 4 \<or> m = 6 \<or> m = 9 \<or> m = 11 then 30 else 31)"

text \<open>The readings of a calendar and clock, with a year and a zone JSON can carry.\<close>

definition valid_time :: "go_time \<Rightarrow> bool" where
  "valid_time t \<longleftrightarrow>
    0 \<le> t_year t \<and> t_year t \<le> 9999 \<and> 1 \<le> t_month t \<and> t_month t \<le> 12 \<and>
    1 \<le> t_day t \<and> t_day t \<le> days_in (t_month t) (nat (t_year t)) \<and>
    t_hour t \<le> 23 \<and> t_min t \<le> 59 \<and> t_sec t \<le> 59 \<and> t_nsec t < 10 ^ 9 \<and>
    \<bar>t_zone t\<bar> < 24 * 60"

text \<open>The zero \<^verbatim>\<open>time.Time\<close>.\<close>

definition zero_time :: go_time where
  "zero_time = \<lparr>t_year = 1, t_month = 1, t_day = 1, t_hour = 0, t_min = 0, t_sec = 0,
     t_nsec = 0, t_zone = 0\<rparr>"

subsection \<open>Formatting\<close>

fun pad :: "nat \<Rightarrow> nat \<Rightarrow> bytes" where
  "pad 0 n = []"
| "pad (Suc k) n = pad k (n div 10) @ [digit_char (n mod 10)]"

definition strip_zeros :: "bytes \<Rightarrow> bytes" where
  "strip_zeros s = rev (dropWhile (\<lambda>c. c = CHR ''0'') (rev s))"

definition format_frac :: "nat \<Rightarrow> bytes" where
  "format_frac n = (if n = 0 then [] else CHR ''.'' # strip_zeros (pad 9 n))"

definition format_zone :: "int \<Rightarrow> bytes" where
  "format_zone z =
    (if z = 0 then ''Z''
     else (if z < 0 then CHR ''-'' else CHR ''+'') #
       pad 2 (nat \<bar>z\<bar> div 60) @ CHR '':'' # pad 2 (nat \<bar>z\<bar> mod 60))"

definition format_time :: "go_time \<Rightarrow> bytes option" where
  "format_time t =
    (if 0 \<le> t_year t \<and> t_year t \<le> 9999 \<and> \<bar>t_zone t\<bar> < 24 * 60 then
       Some (pad 4 (nat (t_year t)) @ CHR ''-'' # pad 2 (t_month t) @ CHR ''-'' # pad 2 (t_day t) @
         CHR ''T'' # pad 2 (t_hour t) @ CHR '':'' # pad 2 (t_min t) @ CHR '':'' # pad 2 (t_sec t) @
         format_frac (t_nsec t) @ format_zone (t_zone t))
     else None)"

subsection \<open>Parsing\<close>

definition sub :: "nat \<Rightarrow> nat \<Rightarrow> bytes \<Rightarrow> bytes" where
  "sub i n s = take n (drop i s)"

definition parse_uint :: "bytes \<Rightarrow> nat \<Rightarrow> nat \<Rightarrow> nat option" where
  "parse_uint s lo hi =
    (if list_all is_digit s \<and> lo \<le> digits_val s \<and> digits_val s \<le> hi
     then Some (digits_val s) else None)"

definition parse_frac :: "bytes \<Rightarrow> nat \<times> bytes" where
  "parse_frac s =
    (case s of
      c # d # r \<Rightarrow>
        if c = CHR ''.'' \<and> is_digit d then
          (let ds = takeWhile is_digit (d # r)
           in (digits_val (take 9 ds) * 10 ^ (9 - length ds), dropWhile is_digit (d # r)))
        else (0, s)
    | _ \<Rightarrow> (0, s))"

definition parse_zone :: "bytes \<Rightarrow> int option" where
  "parse_zone s =
    (if s = ''Z'' then Some 0
     else if length s = 6 \<and> (s ! 0 = CHR ''-'' \<or> s ! 0 = CHR ''+'') \<and> s ! 3 = CHR '':'' then
       (case (parse_uint (sub 1 2 s) 0 23, parse_uint (sub 4 2 s) 0 59) of
         (Some h, Some m) \<Rightarrow>
           Some ((if s ! 0 = CHR ''-'' then - 1 else 1) * (int h * 60 + int m))
       | _ \<Rightarrow> None)
     else None)"

definition parse_rfc3339 :: "bytes \<Rightarrow> go_time option" where
  "parse_rfc3339 s =
    (if length s < 19 then None
     else if s ! 4 = CHR ''-'' \<and> s ! 7 = CHR ''-'' \<and> s ! 10 = CHR ''T'' \<and> s ! 13 = CHR '':'' \<and>
        s ! 16 = CHR '':'' then
       (case (parse_uint (sub 0 4 s) 0 9999, parse_uint (sub 5 2 s) 1 12) of
         (Some y, Some mo) \<Rightarrow>
         (case (parse_uint (sub 8 2 s) 1 (days_in mo y), parse_uint (sub 11 2 s) 0 23,
             parse_uint (sub 14 2 s) 0 59, parse_uint (sub 17 2 s) 0 59) of
           (Some d, Some h, Some mi, Some sec) \<Rightarrow>
             (let (ns, z) = parse_frac (drop 19 s)
              in map_option (\<lambda>off. \<lparr>t_year = int y, t_month = mo, t_day = d, t_hour = h,
                   t_min = mi, t_sec = sec, t_nsec = ns, t_zone = off\<rparr>) (parse_zone z))
         | _ \<Rightarrow> None)
       | _ \<Rightarrow> None)
     else None)"

text \<open>\<^verbatim>\<open>MarshalJSON\<close> and \<^verbatim>\<open>UnmarshalJSON\<close>: the text between quotes.\<close>

definition marshal_time :: "go_time \<Rightarrow> bytes option" where
  "marshal_time t = map_option (\<lambda>s. quote_char # s @ [quote_char]) (format_time t)"

definition unmarshal_time :: "bytes \<Rightarrow> go_time \<Rightarrow> go_time option" where
  "unmarshal_time raw old =
    (if raw = ''null'' then Some old
     else if length raw < 2 \<or> hd raw \<noteq> quote_char \<or> last raw \<noteq> quote_char then None
     else parse_rfc3339 (butlast (tl raw)))"

subsection \<open>Round trip\<close>

lemma length_pad [simp]: "length (pad k n) = k"
  by (induction k arbitrary: n) auto

lemma pad_digits [simp]: "list_all is_digit (pad k n)"
  by (induction k arbitrary: n) auto

lemma digits_val_pad: "digits_val (pad k n) = n mod 10 ^ k"
proof (induction k arbitrary: n)
  case 0
  then show ?case by (simp add: digits_val_def)
next
  case (Suc k)
  have "n div 10 mod 10 ^ k * 10 + n mod 10 = n mod 10 ^ Suc k"
    by (simp add: mod_mult2_eq)
  with Suc show ?case by simp
qed

lemma parse_uint_pad: "n < 10 ^ k \<Longrightarrow> lo \<le> n \<Longrightarrow> n \<le> hi \<Longrightarrow> parse_uint (pad k n) lo hi = Some n"
  by (simp add: parse_uint_def digits_val_pad)

lemma strip_zeros_decomp: "\<exists>k. s = strip_zeros s @ replicate k (CHR ''0'')"
proof (induction s rule: rev_induct)
  case Nil
  then show ?case by (simp add: strip_zeros_def)
next
  case (snoc c s)
  show ?case
  proof (cases "c = CHR ''0''")
    case True
    from snoc obtain k where k: "s = strip_zeros s @ replicate k (CHR ''0'')" by blast
    have "strip_zeros (s @ [c]) = strip_zeros s" using True by (simp add: strip_zeros_def)
    moreover have "s @ [c] = (strip_zeros s @ replicate k (CHR ''0'')) @ [c]"
      using k by (rule arg_cong)
    ultimately have "s @ [c] = strip_zeros (s @ [c]) @ replicate (Suc k) (CHR ''0'')"
      using True by (simp add: replicate_append_same)
    then show ?thesis by blast
  next
    case False
    then have "s @ [c] = strip_zeros (s @ [c]) @ replicate 0 (CHR ''0'')"
      by (simp add: strip_zeros_def)
    then show ?thesis by blast
  qed
qed

lemma digit_val_zero [simp]: "digit_val (CHR ''0'') = 0"
  by (simp add: digit_val_def byte_def)

lemma digits_val_zeros: "digits_val (s @ replicate k (CHR ''0'')) = digits_val s * 10 ^ k"
proof (induction k)
  case 0
  then show ?case by simp
next
  case (Suc k)
  have "s @ replicate (Suc k) (CHR ''0'') = (s @ replicate k (CHR ''0'')) @ [CHR ''0'']"
    by (simp add: replicate_append_same)
  with Suc show ?case by (simp only: digits_val_snoc) simp
qed

lemma format_zone_head: "\<exists>c t. format_zone z = c # t \<and> \<not> is_digit c \<and> c \<noteq> CHR ''.''"
  by (simp add: format_zone_def is_digit_def byte_def)

lemma parse_frac_format:
  assumes n: "n < 10 ^ 9"
  shows "parse_frac (format_frac n @ format_zone z) = (n, format_zone z)"
proof (cases "n = 0")
  case True
  with format_zone_head [of z] show ?thesis
    by (auto simp: format_frac_def parse_frac_def split: list.split)
next
  case False
  let ?u = "strip_zeros (pad 9 n)"
  obtain k where k: "pad 9 n = ?u @ replicate k (CHR ''0'')"
    using strip_zeros_decomp by blast
  have "length ?u + k = 9" using arg_cong [OF k, of length] by simp
  moreover have val: "digits_val ?u * 10 ^ k = n"
    using arg_cong [OF k, of digits_val] n by (simp add: digits_val_zeros digits_val_pad)
  moreover have dig: "list_all is_digit ?u"
    using pad_digits [of 9 n] k by (metis list_all_append)
  moreover have "?u \<noteq> []" using val False by (auto simp: digits_val_def)
  ultimately obtain d r where u: "?u = d # r" "is_digit d" "list_all is_digit r"
    and len: "length ?u \<le> 9" "k = 9 - length ?u"
    by (cases ?u) auto
  obtain c t where z: "format_zone z = c # t" "\<not> is_digit c"
    using format_zone_head by blast
  have "takeWhile is_digit (?u @ format_zone z) = ?u"
    using dig z by (simp add: list_all_iff takeWhile_append)
  moreover have "dropWhile is_digit (?u @ format_zone z) = format_zone z"
    using dig z by (simp add: list_all_iff dropWhile_append)
  ultimately show ?thesis
    using False u len val by (simp add: format_frac_def parse_frac_def Let_def)
qed

lemma parse_zone_format:
  assumes "\<bar>z\<bar> < 24 * 60"
  shows "parse_zone (format_zone z) = Some z"
proof (cases "z = 0")
  case True
  then show ?thesis by (simp add: format_zone_def parse_zone_def)
next
  case False
  let ?h = "nat \<bar>z\<bar> div 60" and ?m = "nat \<bar>z\<bar> mod 60"
  have h: "?h \<le> 23" and m: "?m \<le> 59" using assms by auto
  have parts: "sub 1 2 (c # pad 2 ?h @ CHR '':'' # pad 2 ?m) = pad 2 ?h"
    "sub 4 2 (c # pad 2 ?h @ CHR '':'' # pad 2 ?m) = pad 2 ?m"
    "(c # pad 2 ?h @ CHR '':'' # pad 2 ?m) ! 3 = CHR '':''" for c
    by (simp_all add: sub_def nth_append drop_Cons')
  have "?h * 60 + ?m = nat \<bar>z\<bar>" by simp
  then have "int ?h * 60 + int ?m = \<bar>z\<bar>"
    by (metis int_nat_eq abs_ge_zero of_nat_add of_nat_mult of_nat_numeral)
  with False h m parts show ?thesis
    by (auto simp: format_zone_def parse_zone_def parse_uint_pad)
qed

theorem parse_format_time:
  assumes "valid_time t"
  shows "\<exists>s. format_time t = Some s \<and> parse_rfc3339 s = Some t"
proof -
  obtain y where y: "t_year t = int y" "y \<le> 9999"
    using assms by (auto simp: valid_time_def intro!: that [of "nat (t_year t)"])
  let ?tail = "format_frac (t_nsec t) @ format_zone (t_zone t)"
  define s where "s = pad 4 y @ CHR ''-'' # pad 2 (t_month t) @ CHR ''-'' # pad 2 (t_day t) @
         CHR ''T'' # pad 2 (t_hour t) @ CHR '':'' # pad 2 (t_min t) @ CHR '':'' # pad 2 (t_sec t) @
         ?tail"
  have fmt: "format_time t = Some s"
    using assms y by (simp add: format_time_def valid_time_def s_def)
  have punct: "s ! 4 = CHR ''-''" "s ! 7 = CHR ''-''" "s ! 10 = CHR ''T''" "s ! 13 = CHR '':''"
      "s ! 16 = CHR '':''" "\<not> length s < 19"
    by (simp_all add: s_def nth_append nth_Cons')
  have parts: "sub 0 4 s = pad 4 y" "sub 5 2 s = pad 2 (t_month t)" "sub 8 2 s = pad 2 (t_day t)"
      "sub 11 2 s = pad 2 (t_hour t)" "sub 14 2 s = pad 2 (t_min t)" "sub 17 2 s = pad 2 (t_sec t)"
      "drop 19 s = ?tail"
    by (simp_all add: s_def sub_def drop_Cons')
  have "days_in (t_month t) y \<le> 31" by (simp add: days_in_def)
  then have "parse_rfc3339 s = Some t"
    using assms y punct parts
    by (simp add: parse_rfc3339_def valid_time_def parse_uint_pad parse_frac_format
        parse_zone_format)
  with fmt show ?thesis by blast
qed

end
