(* ===== verification/Apperror.thy ===== *)
theory Apperror
  imports Prelude
begin

text \<open>
  Go error values and the package \<^verbatim>\<open>internal/apperror\<close>.

  An \<^verbatim>\<open>error\<close> is an application error, an error made by
  \<^verbatim>\<open>fmt.Errorf\<close> with the verb \<^verbatim>\<open>%w\<close> (\<open>Errorf\<close>), one of the sentinel
  values the code compares with \<^verbatim>\<open>errors.Is\<close>, an error of the JSON decoder
  (by its kind), or any other error of a library (\<open>Opaque\<close>, known by its text only).
  What a sentinel or a decoder error prints is the business of the library that makes
  it, so it is the argument \<open>lt\<close> of the functions that render an error.
\<close>

datatype sentinel = RedisNil | PgNoRows | ContextCanceled | MigrateNoChange

datatype json_error = SyntaxError | UnmarshalTypeError bytes | UnmarshalerError bytes

datatype app_error =
    MkError (Code: string) (Message: string) (HTTPStatus: int) (Err: "go_error option")
and go_error =
    App app_error
  | Errorf string go_error
  | Sentinel sentinel
  | Json json_error
  | Opaque string

subsection \<open>Rendering and unwrapping\<close>

fun Error :: "(sentinel + json_error \<Rightarrow> string) \<Rightarrow> app_error \<Rightarrow> string"
and error_text :: "(sentinel + json_error \<Rightarrow> string) \<Rightarrow> go_error \<Rightarrow> string" where
  "Error lt (MkError c m h (Some e)) = c @ '': '' @ m @ '': '' @ error_text lt e"
| "Error lt (MkError c m h None) = c @ '': '' @ m"
| "error_text lt (App e) = Error lt e"
| "error_text lt (Errorf p e) = p @ '': '' @ error_text lt e"
| "error_text lt (Sentinel s) = lt (Inl s)"
| "error_text lt (Json j) = lt (Inr j)"
| "error_text lt (Opaque t) = t"

definition Unwrap :: "app_error \<Rightarrow> go_error option" where
  "Unwrap e = Err e"

text \<open>
  The standard library's walk along the chain of wrapped errors: \<^verbatim>\<open>errors.Is\<close>
  against a sentinel, and \<^verbatim>\<open>errors.As\<close> to an application error.
\<close>

fun unwrap :: "go_error \<Rightarrow> go_error option" where
  "unwrap (App e) = Unwrap e"
| "unwrap (Errorf p e) = Some e"
| "unwrap (Sentinel s) = None"
| "unwrap (Json j) = None"
| "unwrap (Opaque t) = None"

fun errors_Is :: "go_error \<Rightarrow> sentinel \<Rightarrow> bool" where
  "errors_Is (Sentinel s) t \<longleftrightarrow> s = t"
| "errors_Is (Opaque _) t \<longleftrightarrow> False"
| "errors_Is (Json _) t \<longleftrightarrow> False"
| "errors_Is (Errorf _ e) t \<longleftrightarrow> errors_Is e t"
| "errors_Is (App (MkError _ _ _ None)) t \<longleftrightarrow> False"
| "errors_Is (App (MkError _ _ _ (Some e))) t \<longleftrightarrow> errors_Is e t"

fun errors_As :: "go_error \<Rightarrow> app_error option" where
  "errors_As (App e) = Some e"
| "errors_As (Errorf _ e) = errors_As e"
| "errors_As (Sentinel _) = None"
| "errors_As (Json _) = None"
| "errors_As (Opaque _) = None"

subsection \<open>The constructors\<close>

definition NewNotFound :: "string \<Rightarrow> app_error" where
  "NewNotFound msg = MkError ''NOT_FOUND'' msg 404 None"

definition NewValidation :: "string \<Rightarrow> app_error" where
  "NewValidation msg = MkError ''VALIDATION_ERROR'' msg 400 None"

definition NewConflict :: "string \<Rightarrow> app_error" where
  "NewConflict msg = MkError ''CONFLICT'' msg 409 None"

definition NewUnauthorized :: "string \<Rightarrow> app_error" where
  "NewUnauthorized msg = MkError ''UNAUTHORIZED'' msg 401 None"

definition NewInternal :: "string \<Rightarrow> go_error \<Rightarrow> app_error" where
  "NewInternal msg err = MkError ''INTERNAL_ERROR'' msg 500 (Some err)"

lemmas app_error_defs =
  NewNotFound_def NewValidation_def NewConflict_def NewUnauthorized_def NewInternal_def

subsection \<open>The response body\<close>

record ErrorBody =
  body_code :: string
  body_message :: string

record Response =
  resp_error :: "ErrorBody option"

definition ToResponse :: "app_error \<Rightarrow> Response" where
  "ToResponse e = \<lparr>resp_error = Some \<lparr>body_code = Code e, body_message = Message e\<rparr>\<rparr>"

subsection \<open>Facts\<close>

text \<open>\<^verbatim>\<open>errors.Is\<close> is what its documentation says: some error of the chain matches.\<close>

lemma errors_Is_unwrap:
  "errors_Is e t \<longleftrightarrow> e = Sentinel t \<or> (\<exists>e'. unwrap e = Some e' \<and> errors_Is e' t)"
  by (induction e t rule: errors_Is.induct) (auto simp: Unwrap_def)

lemma errors_Is_NewInternal [simp]: "errors_Is (App (NewInternal m e)) t \<longleftrightarrow> errors_Is e t"
  by (simp add: NewInternal_def)

lemma Code_simps [simp]:
  "Code (NewNotFound m) = ''NOT_FOUND''" "Code (NewValidation m) = ''VALIDATION_ERROR''"
  "Code (NewConflict m) = ''CONFLICT''" "Code (NewUnauthorized m) = ''UNAUTHORIZED''"
  "Code (NewInternal m e) = ''INTERNAL_ERROR''"
  by (simp_all add: app_error_defs)

lemma HTTPStatus_simps [simp]:
  "HTTPStatus (NewNotFound m) = 404" "HTTPStatus (NewValidation m) = 400"
  "HTTPStatus (NewConflict m) = 409" "HTTPStatus (NewUnauthorized m) = 401"
  "HTTPStatus (NewInternal m e) = 500"
  by (simp_all add: app_error_defs)

lemma Message_simps [simp]:
  "Message (NewNotFound m) = m" "Message (NewValidation m) = m"
  "Message (NewConflict m) = m" "Message (NewUnauthorized m) = m"
  "Message (NewInternal m e) = m"
  by (simp_all add: app_error_defs)

text \<open>
  The response sent to a client depends on the code and the message alone: whatever
  the wrapped cause is, it does not leak.
\<close>

lemma ToResponse_hides_cause:
  "ToResponse (NewInternal m e) = ToResponse (NewInternal m e')"
  by (simp add: ToResponse_def)

end
