(* ===== verification/Json_Struct.thy ===== *)
theory Json_Struct
  imports Go_Time Apperror
begin

text \<open>
  How \<^verbatim>\<open>json.Unmarshal\<close> fills a struct, for the field types this program has
  (\<^verbatim>\<open>string\<close>, \<^verbatim>\<open>int\<close>, \<^verbatim>\<open>time.Time\<close>, \<^verbatim>\<open>json.RawMessage\<close>), and
  what \<^verbatim>\<open>json.Marshal\<close> makes of them.

  The decoder checks the syntax of the whole input first. Then it walks the members
  in order: an unknown key is skipped, a later duplicate wins, \<^verbatim>\<open>null\<close> leaves the
  field alone, a value of the wrong type is remembered (the first such error is returned
  once every member has been visited), and an error of an \<^verbatim>\<open>UnmarshalJSON\<close> method
  is returned at once. A key names a field if they agree up to case folding.
\<close>

datatype 'a store = Stored 'a | Mismatch | Failed

subsection \<open>Keys\<close>

fun fold_key :: "bytes \<Rightarrow> bytes" where
  "fold_key [] = []"
| "fold_key (c # s) =
    (if c = CHR 0xE2 \<and> take 2 s = [CHR 0x84, CHR 0xAA] then CHR ''K'' # fold_key (drop 2 s)
     else if c = CHR 0xC5 \<and> take 1 s = [CHR 0xBF] then CHR ''S'' # fold_key (drop 1 s)
     else if 97 \<le> byte c \<and> byte c \<le> 122 then char_of (byte c - 32) # fold_key s
     else c # fold_key s)"

definition key_is :: "bytes \<Rightarrow> bytes \<Rightarrow> bool" where
  "key_is k name \<longleftrightarrow> fold_key k = fold_key name"

subsection \<open>Fields\<close>

definition decode_string :: "bytes \<Rightarrow> bytes \<Rightarrow> bytes option" where
  "decode_string raw old =
    (if raw = ''null'' then Some old
     else (case raw of
       [] \<Rightarrow> None
     | c # r \<Rightarrow> if c = quote_char then map_option fst (parse_str r) else None))"

definition decode_int :: "bytes \<Rightarrow> go_int \<Rightarrow> go_int option" where
  "decode_int raw old = (if raw = ''null'' then Some old else parse_int raw)"

definition stored :: "('b \<Rightarrow> 'a) \<Rightarrow> 'b option \<Rightarrow> 'a store" where
  "stored upd v = (case v of Some x \<Rightarrow> Stored (upd x) | None \<Rightarrow> Mismatch)"

definition stored_by_method :: "('b \<Rightarrow> 'a) \<Rightarrow> 'b option \<Rightarrow> 'a store" where
  "stored_by_method upd v = (case v of Some x \<Rightarrow> Stored (upd x) | None \<Rightarrow> Failed)"

fun store_all ::
  "(bytes \<Rightarrow> bytes \<Rightarrow> 'a \<Rightarrow> 'a store) \<Rightarrow> (bytes \<times> bytes) list \<Rightarrow> json_error option \<Rightarrow> 'a \<Rightarrow>
   json_error + 'a" where
  "store_all f [] saved x = (case saved of None \<Rightarrow> Inr x | Some e \<Rightarrow> Inl e)"
| "store_all f ((k, v) # ms) saved x =
    (case f k v x of
      Stored y \<Rightarrow> store_all f ms saved y
    | Mismatch \<Rightarrow>
        store_all f ms (Some (case saved of None \<Rightarrow> UnmarshalTypeError k | Some e \<Rightarrow> e)) x
    | Failed \<Rightarrow> Inl (UnmarshalerError k))"

definition unmarshal_struct ::
  "(bytes \<Rightarrow> bytes \<Rightarrow> 'a \<Rightarrow> 'a store) \<Rightarrow> 'a \<Rightarrow> bytes \<Rightarrow> json_error + 'a" where
  "unmarshal_struct f zero data =
    (case read_doc data of
      None \<Rightarrow> Inl SyntaxError
    | Some DNull \<Rightarrow> Inr zero
    | Some DOther \<Rightarrow> Inl (UnmarshalTypeError [])
    | Some (DObject ms) \<Rightarrow> store_all f ms None zero)"

text \<open>What \<^verbatim>\<open>json.Marshal\<close> reports when a time cannot be written.\<close>

definition time_error :: "go_time \<Rightarrow> go_error" where
  "time_error t = Opaque (''json: error calling MarshalJSON for type time.Time: Time.MarshalJSON: '' @
     (if 0 \<le> t_year t \<and> t_year t \<le> 9999 then ''timezone hour outside of range [0,23]''
      else ''year outside of range [0,9999]''))"

subsection \<open>Facts\<close>

lemma json_quote_not_null [simp]: "json_quote s \<noteq> ''null''"
  by (simp add: json_quote_def)

lemma decode_string_quote [simp]: "decode_string (json_quote s) old = Some (utf8_fix s)"
  using parse_str_quote [of s "[]"] by (simp add: decode_string_def json_quote_def)

lemma dec_int_not_null [simp]: "dec_int i \<noteq> ''null''"
proof -
  obtain c t where c: "dec_int i = c # t" "is_digit c \<or> c = CHR ''-''"
    using dec_int_head by blast
  with number_head(1) [OF c(2)] show ?thesis by auto
qed

lemma decode_int_format [simp]: "decode_int (format_int w) old = Some w"
  using parse_format_int [of w] by (simp add: decode_int_def format_int_def)

text \<open>The text of a time needs no escape, so its JSON is an ordinary quoted string.\<close>

lemma escape_plain_ascii:
  "\<forall>c \<in> set s. byte c < 0x80 \<and> esc_ascii c = [c] \<Longrightarrow> escape s = s"
  by (induction s) (simp_all add: escape.simps)

lemma esc_ascii_plain:
  assumes "35 \<le> byte c" "byte c < 0x5C" "c \<notin> {CHR ''&'', CHR ''<'', CHR ''>''}"
  shows "byte c < 0x80 \<and> esc_ascii c = [c]"
  using assms by (auto simp: esc_ascii_def Let_def)

definition time_char :: "char \<Rightarrow> bool" where
  "time_char c \<longleftrightarrow> is_digit c \<or> c \<in> set ''-T:.Z+''"

lemma time_char_plain: "time_char c \<Longrightarrow> byte c < 0x80 \<and> esc_ascii c = [c]"
  by (rule esc_ascii_plain) (auto simp: time_char_def is_digit_def byte_def)

lemma time_char_digits: "list_all is_digit s \<Longrightarrow> c \<in> set s \<Longrightarrow> time_char c"
  by (auto simp: list_all_iff time_char_def)

lemma set_strip_zeros: "set (strip_zeros s) \<subseteq> set s"
  by (auto simp: strip_zeros_def dest: set_dropWhileD)

lemma format_time_chars: "format_time t = Some s \<Longrightarrow> \<forall>c \<in> set s. time_char c"
proof -
  assume s: "format_time t = Some s"
  have pad: "\<forall>c \<in> set (pad k n). time_char c" for k n
    using pad_digits time_char_digits by blast
  have frac: "\<forall>c \<in> set (format_frac n). time_char c" for n
    using pad set_strip_zeros [of "pad 9 n"] by (auto simp: format_frac_def) (auto simp: time_char_def)
  have zone: "\<forall>c \<in> set (format_zone z). time_char c" for z
    using pad by (auto simp: format_zone_def) (auto simp: time_char_def)
  have punct: "time_char (CHR ''-'')" "time_char (CHR ''T'')" "time_char (CHR '':'')"
    by (simp_all add: time_char_def)
  show ?thesis
    using s pad frac zone punct
    by (auto simp: format_time_def simp del: pad.simps split: if_splits)
qed

lemma marshal_time_quote:
  assumes "valid_time t"
  shows "\<exists>s. marshal_time t = Some (json_quote s) \<and> unmarshal_time (json_quote s) old = Some t"
proof -
  obtain s where s: "format_time t = Some s" "parse_rfc3339 s = Some t"
    using parse_format_time [OF assms] by blast
  have "escape s = s"
    using format_time_chars [OF s(1)] time_char_plain by (intro escape_plain_ascii) blast
  then have "json_quote s = quote_char # s @ [quote_char]" by (simp add: json_quote_def)
  with s show ?thesis
    by (auto simp: marshal_time_def unmarshal_time_def intro!: exI [of _ s])
qed

lemma marshal_time_None: "marshal_time t = None \<longleftrightarrow>
    \<not> (0 \<le> t_year t \<and> t_year t \<le> 9999 \<and> \<bar>t_zone t\<bar> < 24 * 60)"
  by (simp add: marshal_time_def format_time_def)

end
