(* ===== verification/Session_Model.thy ===== *)
theory Session_Model
  imports Json_Struct
begin

text \<open>
  The data of the session package, \<^verbatim>\<open>internal/session/model.go\<close>: the playback
  session with its JSON form, and the bodies of the three kinds of request with the
  validation tags of their fields.
\<close>

definition StatusPlaying :: string where
  "StatusPlaying = ''playing''"

definition StatusPaused :: string where
  "StatusPaused = ''paused''"

record PlaybackSession =
  UserID :: string
  TrackID :: string
  Position :: go_int
  Status :: string
  DeviceID :: string
  UpdatedAt :: go_time

definition zero_session :: PlaybackSession where
  "zero_session = \<lparr>UserID = [], TrackID = [], Position = 0, Status = [], DeviceID = [],
     UpdatedAt = zero_time\<rparr>"

record StartRequest =
  sr_TrackID :: string
  sr_DeviceID :: string
  sr_Position :: go_int

record HeartbeatRequest =
  hr_TrackID :: string
  hr_Position :: go_int
  hr_DeviceID :: string

record PauseResumeRequest =
  pr_DeviceID :: string

subsection \<open>JSON of a session\<close>

definition marshal_session :: "PlaybackSession \<Rightarrow> go_error + bytes" where
  "marshal_session s =
    (case marshal_time (UpdatedAt s) of
      None \<Rightarrow> Inl (time_error (UpdatedAt s))
    | Some t \<Rightarrow> Inr (write_object
        [(''user_id'', json_quote (UserID s)),
         (''track_id'', json_quote (TrackID s)),
         (''position_sec'', format_int (Position s)),
         (''status'', json_quote (Status s)),
         (''device_id'', json_quote (DeviceID s)),
         (''updated_at'', t)]))"

definition store_session :: "bytes \<Rightarrow> bytes \<Rightarrow> PlaybackSession \<Rightarrow> PlaybackSession store" where
  "store_session k raw s =
    (if key_is k ''user_id'' then
       stored (\<lambda>v. s\<lparr>UserID := v\<rparr>) (decode_string raw (UserID s))
     else if key_is k ''track_id'' then
       stored (\<lambda>v. s\<lparr>TrackID := v\<rparr>) (decode_string raw (TrackID s))
     else if key_is k ''position_sec'' then
       stored (\<lambda>v. s\<lparr>Position := v\<rparr>) (decode_int raw (Position s))
     else if key_is k ''status'' then
       stored (\<lambda>v. s\<lparr>Status := v\<rparr>) (decode_string raw (Status s))
     else if key_is k ''device_id'' then
       stored (\<lambda>v. s\<lparr>DeviceID := v\<rparr>) (decode_string raw (DeviceID s))
     else if key_is k ''updated_at'' then
       stored_by_method (\<lambda>v. s\<lparr>UpdatedAt := v\<rparr>) (unmarshal_time raw (UpdatedAt s))
     else Stored s)"

definition unmarshal_session :: "bytes \<Rightarrow> json_error + PlaybackSession" where
  "unmarshal_session data = unmarshal_struct store_session zero_session data"

subsection \<open>JSON of the requests\<close>

definition store_start :: "bytes \<Rightarrow> bytes \<Rightarrow> StartRequest \<Rightarrow> StartRequest store" where
  "store_start k raw r =
    (if key_is k ''track_id'' then
       stored (\<lambda>v. r\<lparr>sr_TrackID := v\<rparr>) (decode_string raw (sr_TrackID r))
     else if key_is k ''device_id'' then
       stored (\<lambda>v. r\<lparr>sr_DeviceID := v\<rparr>) (decode_string raw (sr_DeviceID r))
     else if key_is k ''position_sec'' then
       stored (\<lambda>v. r\<lparr>sr_Position := v\<rparr>) (decode_int raw (sr_Position r))
     else Stored r)"

definition store_heartbeat :: "bytes \<Rightarrow> bytes \<Rightarrow> HeartbeatRequest \<Rightarrow> HeartbeatRequest store" where
  "store_heartbeat k raw r =
    (if key_is k ''track_id'' then
       stored (\<lambda>v. r\<lparr>hr_TrackID := v\<rparr>) (decode_string raw (hr_TrackID r))
     else if key_is k ''position_sec'' then
       stored (\<lambda>v. r\<lparr>hr_Position := v\<rparr>) (decode_int raw (hr_Position r))
     else if key_is k ''device_id'' then
       stored (\<lambda>v. r\<lparr>hr_DeviceID := v\<rparr>) (decode_string raw (hr_DeviceID r))
     else Stored r)"

definition store_pause_resume ::
  "bytes \<Rightarrow> bytes \<Rightarrow> PauseResumeRequest \<Rightarrow> PauseResumeRequest store" where
  "store_pause_resume k raw r =
    (if key_is k ''device_id'' then
       stored (\<lambda>v. r\<lparr>pr_DeviceID := v\<rparr>) (decode_string raw (pr_DeviceID r))
     else Stored r)"

definition unmarshal_start :: "bytes \<Rightarrow> json_error + StartRequest" where
  "unmarshal_start data =
    unmarshal_struct store_start \<lparr>sr_TrackID = [], sr_DeviceID = [], sr_Position = 0\<rparr> data"

definition unmarshal_heartbeat :: "bytes \<Rightarrow> json_error + HeartbeatRequest" where
  "unmarshal_heartbeat data =
    unmarshal_struct store_heartbeat \<lparr>hr_TrackID = [], hr_Position = 0, hr_DeviceID = []\<rparr> data"

definition unmarshal_pause_resume :: "bytes \<Rightarrow> json_error + PauseResumeRequest" where
  "unmarshal_pause_resume data = unmarshal_struct store_pause_resume \<lparr>pr_DeviceID = []\<rparr> data"

subsection \<open>The session survives JSON\<close>

text \<open>
  A string field comes back with its ill-formed bytes replaced, everything else comes
  back as it was.
\<close>

definition sanitize :: "PlaybackSession \<Rightarrow> PlaybackSession" where
  "sanitize s = s\<lparr>UserID := utf8_fix (UserID s), TrackID := utf8_fix (TrackID s),
     Status := utf8_fix (Status s), DeviceID := utf8_fix (DeviceID s)\<rparr>"

definition valid_session :: "PlaybackSession \<Rightarrow> bool" where
  "valid_session s \<longleftrightarrow> utf8_valid (UserID s) \<and> utf8_valid (TrackID s) \<and> utf8_valid (Status s) \<and>
     utf8_valid (DeviceID s) \<and> valid_time (UpdatedAt s)"

lemma sanitize_id: "valid_session s \<Longrightarrow> sanitize s = s"
  by (simp add: sanitize_def valid_session_def utf8_valid_fix)

lemma fold_key_names:
  "fold_key ''user_id'' = ''USER_ID''" "fold_key ''track_id'' = ''TRACK_ID''"
  "fold_key ''position_sec'' = ''POSITION_SEC''" "fold_key ''status'' = ''STATUS''"
  "fold_key ''device_id'' = ''DEVICE_ID''" "fold_key ''updated_at'' = ''UPDATED_AT''"
  by (simp_all add: byte_def char_of_eq_iff)

lemma utf8_fix_names:
  "utf8_fix ''user_id'' = ''user_id''" "utf8_fix ''track_id'' = ''track_id''"
  "utf8_fix ''position_sec'' = ''position_sec''" "utf8_fix ''status'' = ''status''"
  "utf8_fix ''device_id'' = ''device_id''" "utf8_fix ''updated_at'' = ''updated_at''"
  by (simp_all add: byte_def)

definition session_members :: "PlaybackSession \<Rightarrow> bytes \<Rightarrow> (bytes \<times> bytes) list" where
  "session_members s t =
        [(''user_id'', json_quote (UserID s)),
         (''track_id'', json_quote (TrackID s)),
         (''position_sec'', format_int (Position s)),
         (''status'', json_quote (Status s)),
         (''device_id'', json_quote (DeviceID s)),
         (''updated_at'', json_quote t)]"

lemma session_members_ok:
  "\<forall>(k, v) \<in> set (session_members s t). self_delimiting d v \<and> compact_stable v"
  by (simp add: session_members_def self_delimiting_quote compact_stable_quote format_int_def
      self_delimiting_dec_int compact_stable_dec_int)

lemma marshal_session_members:
  assumes "valid_time (UpdatedAt s)"
  shows "\<exists>t. marshal_session s = Inr (write_object (session_members s t)) \<and>
    (\<forall>old. unmarshal_time (json_quote t) old = Some (UpdatedAt s))"
proof -
  obtain t where t: "marshal_time (UpdatedAt s) = Some (json_quote t)"
    using marshal_time_quote [OF assms] by blast
  have "unmarshal_time (json_quote t) old = Some (UpdatedAt s)" for old
    using marshal_time_quote [OF assms, of old] t by (auto simp: json_quote_def unmarshal_time_def)
  with t show ?thesis by (auto simp: marshal_session_def session_members_def)
qed

theorem unmarshal_marshal_session:
  assumes "valid_time (UpdatedAt s)"
  shows "\<exists>data. marshal_session s = Inr data \<and> unmarshal_session data = Inr (sanitize s)"
proof -
  obtain t where m: "marshal_session s = Inr (write_object (session_members s t))"
    and t: "\<And>old. unmarshal_time (json_quote t) old = Some (UpdatedAt s)"
    using marshal_session_members [OF assms] by blast
  have "read_doc (write_object (session_members s t))
      = Some (DObject (map (\<lambda>(k, v). (utf8_fix k, v)) (session_members s t)))"
    using session_members_ok [of s t 1] by (intro read_doc_write_object) auto
  then have "unmarshal_session (write_object (session_members s t)) = Inr (sanitize s)"
    by (simp add: unmarshal_session_def unmarshal_struct_def session_members_def utf8_fix_names
        store_session_def key_is_def fold_key_names stored_def stored_by_method_def t
        sanitize_def zero_session_def del: fold_key.simps)
  with m show ?thesis by blast
qed

end
