(* ===== verification/Effects.thy ===== *)
theory Effects
  imports Session_Model
begin

text \<open>
  Effectful code as trees of calls. A program either is done or makes one call to the
  world and goes on with the answer: a Redis command, an SQL statement, a Kafka
  operation, a call to the tracer, a look at the clock, a read or write of a session struct through its
  pointer, the start of a goroutine, a log line.

  The libraries and services behind the calls are not part of this program. They are
  the fields of an environment \<open>'w env\<close>, functions on an arbitrary world \<open>'w\<close>
  that every execution takes as an argument. \<open>step\<close> makes the first call of a
  program, \<open>run\<close> makes them all; since a program is a tree, code that runs
  concurrently can be interleaved call by call.

  Structs that the Go code shares through pointers live in a heap, so that a goroutine
  which captured a pointer sees later writes through it.
\<close>

subsection \<open>What the calls exchange\<close>

type_synonym addr = nat

datatype column = Col_user_id | Col_track_id | Col_position | Col_status | Col_device_id | Col_updated_at

datatype sql_value = SqlText string | SqlInt go_int | SqlTime go_time

text \<open>
  The two statements of the repository: \<^verbatim>\<open>SELECT cols FROM playback_sessions WHERE
  key = $1\<close> and \<^verbatim>\<open>INSERT (cols) VALUES ($1, \<dots>) ON CONFLICT (key) DO UPDATE SET c =
  EXCLUDED.c, \<dots>\<close>.
\<close>

record select_stmt =
  sel_columns :: "column list"
  sel_key :: column

record upsert_stmt =
  ins_columns :: "column list"
  ins_conflict :: column
  ins_updates :: "column list"

record header =
  h_key :: bytes
  h_value :: bytes

record message =
  msg_topic :: string
  msg_key :: bytes
  msg_value :: bytes
  msg_headers :: "header list"
  msg_partition :: nat
  msg_offset :: nat

datatype level = Debug | Info | Warn | Error_level

text \<open>The goroutines the session package starts: \<open>WarmCache p u\<close> is the one of
  \<^verbatim>\<open>Repository.Get\<close>, which captured the session pointer and the user.\<close>

datatype closure = WarmCache addr string

text \<open>
  The attributes of log lines and spans: a key, and a text, a number, a truth value, an error, the
  milliseconds that have passed between two looks at the clock, or the stack of a goroutine.
\<close>

datatype attr = AText string | ANum int | ABool bool | AErr go_error | AMillis go_time go_time | AStack

type_synonym attrs = "(string \<times> attr) list"

text \<open>
  What the middleware tells OpenTelemetry about the span of a request, and Prometheus
  about its outcome; a duration is the time between two looks at the clock.
\<close>

datatype span_op = SpanStart string attrs | SpanStatusCode int | SpanError string | SpanEnd

datatype metric =
    CountRequest string string string
  | ObserveDuration string string go_time go_time

datatype 'a prog =
    Done 'a
  | RedisGet string "go_error + bytes \<Rightarrow> 'a prog"
  | RedisSet string bytes int "go_error option \<Rightarrow> 'a prog"
  | PgQueryRow select_stmt string "go_error + sql_value list \<Rightarrow> 'a prog"
  | PgExec upsert_stmt "sql_value list" "go_error option \<Rightarrow> 'a prog"
  | WriteMessages message "go_error option \<Rightarrow> 'a prog"
  | FetchMessage "go_error + message \<Rightarrow> 'a prog"
  | CommitMessages message "go_error option \<Rightarrow> 'a prog"
  | TraceInject "(bytes \<times> bytes) list \<Rightarrow> 'a prog"
  | TraceExtract "(bytes \<times> bytes) list" "'a prog"
  | SpanCall span_op "'a prog"
  | SpanRecording "bool \<Rightarrow> 'a prog"
  | SpanTraceID "string option \<Rightarrow> 'a prog"
  | Metric metric "'a prog"
  | RandRead nat "bytes \<Rightarrow> 'a prog"
  | Now "go_time \<Rightarrow> 'a prog"
  | New PlaybackSession "addr \<Rightarrow> 'a prog"
  | Load addr "PlaybackSession \<Rightarrow> 'a prog"
  | Store addr PlaybackSession "'a prog"
  | Go closure "'a prog"
  | Log level string attrs "'a prog"

primrec bind :: "'a prog \<Rightarrow> ('a \<Rightarrow> 'b prog) \<Rightarrow> 'b prog" where
  "bind (Done x) f = f x"
| "bind (RedisGet k c) f = RedisGet k (\<lambda>r. bind (c r) f)"
| "bind (RedisSet k v t c) f = RedisSet k v t (\<lambda>r. bind (c r) f)"
| "bind (PgQueryRow q k c) f = PgQueryRow q k (\<lambda>r. bind (c r) f)"
| "bind (PgExec q a c) f = PgExec q a (\<lambda>r. bind (c r) f)"
| "bind (WriteMessages m c) f = WriteMessages m (\<lambda>r. bind (c r) f)"
| "bind (FetchMessage c) f = FetchMessage (\<lambda>r. bind (c r) f)"
| "bind (CommitMessages m c) f = CommitMessages m (\<lambda>r. bind (c r) f)"
| "bind (TraceInject c) f = TraceInject (\<lambda>r. bind (c r) f)"
| "bind (TraceExtract h p) f = TraceExtract h (bind p f)"
| "bind (SpanCall op p) f = SpanCall op (bind p f)"
| "bind (SpanRecording c) f = SpanRecording (\<lambda>r. bind (c r) f)"
| "bind (SpanTraceID c) f = SpanTraceID (\<lambda>r. bind (c r) f)"
| "bind (Metric x p) f = Metric x (bind p f)"
| "bind (RandRead n c) f = RandRead n (\<lambda>r. bind (c r) f)"
| "bind (Now c) f = Now (\<lambda>r. bind (c r) f)"
| "bind (New s c) f = New s (\<lambda>r. bind (c r) f)"
| "bind (Load a c) f = Load a (\<lambda>r. bind (c r) f)"
| "bind (Store a s p) f = Store a s (bind p f)"
| "bind (Go g p) f = Go g (bind p f)"
| "bind (Log l t a p) f = Log l t a (bind p f)"

subsection \<open>Execution\<close>

record 'w env =
  redis_get :: "string \<Rightarrow> 'w \<Rightarrow> (go_error + bytes) \<times> 'w"
  redis_set :: "string \<Rightarrow> bytes \<Rightarrow> int \<Rightarrow> 'w \<Rightarrow> go_error option \<times> 'w"
  pg_query_row :: "select_stmt \<Rightarrow> string \<Rightarrow> 'w \<Rightarrow> (go_error + sql_value list) \<times> 'w"
  pg_exec :: "upsert_stmt \<Rightarrow> sql_value list \<Rightarrow> 'w \<Rightarrow> go_error option \<times> 'w"
  kafka_write :: "message \<Rightarrow> 'w \<Rightarrow> go_error option \<times> 'w"
  kafka_fetch :: "'w \<Rightarrow> (go_error + message) \<times> 'w"
  kafka_commit :: "message \<Rightarrow> 'w \<Rightarrow> go_error option \<times> 'w"
  trace_inject :: "'w \<Rightarrow> (bytes \<times> bytes) list \<times> 'w"
  span_call :: "span_op \<Rightarrow> 'w \<Rightarrow> 'w"
  span_recording :: "'w \<Rightarrow> bool \<times> 'w"
  span_trace_id :: "'w \<Rightarrow> string option \<times> 'w"
  rand_read :: "nat \<Rightarrow> 'w \<Rightarrow> bytes \<times> 'w"
  clock :: "'w \<Rightarrow> go_time \<times> 'w"

text \<open>
  The history keeps every call to a backing service with its arguments and whether it
  succeeded; nothing in the programs reads it.
\<close>

datatype event =
    Did_get string bool
  | Did_set string bytes int bool
  | Did_query string bool
  | Did_exec "sql_value list" bool
  | Did_write message bool
  | Did_fetch "message option"
  | Did_commit message bool
  | Did_extract "(bytes \<times> bytes) list"
  | Did_span span_op
  | Did_metric metric
  | Did_log level string attrs

record 'w machine =
  world :: 'w
  heap :: "addr \<Rightarrow> PlaybackSession"
  fresh :: addr
  spawned :: "closure list"
  history :: "event list"

definition ok :: "go_error option \<Rightarrow> bool" where
  "ok r \<longleftrightarrow> r = None"

definition is_ok :: "go_error + 'a \<Rightarrow> bool" where
  "is_ok r \<longleftrightarrow> (case r of Inl _ \<Rightarrow> False | Inr _ \<Rightarrow> True)"

definition received :: "go_error + 'a \<Rightarrow> 'a option" where
  "received r = (case r of Inl _ \<Rightarrow> None | Inr x \<Rightarrow> Some x)"

definition called :: "'w machine \<Rightarrow> 'w \<Rightarrow> event \<Rightarrow> 'w machine" where
  "called m w ev = m\<lparr>world := w, history := history m @ [ev]\<rparr>"

definition logged :: "level \<Rightarrow> string \<Rightarrow> attrs \<Rightarrow> 'w machine \<Rightarrow> 'w machine" where
  "logged l t a m = m\<lparr>history := history m @ [Did_log l t a]\<rparr>"

fun step :: "'w env \<Rightarrow> 'a prog \<Rightarrow> 'w machine \<Rightarrow> 'a prog \<times> 'w machine" where
  "step E (Done x) m = (Done x, m)"
| "step E (RedisGet k c) m =
    (case redis_get E k (world m) of (r, w) \<Rightarrow> (c r, called m w (Did_get k (is_ok r))))"
| "step E (RedisSet k v t c) m =
    (case redis_set E k v t (world m) of (r, w) \<Rightarrow> (c r, called m w (Did_set k v t (ok r))))"
| "step E (PgQueryRow q k c) m =
    (case pg_query_row E q k (world m) of (r, w) \<Rightarrow> (c r, called m w (Did_query k (is_ok r))))"
| "step E (PgExec q a c) m =
    (case pg_exec E q a (world m) of (r, w) \<Rightarrow> (c r, called m w (Did_exec a (ok r))))"
| "step E (WriteMessages msg c) m =
    (case kafka_write E msg (world m) of (r, w) \<Rightarrow> (c r, called m w (Did_write msg (ok r))))"
| "step E (FetchMessage c) m =
    (case kafka_fetch E (world m) of (r, w) \<Rightarrow> (c r, called m w (Did_fetch (received r))))"
| "step E (CommitMessages msg c) m =
    (case kafka_commit E msg (world m) of (r, w) \<Rightarrow> (c r, called m w (Did_commit msg (ok r))))"
| "step E (TraceInject c) m =
    (case trace_inject E (world m) of (r, w) \<Rightarrow> (c r, m\<lparr>world := w\<rparr>))"
| "step E (TraceExtract h p) m = (p, m\<lparr>history := history m @ [Did_extract h]\<rparr>)"
| "step E (SpanCall op p) m = (p, called m (span_call E op (world m)) (Did_span op))"
| "step E (SpanRecording c) m =
    (case span_recording E (world m) of (r, w) \<Rightarrow> (c r, m\<lparr>world := w\<rparr>))"
| "step E (SpanTraceID c) m =
    (case span_trace_id E (world m) of (r, w) \<Rightarrow> (c r, m\<lparr>world := w\<rparr>))"
| "step E (Metric x p) m = (p, m\<lparr>history := history m @ [Did_metric x]\<rparr>)"
| "step E (RandRead n c) m = (case rand_read E n (world m) of (r, w) \<Rightarrow> (c r, m\<lparr>world := w\<rparr>))"
| "step E (Now c) m = (case clock E (world m) of (t, w) \<Rightarrow> (c t, m\<lparr>world := w\<rparr>))"
| "step E (New s c) m = (c (fresh m), m\<lparr>heap := (heap m)(fresh m := s), fresh := Suc (fresh m)\<rparr>)"
| "step E (Load a c) m = (c (heap m a), m)"
| "step E (Store a s p) m = (p, m\<lparr>heap := (heap m)(a := s)\<rparr>)"
| "step E (Go g p) m = (p, m\<lparr>spawned := spawned m @ [g]\<rparr>)"
| "step E (Log l t a p) m = (p, logged l t a m)"

primrec run :: "'w env \<Rightarrow> 'a prog \<Rightarrow> 'w machine \<Rightarrow> 'a \<times> 'w machine" where
  "run E (Done x) m = (x, m)"
| "run E (RedisGet k c) m =
    (case redis_get E k (world m) of (r, w) \<Rightarrow> run E (c r) (called m w (Did_get k (is_ok r))))"
| "run E (RedisSet k v t c) m =
    (case redis_set E k v t (world m) of (r, w) \<Rightarrow> run E (c r) (called m w (Did_set k v t (ok r))))"
| "run E (PgQueryRow q k c) m =
    (case pg_query_row E q k (world m) of (r, w) \<Rightarrow> run E (c r) (called m w (Did_query k (is_ok r))))"
| "run E (PgExec q a c) m =
    (case pg_exec E q a (world m) of (r, w) \<Rightarrow> run E (c r) (called m w (Did_exec a (ok r))))"
| "run E (WriteMessages msg c) m =
    (case kafka_write E msg (world m) of (r, w) \<Rightarrow> run E (c r) (called m w (Did_write msg (ok r))))"
| "run E (FetchMessage c) m =
    (case kafka_fetch E (world m) of (r, w) \<Rightarrow> run E (c r) (called m w (Did_fetch (received r))))"
| "run E (CommitMessages msg c) m =
    (case kafka_commit E msg (world m) of (r, w) \<Rightarrow> run E (c r) (called m w (Did_commit msg (ok r))))"
| "run E (TraceInject c) m =
    (case trace_inject E (world m) of (r, w) \<Rightarrow> run E (c r) (m\<lparr>world := w\<rparr>))"
| "run E (TraceExtract h p) m = run E p (m\<lparr>history := history m @ [Did_extract h]\<rparr>)"
| "run E (SpanCall op p) m = run E p (called m (span_call E op (world m)) (Did_span op))"
| "run E (SpanRecording c) m =
    (case span_recording E (world m) of (r, w) \<Rightarrow> run E (c r) (m\<lparr>world := w\<rparr>))"
| "run E (SpanTraceID c) m =
    (case span_trace_id E (world m) of (r, w) \<Rightarrow> run E (c r) (m\<lparr>world := w\<rparr>))"
| "run E (Metric x p) m = run E p (m\<lparr>history := history m @ [Did_metric x]\<rparr>)"
| "run E (RandRead n c) m = (case rand_read E n (world m) of (r, w) \<Rightarrow> run E (c r) (m\<lparr>world := w\<rparr>))"
| "run E (Now c) m = (case clock E (world m) of (t, w) \<Rightarrow> run E (c t) (m\<lparr>world := w\<rparr>))"
| "run E (New s c) m = run E (c (fresh m)) (m\<lparr>heap := (heap m)(fresh m := s), fresh := Suc (fresh m)\<rparr>)"
| "run E (Load a c) m = run E (c (heap m a)) m"
| "run E (Store a s p) m = run E p (m\<lparr>heap := (heap m)(a := s)\<rparr>)"
| "run E (Go g p) m = run E p (m\<lparr>spawned := spawned m @ [g]\<rparr>)"
| "run E (Log l t a p) m = run E p (logged l t a m)"

subsection \<open>Facts\<close>

lemma called_simps [simp]:
  "world (called m w ev) = w" "heap (called m w ev) = heap m" "fresh (called m w ev) = fresh m"
  "spawned (called m w ev) = spawned m" "history (called m w ev) = history m @ [ev]"
  by (simp_all add: called_def)

lemma logged_simps [simp]:
  "world (logged l t a m) = world m" "heap (logged l t a m) = heap m" "fresh (logged l t a m) = fresh m"
  "spawned (logged l t a m) = spawned m" "history (logged l t a m) = history m @ [Did_log l t a]"
  by (simp_all add: logged_def)

lemma ok_simps [simp]: "ok None" "\<not> ok (Some e)"
  by (simp_all add: ok_def)

lemma is_ok_simps [simp]: "is_ok (Inr x)" "\<not> is_ok (Inl e)"
  by (simp_all add: is_ok_def)

lemma received_simps [simp]: "received (Inr x) = Some x" "received (Inl e) = None"
  by (simp_all add: received_def)

text \<open>Running is stepping to the end, and a sequence of programs runs in sequence.\<close>

lemma run_step: "run E p m = (case step E p m of (p', m') \<Rightarrow> run E p' m')"
  by (cases p) (simp_all split: prod.split)

lemma run_bind: "run E (bind p f) m = (case run E p m of (x, m') \<Rightarrow> run E (f x) m')"
  by (induction p arbitrary: m) (auto split: prod.split)

lemma bind_Done [simp]: "bind p Done = p"
  by (induction p) (simp_all add: fun_eq_iff)

lemma bind_assoc: "bind (bind p f) g = bind p (\<lambda>x. bind (f x) g)"
  by (induction p) (simp_all add: fun_eq_iff)

text \<open>
  The clauses that pattern match on an answer are split by hand where they are needed;
  the next rules let the simplifier run straight-line code.
\<close>

lemmas run_simps [prog_simps] = run.simps run_bind

text \<open>
  Induction along an execution: a statement about a program and a machine holds if it
  holds when the program is done and holds before a call whenever it holds after it.
\<close>

lemma prog_step_induct [case_names Done Step]:
  assumes fin: "\<And>x m. P (Done x) m"
    and step: "\<And>p m. P (fst (step E p m)) (snd (step E p m)) \<Longrightarrow> P p m"
  shows "P p m"
proof (induction p arbitrary: m)
  case (Done x)
  show ?case by (rule fin)
qed (rule step, simp add: case_prod_unfold rangeI)+

text \<open>What every call keeps, every execution keeps.\<close>

lemma run_preserves:
  assumes "\<And>m. R m m" "\<And>a b c. R a b \<Longrightarrow> R b c \<Longrightarrow> R a c"
    and "\<And>(p :: 'a prog) m. R m (snd (step E p m))"
  shows "R m (snd (run E (p :: 'a prog) m))"
proof (induction p m rule: prog_step_induct [where E = E])
  case (Done x m)
  then show ?case using assms(1) by simp
next
  case (Step p m)
  moreover have "run E p m = run E (fst (step E p m)) (snd (step E p m))"
    by (subst run_step) (simp add: case_prod_unfold)
  ultimately show ?case using assms(2,3) by metis
qed

lemma run_fresh_mono: "fresh m \<le> fresh (snd (run E p m))"
proof (rule run_preserves [where R = "\<lambda>m m'. fresh m \<le> fresh m'"])
  fix p :: "'b prog" and m :: "'a machine"
  show "fresh m \<le> fresh (snd (step E p m))"
    by (cases p) (simp_all add: case_prod_unfold)
qed auto

text \<open>Nothing that is allocated is forgotten, and the history only grows.\<close>

lemma run_history_prefix: "\<exists>evs. history (snd (run E p m)) = history m @ evs"
proof (rule run_preserves [where R = "\<lambda>m m'. \<exists>evs. history m' = history m @ evs"])
  fix p :: "'b prog" and m :: "'a machine"
  show "\<exists>evs. history (snd (step E p m)) = history m @ evs"
    by (cases p) (simp_all add: case_prod_unfold)
qed auto

end
