(* ===== verification/Repository.thy ===== *)
theory Repository
  imports Effects
begin

text \<open>
  \<^verbatim>\<open>internal/session/repository.go\<close>: sessions in PostgreSQL with Redis in front.
  Reading goes to the cache first and falls back to the database when the entry is
  missing, unreadable or Redis is down; a session read from the database is written back
  to the cache by a goroutine that shares the pointer with the caller.
\<close>

definition cacheTTL :: int where
  "cacheTTL = 24 * (3600 * 10 ^ 9)"

definition cacheKeyPrefix :: string where
  "cacheKeyPrefix = ''session:''"

subsection \<open>The statements\<close>

definition select_session :: select_stmt where
  "select_session = \<lparr>sel_columns =
      [Col_user_id, Col_track_id, Col_position, Col_status, Col_device_id, Col_updated_at],
      sel_key = Col_user_id\<rparr>"

definition upsert_session :: upsert_stmt where
  "upsert_session = \<lparr>ins_columns =
      [Col_user_id, Col_track_id, Col_position, Col_status, Col_device_id, Col_updated_at],
      ins_conflict = Col_user_id,
      ins_updates = [Col_track_id, Col_position, Col_status, Col_device_id, Col_updated_at]\<rparr>"

definition row_args :: "PlaybackSession \<Rightarrow> sql_value list" where
  "row_args s = [SqlText (UserID s), SqlText (TrackID s), SqlInt (Position s),
     SqlText (Status s), SqlText (DeviceID s), SqlTime (UpdatedAt s)]"

definition scan_session :: "sql_value list \<Rightarrow> go_error + PlaybackSession" where
  "scan_session vals =
    (case vals of
      [SqlText u, SqlText t, SqlInt p, SqlText st, SqlText d, SqlTime ts] \<Rightarrow>
        Inr \<lparr>UserID = u, TrackID = t, Position = p, Status = st, DeviceID = d, UpdatedAt = ts\<rparr>
    | _ \<Rightarrow> Inl (Opaque ''cannot scan into dest''))"

subsection \<open>The operations\<close>

definition getFromDB :: "string \<Rightarrow> (go_error + addr) prog" where
  "getFromDB userID =
    PgQueryRow select_session userID (\<lambda>r.
      case (case r of Inl err \<Rightarrow> Inl err | Inr vals \<Rightarrow> scan_session vals) of
        Inl err \<Rightarrow>
          if errors_Is err PgNoRows
          then Done (Inl (App (NewNotFound ''playback session not found'')))
          else Done (Inl (App (NewInternal ''db query failed'' err)))
      | Inr s \<Rightarrow> New s (\<lambda>p. Done (Inr p)))"

definition SetCache :: "addr \<Rightarrow> go_error option prog" where
  "SetCache p =
    Load p (\<lambda>s.
      case marshal_session s of
        Inl err \<Rightarrow> Done (Some (Errorf ''marshal session for cache'' err))
      | Inr data \<Rightarrow> Load p (\<lambda>s. RedisSet (cacheKeyPrefix @ UserID s) data cacheTTL Done))"

definition Upsert :: "addr \<Rightarrow> go_error option prog" where
  "Upsert p =
    Load p (\<lambda>s. PgExec upsert_session (row_args s) (\<lambda>r.
      case r of
        Some err \<Rightarrow> Done (Some (Errorf ''upsert playback session'' err))
      | None \<Rightarrow> Done None))"

text \<open>The part of \<^verbatim>\<open>Get\<close> behind the switch: the database, then the warming goroutine.\<close>

definition get_fallback :: "string \<Rightarrow> (go_error + addr) prog" where
  "get_fallback userID =
    bind (getFromDB userID) (\<lambda>r.
      case r of
        Inl dbErr \<Rightarrow> Done (Inl dbErr)
      | Inr s \<Rightarrow> Go (WarmCache s userID) (Done (Inr s)))"

definition Get :: "string \<Rightarrow> (go_error + addr) prog" where
  "Get userID =
    RedisGet (cacheKeyPrefix @ userID) (\<lambda>r.
      case r of
        Inr data \<Rightarrow>
          (case unmarshal_session data of
            Inr s \<Rightarrow> New s (\<lambda>p. Done (Inr p))
          | Inl _ \<Rightarrow> Log Warn ''corrupted cache entry, falling back to db''
              [(''user_id'', AText userID)] (get_fallback userID))
      | Inl err \<Rightarrow>
          if errors_Is err RedisNil then get_fallback userID
          else Log Warn ''redis unavailable, falling back to db''
            [(''user_id'', AText userID), (''error'', AErr err)] (get_fallback userID))"

text \<open>The body of the goroutine that \<open>get_fallback\<close> starts.\<close>

fun run_closure :: "closure \<Rightarrow> unit prog" where
  "run_closure (WarmCache s userID) =
    bind (SetCache s) (\<lambda>r.
      case r of
        Some cacheErr \<Rightarrow> Log Warn ''cache warm failed''
            [(''user_id'', AText userID), (''error'', AErr cacheErr)] (Done ())
      | None \<Rightarrow> Done ())"

subsection \<open>The interface of the store\<close>

text \<open>
  \<^verbatim>\<open>repoStore\<close> of \<^verbatim>\<open>service.go\<close>, and the smaller
  \<^verbatim>\<open>upsertStore\<close> of \<^verbatim>\<open>consumer.go\<close>. What their clients rely on, whatever the
  services behind answer: only application errors come out of \<^verbatim>\<open>Get\<close>, the pointer it
  returns is new, and the session structs of others are left alone; an
  \<^verbatim>\<open>Upsert\<close> executes one statement with the fields of its argument, and
  \<^verbatim>\<open>SetCache\<close> and \<^verbatim>\<open>Get\<close> change nothing durable: they neither execute a
  statement nor write a message.
\<close>

definition durable :: "event \<Rightarrow> bool" where
  "durable e \<longleftrightarrow> (case e of Did_exec _ _ \<Rightarrow> True | Did_write _ _ \<Rightarrow> True | _ \<Rightarrow> False)"

definition effects :: "event list \<Rightarrow> event list" where
  "effects evs = filter durable evs"

lemma durable_simps [simp]:
  "durable (Did_exec a b)" "durable (Did_write g b)" "\<not> durable (Did_get k b)"
  "\<not> durable (Did_set k v t b)" "\<not> durable (Did_query k b)" "\<not> durable (Did_fetch f)"
  "\<not> durable (Did_commit g b)" "\<not> durable (Did_extract c)" "\<not> durable (Did_log l x at)"
  "\<not> durable (Did_span op)" "\<not> durable (Did_metric mx)"
  by (simp_all add: durable_def)

lemma effects_simps [simp]:
  "effects [] = []" "effects (e # evs) = (if durable e then [e] else []) @ effects evs"
  "effects (xs @ ys) = effects xs @ effects ys"
  by (simp_all add: effects_def)

locale upsert_store =
  fixes E :: "'w env" and upsert :: "addr \<Rightarrow> go_error option prog"
  assumes upsert_frame: "run E (upsert p) m = (r, m') \<Longrightarrow>
      heap m' = heap m \<and> fresh m' = fresh m \<and> spawned m' = spawned m"
    and upsert_exec: "run E (upsert p) m = (r, m') \<Longrightarrow>
      history m' = history m @ [Did_exec (row_args (heap m p)) (ok r)]"

locale repo_store = upsert_store E upsert
  for E :: "'w env" and upsert :: "addr \<Rightarrow> go_error option prog" +
  fixes "get" :: "string \<Rightarrow> (go_error + addr) prog"
    and set_cache :: "addr \<Rightarrow> go_error option prog"
  assumes get_error: "run E (get u) m = (Inl e, m') \<Longrightarrow> \<exists>a. e = App a"
    and get_fresh: "run E (get u) m = (Inr p, m') \<Longrightarrow> fresh m \<le> p \<and> p < fresh m'"
    and get_frame: "run E (get u) m = (g, m') \<Longrightarrow> a < fresh m \<Longrightarrow> heap m' a = heap m a"
    and get_no_effect: "run E (get u) m = (g, m') \<Longrightarrow> effects (history m') = effects (history m)"
    and set_cache_frame: "run E (set_cache p) m = (r, m') \<Longrightarrow>
      heap m' = heap m \<and> fresh m' = fresh m \<and> spawned m' = spawned m"
    and set_cache_no_effect: "run E (set_cache p) m = (r, m') \<Longrightarrow>
      effects (history m') = effects (history m)"

subsection \<open>What the repository does, call by call\<close>

lemma run_SetCache:
  "run E (SetCache p) m =
    (case marshal_session (heap m p) of
      Inl err \<Rightarrow> (Some (Errorf ''marshal session for cache'' err), m)
    | Inr data \<Rightarrow>
      (case redis_set E (cacheKeyPrefix @ UserID (heap m p)) data cacheTTL (world m) of
        (r, w) \<Rightarrow>
          (r, called m w (Did_set (cacheKeyPrefix @ UserID (heap m p)) data cacheTTL (ok r)))))"
  by (simp add: SetCache_def split: sum.split prod.split)

lemma run_Upsert:
  "run E (Upsert p) m =
    (case pg_exec E upsert_session (row_args (heap m p)) (world m) of
      (r, w) \<Rightarrow> (map_option (Errorf ''upsert playback session'') r,
                 called m w (Did_exec (row_args (heap m p)) (ok r))))"
  by (simp add: Upsert_def split: prod.split option.split)

lemma run_getFromDB:
  "run E (getFromDB u) m =
    (case pg_query_row E select_session u (world m) of
      (r, w) \<Rightarrow>
        (let m' = called m w (Did_query u (is_ok r)) in
         case (case r of Inl e \<Rightarrow> Inl e | Inr vals \<Rightarrow> scan_session vals) of
           Inl e \<Rightarrow>
             (Inl (App (if errors_Is e PgNoRows then NewNotFound ''playback session not found''
                else NewInternal ''db query failed'' e)), m')
         | Inr s \<Rightarrow> (Inr (fresh m), m'\<lparr>heap := (heap m)(fresh m := s), fresh := Suc (fresh m)\<rparr>)))"
  by (auto simp: getFromDB_def Let_def split: prod.split sum.split)

text \<open>
  The outcome of the fallback is decided by the answer to the query alone.
\<close>

definition db_failure :: "go_error \<Rightarrow> app_error" where
  "db_failure e = (if errors_Is e PgNoRows then NewNotFound ''playback session not found''
     else NewInternal ''db query failed'' e)"

lemma get_fallback_cases:
  obtains (error) e r w where "pg_query_row E select_session u (world m) = (r, w)"
    "(case r of Inl e \<Rightarrow> Inl e | Inr vals \<Rightarrow> scan_session vals) = Inl e"
    "run E (get_fallback u) m = (Inl (App (db_failure e)), called m w (Did_query u (is_ok r)))"
  | (found) vals s w where "pg_query_row E select_session u (world m) = (Inr vals, w)"
    "scan_session vals = Inr s"
    "run E (get_fallback u) m =
      (Inr (fresh m), (called m w (Did_query u True))\<lparr>heap := (heap m)(fresh m := s),
         fresh := Suc (fresh m), spawned := spawned m @ [WarmCache (fresh m) u]\<rparr>)"
proof -
  obtain r w where q: "pg_query_row E select_session u (world m) = (r, w)" by fastforce
  show thesis
  proof (cases "case r of Inl e \<Rightarrow> Inl e | Inr vals \<Rightarrow> scan_session vals")
    case (Inl e)
    with q show thesis
      by (intro error [OF q Inl])
        (simp add: get_fallback_def run_bind run_getFromDB Let_def db_failure_def)
  next
    case (Inr s)
    then obtain vals where "r = Inr vals" "scan_session vals = Inr s" by (cases r) auto
    with q show thesis
      by (intro found [of vals w s])
        (simp_all add: get_fallback_def run_bind run_getFromDB Let_def)
  qed
qed

text \<open>
  \<^verbatim>\<open>Get\<close> either decodes the cached bytes into a new struct, or behaves as the
  fallback does after the look into the cache.
\<close>

definition after_cache_miss :: "'w env \<Rightarrow> string \<Rightarrow> 'w machine \<Rightarrow> 'w machine \<Rightarrow> bool" where
  "after_cache_miss E u m m1 \<longleftrightarrow>
    (\<exists>r w b. redis_get E (cacheKeyPrefix @ u) (world m) = (r, w) \<and>
      (m1 = called m w (Did_get (cacheKeyPrefix @ u) b) \<or>
       (\<exists>t a. m1 = logged Warn t a (called m w (Did_get (cacheKeyPrefix @ u) b)))))"

lemma after_cache_missI:
  assumes "redis_get E (cacheKeyPrefix @ u) (world m) = (r, w)"
  shows "after_cache_miss E u m (called m w (Did_get (cacheKeyPrefix @ u) b))"
    "after_cache_miss E u m (logged Warn t a (called m w (Did_get (cacheKeyPrefix @ u) b)))"
  using assms unfolding after_cache_miss_def by blast+

lemma run_Get_cases:
  obtains (hit) data s w where
    "redis_get E (cacheKeyPrefix @ u) (world m) = (Inr data, w)"
    "unmarshal_session data = Inr s"
    "run E (Get u) m = (Inr (fresh m), (called m w (Did_get (cacheKeyPrefix @ u) True))
       \<lparr>heap := (heap m)(fresh m := s), fresh := Suc (fresh m)\<rparr>)"
  | (miss) m1 where "after_cache_miss E u m m1" "run E (Get u) m = run E (get_fallback u) m1"
proof -
  obtain r w where g: "redis_get E (cacheKeyPrefix @ u) (world m) = (r, w)" by fastforce
  show thesis
  proof (cases r)
    case (Inl err)
    then show thesis
      using g by (cases "errors_Is err RedisNil")
        (simp_all add: Get_def miss [OF after_cache_missI(1) [OF g]] miss [OF after_cache_missI(2) [OF g]])
  next
    case data: (Inr data)
    show thesis
    proof (cases "unmarshal_session data")
      case (Inl err)
      with data g show thesis
        by (simp add: Get_def miss [OF after_cache_missI(2) [OF g]])
    next
      case (Inr s)
      with data g show thesis by (intro hit) (auto simp: Get_def)
    qed
  qed
qed

lemma after_cache_miss_simps:
  assumes "after_cache_miss E u m m1"
  shows "heap m1 = heap m" "fresh m1 = fresh m" "spawned m1 = spawned m"
    "effects (history m1) = effects (history m)"
  using assms by (auto simp: after_cache_miss_def)

interpretation repo: repo_store E Upsert Get SetCache for E
proof unfold_locales
  fix p m r m'
  assume "run E (Upsert p) m = (r, m')"
  then show "heap m' = heap m \<and> fresh m' = fresh m \<and> spawned m' = spawned m"
    "history m' = history m @ [Did_exec (row_args (heap m p)) (ok r)]"
    by (auto simp: run_Upsert ok_def split: prod.splits)
next
  fix u m e m'
  assume "run E (Get u) m = (Inl e, m')"
  note run = this
  show "\<exists>a. e = App a"
  proof (cases rule: run_Get_cases [of E u m])
    case hit
    with run show ?thesis by simp
  next
    case (miss m1)
    with run show ?thesis
      by (cases rule: get_fallback_cases [of E u m1]) auto
  qed
next
  fix u m p m'
  assume run: "run E (Get u) m = (Inr p, m')"
  show "fresh m \<le> p \<and> p < fresh m'"
  proof (cases rule: run_Get_cases [of E u m])
    case hit
    with run show ?thesis by auto
  next
    case (miss m1)
    with run after_cache_miss_simps(2) [OF miss(1)] show ?thesis
      by (cases rule: get_fallback_cases [of E u m1]) auto
  qed
next
  fix u m r m' a
  assume run: "run E (Get u) m = (r, m')" and a: "a < fresh m"
  show "heap m' a = heap m a"
  proof (cases rule: run_Get_cases [of E u m])
    case hit
    with run a show ?thesis by auto
  next
    case (miss m1)
    with run a after_cache_miss_simps [OF miss(1)] show ?thesis
      by (cases rule: get_fallback_cases [of E u m1]) auto
  qed
next
  fix u m r m'
  assume run: "run E (Get u) m = (r, m')"
  show "effects (history m') = effects (history m)"
  proof (cases rule: run_Get_cases [of E u m])
    case hit
    with run show ?thesis by auto
  next
    case (miss m1)
    with run after_cache_miss_simps(4) [OF miss(1)] show ?thesis
      by (cases rule: get_fallback_cases [of E u m1]) auto
  qed
next
  fix p m r m'
  assume "run E (SetCache p) m = (r, m')"
  then show "heap m' = heap m \<and> fresh m' = fresh m \<and> spawned m' = spawned m"
    "effects (history m') = effects (history m)"
    by (auto simp: run_SetCache split: sum.splits prod.splits)
qed

end
