(* ===== verification/Kafka_Event.thy ===== *)
theory Kafka_Event
  imports Effects
begin

text \<open>
  Event envelopes, \<^verbatim>\<open>internal/kafka/event.go\<close>: how an event is wrapped for the
  topic and unwrapped by the consumer. The payload stays raw JSON in between.
\<close>

record Envelope =
  env_Type :: string
  env_Version :: go_int
  env_Timestamp :: go_time
  env_Payload :: bytes

definition zero_envelope :: Envelope where
  "zero_envelope = \<lparr>env_Type = [], env_Version = 0, env_Timestamp = zero_time, env_Payload = []\<rparr>"

definition marshal_envelope :: "Envelope \<Rightarrow> go_error + bytes" where
  "marshal_envelope env =
    (case marshal_time (env_Timestamp env) of
      None \<Rightarrow> Inl (time_error (env_Timestamp env))
    | Some t \<Rightarrow>
      (case marshal_raw (env_Payload env) of
        None \<Rightarrow> Inl (Opaque ''json: error calling MarshalJSON for type json.RawMessage'')
      | Some p \<Rightarrow> Inr (write_object
          [(''type'', json_quote (env_Type env)),
           (''version'', format_int (env_Version env)),
           (''timestamp'', t),
           (''payload'', p)])))"

definition store_envelope :: "bytes \<Rightarrow> bytes \<Rightarrow> Envelope \<Rightarrow> Envelope store" where
  "store_envelope k raw env =
    (if key_is k ''type'' then
       stored (\<lambda>v. env\<lparr>env_Type := v\<rparr>) (decode_string raw (env_Type env))
     else if key_is k ''version'' then
       stored (\<lambda>v. env\<lparr>env_Version := v\<rparr>) (decode_int raw (env_Version env))
     else if key_is k ''timestamp'' then
       stored_by_method (\<lambda>v. env\<lparr>env_Timestamp := v\<rparr>) (unmarshal_time raw (env_Timestamp env))
     else if key_is k ''payload'' then Stored (env\<lparr>env_Payload := raw\<rparr>)
     else Stored env)"

text \<open>
  \<^verbatim>\<open>NewEnvelope\<close>: its argument \<open>payload\<close> is what \<^verbatim>\<open>json.Marshal\<close> makes of
  the Go value.
\<close>

definition NewEnvelope :: "string \<Rightarrow> go_int \<Rightarrow> go_error + bytes \<Rightarrow> (go_error + bytes) prog" where
  "NewEnvelope eventType version payload =
    (case payload of
      Inl e \<Rightarrow> Done (Inl (Errorf ''marshal event payload'' e))
    | Inr raw \<Rightarrow>
      Now (\<lambda>t.
        case marshal_envelope \<lparr>env_Type = eventType, env_Version = version,
              env_Timestamp = t, env_Payload = raw\<rparr> of
          Inl e \<Rightarrow> Done (Inl (Errorf ''marshal envelope'' e))
        | Inr data \<Rightarrow> Done (Inr data)))"

definition ParseEnvelope :: "bytes \<Rightarrow> go_error + Envelope" where
  "ParseEnvelope data =
    (case unmarshal_struct store_envelope zero_envelope data of
      Inl e \<Rightarrow> Inl (Errorf ''unmarshal envelope'' (Json e))
    | Inr env \<Rightarrow> Inr env)"

subsection \<open>Round trip\<close>

lemma fold_key_envelope:
  "fold_key ''type'' = ''TYPE''" "fold_key ''version'' = ''VERSION''"
  "fold_key ''timestamp'' = ''TIMESTAMP''" "fold_key ''payload'' = ''PAYLOAD''"
  by (simp_all add: byte_def char_of_eq_iff)

lemma utf8_fix_envelope:
  "utf8_fix ''type'' = ''type''" "utf8_fix ''version'' = ''version''"
  "utf8_fix ''timestamp'' = ''timestamp''" "utf8_fix ''payload'' = ''payload''"
  by (simp_all add: byte_def)

text \<open>
  A payload that is an object of compact members comes out of the envelope byte for
  byte.
\<close>

theorem ParseEnvelope_marshal:
  assumes time: "valid_time (env_Timestamp env)"
    and payload: "env_Payload env = write_object ms"
    and ms: "\<forall>(k, v) \<in> set ms. (\<forall>d. self_delimiting d v) \<and> compact_stable v"
  shows "\<exists>data. marshal_envelope env = Inr data \<and>
    ParseEnvelope data = Inr (env\<lparr>env_Type := utf8_fix (env_Type env)\<rparr>)"
proof -
  obtain t where t: "marshal_time (env_Timestamp env) = Some (json_quote t)"
    using marshal_time_quote [OF time] by blast
  have ut: "unmarshal_time (json_quote t) old = Some (env_Timestamp env)" for old
    using marshal_time_quote [OF time, of old] t by (auto simp: json_quote_def unmarshal_time_def)
  have raw: "marshal_raw (write_object ms) = Some (write_object ms)"
    using ms by (intro marshal_raw_object) auto
  let ?ems = "[(''type'', json_quote (env_Type env)), (''version'', format_int (env_Version env)),
     (''timestamp'', json_quote t), (''payload'', write_object ms)]"
  have "self_delimiting 1 (write_object ms)"
    using ms by (intro self_delimiting_object) (auto simp: max_nesting_depth_def)
  then have "\<forall>(k, v) \<in> set ?ems. self_delimiting 1 v"
    by (simp add: self_delimiting_quote format_int_def self_delimiting_dec_int)
  then have "read_doc (write_object ?ems) = Some (DObject (map (\<lambda>(k, v). (utf8_fix k, v)) ?ems))"
    by (rule read_doc_write_object)
  then have "unmarshal_struct store_envelope zero_envelope (write_object ?ems)
      = Inr (env\<lparr>env_Type := utf8_fix (env_Type env)\<rparr>)"
    by (simp add: unmarshal_struct_def utf8_fix_envelope store_envelope_def key_is_def
        fold_key_envelope stored_def stored_by_method_def ut zero_envelope_def payload
        del: fold_key.simps)
  then show ?thesis
    by (simp add: marshal_envelope_def t payload raw ParseEnvelope_def)
qed

end
