(* ===== verification/Kafka_Client.thy ===== *)
theory Kafka_Client
  imports Kafka_Event "HOL-Library.AList"
begin

text \<open>
  The Kafka wrappers, \<^verbatim>\<open>internal/kafka/producer.go\<close> and
  \<^verbatim>\<open>internal/kafka/consumer.go\<close>: how the configuration becomes the settings of the
  library's writer and reader, publishing with the trace context in the headers, and the
  consumer's endless loop. The trace context itself belongs to OpenTelemetry: injecting
  it answers with the entries of the carrier in the order the loop over the Go map
  visits them, extracting it records the carrier that was handed over.
\<close>

subsection \<open>Producer\<close>

record ProducerConfig =
  pc_Brokers :: "string list"
  pc_BatchTimeout :: int
  pc_BatchSize :: int
  pc_Async :: bool

datatype balancer = LeastBytes
datatype acks = RequireAll

text \<open>The fields of \<^verbatim>\<open>kafka.Writer\<close> that are set; the others have their zero value.\<close>

record writer_settings =
  w_Addr :: "string list"
  w_Balancer :: balancer
  w_RequiredAcks :: acks
  w_MaxAttempts :: int
  w_AllowAutoTopicCreation :: bool
  w_BatchTimeout :: int
  w_BatchSize :: int
  w_Async :: bool

definition NewProducer :: "ProducerConfig \<Rightarrow> writer_settings" where
  "NewProducer cfg =
    (let w = \<lparr>w_Addr = pc_Brokers cfg, w_Balancer = LeastBytes, w_RequiredAcks = RequireAll,
           w_MaxAttempts = 3, w_AllowAutoTopicCreation = True,
           w_BatchTimeout = 0, w_BatchSize = 0, w_Async = False\<rparr>;
         w = (if pc_BatchTimeout cfg > 0 then w\<lparr>w_BatchTimeout := pc_BatchTimeout cfg\<rparr> else w);
         w = (if pc_BatchSize cfg > 0 then w\<lparr>w_BatchSize := pc_BatchSize cfg\<rparr> else w)
     in if pc_Async cfg then w\<lparr>w_Async := True\<rparr> else w)"

definition injectTraceHeaders :: "(header list \<Rightarrow> 'a prog) \<Rightarrow> 'a prog" where
  "injectTraceHeaders k =
    TraceInject (\<lambda>carrier. k (map (\<lambda>(key, v). \<lparr>h_key = key, h_value = v\<rparr>) carrier))"

definition Publish :: "string \<Rightarrow> bytes \<Rightarrow> bytes \<Rightarrow> go_error option prog" where
  "Publish topic key value =
    injectTraceHeaders (\<lambda>headers.
      WriteMessages \<lparr>msg_topic = topic, msg_key = key, msg_value = value,
          msg_headers = headers, msg_partition = 0, msg_offset = 0\<rparr>
        (\<lambda>r. case r of
          Some err \<Rightarrow> Done (Some (Errorf (''kafka publish to '' @ topic) err))
        | None \<Rightarrow> Done None))"

subsection \<open>Consumer\<close>

record ConsumerConfig =
  cc_Brokers :: "string list"
  cc_GroupID :: string
  cc_Topic :: string
  cc_MinBytes :: int
  cc_MaxBytes :: int
  cc_MaxWait :: int

record reader_settings =
  r_Brokers :: "string list"
  r_GroupID :: string
  r_Topic :: string
  r_MinBytes :: int
  r_MaxBytes :: int
  r_MaxWait :: int

definition NewConsumer :: "ConsumerConfig \<Rightarrow> reader_settings" where
  "NewConsumer cfg =
    (let r = \<lparr>r_Brokers = cc_Brokers cfg, r_GroupID = cc_GroupID cfg, r_Topic = cc_Topic cfg,
           r_MinBytes = 1000, r_MaxBytes = 10000000, r_MaxWait = 0\<rparr>;
         r = (if cc_MinBytes cfg > 0 then r\<lparr>r_MinBytes := cc_MinBytes cfg\<rparr> else r);
         r = (if cc_MaxBytes cfg > 0 then r\<lparr>r_MaxBytes := cc_MaxBytes cfg\<rparr> else r)
     in if cc_MaxWait cfg > 0 then r\<lparr>r_MaxWait := cc_MaxWait cfg\<rparr> else r)"

text \<open>
  The carrier of \<^verbatim>\<open>extractTraceContext\<close>, a Go map, as an association list with one entry
  for a key: a later header with the same key wins.
\<close>

definition extractTraceContext :: "header list \<Rightarrow> (bytes \<times> bytes) list" where
  "extractTraceContext headers =
    foldl (\<lambda>carrier h. AList.update (h_key h) (h_value h) carrier) [] headers"

type_synonym HandlerFunc = "message \<Rightarrow> go_error option prog"

text \<open>
  One turn of the loop of \<^verbatim>\<open>Run\<close>. \<open>Some r\<close> means that \<^verbatim>\<open>Run\<close> returns \<open>r\<close>,
  \<open>None\<close> that the loop goes on.
\<close>

definition commit :: "message \<Rightarrow> go_error option option prog" where
  "commit msg =
    CommitMessages msg (\<lambda>r. case r of
        Some err \<Rightarrow> Log Error_level ''kafka commit error'' [(''error'', AErr err)] (Done None)
      | None \<Rightarrow> Done None)"

definition consume_once :: "HandlerFunc \<Rightarrow> go_error option option prog" where
  "consume_once handler =
    FetchMessage (\<lambda>r. case r of
        Inl err \<Rightarrow>
          if errors_Is err ContextCanceled
          then Log Info ''kafka consumer stopped'' [] (Done (Some None))
          else Log Error_level ''kafka fetch error'' [(''error'', AErr err)] (Done None)
      | Inr msg \<Rightarrow>
          TraceExtract (extractTraceContext (msg_headers msg))
            (bind (handler msg) (\<lambda>err. case err of
                Some err \<Rightarrow> Log Error_level ''message processing failed''
                    [(''topic'', AText (msg_topic msg)), (''partition'', ANum (int (msg_partition msg))),
                     (''offset'', ANum (int (msg_offset msg))), (''error'', AErr err)] (commit msg)
              | None \<Rightarrow> commit msg)))"

text \<open>
  The loop, for at most \<open>n\<close> turns: \<open>None\<close> when it is still running after them.
\<close>

fun Run_loop :: "nat \<Rightarrow> HandlerFunc \<Rightarrow> go_error option option prog" where
  "Run_loop 0 handler = Done None"
| "Run_loop (Suc n) handler =
    bind (consume_once handler) (\<lambda>r. case r of
        Some res \<Rightarrow> Done (Some res)
      | None \<Rightarrow> Run_loop n handler)"

definition Run :: "reader_settings \<Rightarrow> nat \<Rightarrow> HandlerFunc \<Rightarrow> go_error option option prog" where
  "Run c n handler =
    Log Info ''kafka consumer started'' [(''topic'', AText (r_Topic c)), (''group'', AText (r_GroupID c))]
      (Run_loop n handler)"

subsection \<open>Facts\<close>

text \<open>The interface \<^verbatim>\<open>eventPublisher\<close> that the service publishes through.\<close>

locale event_publisher =
  fixes E :: "'w env"
    and publish :: "string \<Rightarrow> bytes \<Rightarrow> bytes \<Rightarrow> go_error option prog"
  assumes publish_heap: "run E (publish topic key value) m = (r, m') \<Longrightarrow>
      heap m' = heap m \<and> fresh m' = fresh m \<and> spawned m' = spawned m"
    and publish_writes: "run E (publish topic key value) m = (r, m') \<Longrightarrow>
      \<exists>msg. history m' = history m @ [Did_write msg (ok r)] \<and>
        msg_topic msg = topic \<and> msg_key msg = key \<and> msg_value msg = value"

interpretation producer: event_publisher E Publish for E
  by unfold_locales
    (auto simp: Publish_def injectTraceHeaders_def ok_def split: prod.splits option.splits)

text \<open>The lines that the consumer may log.\<close>

definition started_line :: "reader_settings \<Rightarrow> 'w machine \<Rightarrow> 'w machine" where
  "started_line c = logged Info ''kafka consumer started''
     [(''topic'', AText (r_Topic c)), (''group'', AText (r_GroupID c))]"

lemma run_Run: "run E (Run c n h) m = run E (Run_loop n h) (started_line c m)"
  by (simp add: Run_def started_line_def)

lemma started_line_simps [simp]:
  "world (started_line c m) = world m" "heap (started_line c m) = heap m"
  "fresh (started_line c m) = fresh m" "spawned (started_line c m) = spawned m"
  "history (started_line c m) = history m @ [Did_log Info ''kafka consumer started''
     [(''topic'', AText (r_Topic c)), (''group'', AText (r_GroupID c))]]"
  by (simp_all add: started_line_def)

definition commit_failure :: "go_error \<Rightarrow> 'w machine \<Rightarrow> 'w machine" where
  "commit_failure err = logged Error_level ''kafka commit error'' [(''error'', AErr err)]"

definition handler_failure :: "message \<Rightarrow> go_error \<Rightarrow> 'w machine \<Rightarrow> 'w machine" where
  "handler_failure msg err = logged Error_level ''message processing failed''
     [(''topic'', AText (msg_topic msg)), (''partition'', ANum (int (msg_partition msg))),
      (''offset'', ANum (int (msg_offset msg))), (''error'', AErr err)]"

text \<open>
  A turn of the loop, spelled out: a failed fetch ends it, and a fetched message is
  handed to the handler and then committed, whatever the handler made of it.
\<close>

definition committed :: "'w env \<Rightarrow> message \<Rightarrow> 'w machine \<Rightarrow> 'w machine" where
  "committed E msg m =
    (case kafka_commit E msg (world m) of
      (r, w) \<Rightarrow>
        (let m' = called m w (Did_commit msg (ok r))
         in case r of None \<Rightarrow> m' | Some err \<Rightarrow> commit_failure err m'))"

lemma run_commit: "run E (commit msg) m = (None, committed E msg m)"
  by (auto simp: commit_def committed_def commit_failure_def Let_def split: prod.split option.split)

lemma run_consume_once_error:
  assumes "kafka_fetch E (world m) = (Inl err, w)"
  shows "run E (consume_once h) m =
    (if errors_Is err ContextCanceled
     then (Some None, logged Info ''kafka consumer stopped'' [] (called m w (Did_fetch None)))
     else (None, logged Error_level ''kafka fetch error'' [(''error'', AErr err)]
       (called m w (Did_fetch None))))"
  using assms by (simp add: consume_once_def)

lemma run_consume_once_fetched:
  assumes "kafka_fetch E (world m) = (Inr msg, w)"
    and "m1 = called m w (Did_fetch (Some msg))"
    and "run E (h msg) (m1\<lparr>history := history m1 @ [Did_extract (extractTraceContext (msg_headers msg))]\<rparr>)
      = (r, m2)"
  shows "run E (consume_once h) m =
    (None, committed E msg
      (case r of None \<Rightarrow> m2 | Some err \<Rightarrow> handler_failure msg err m2))"
  using assms
  by (auto simp: consume_once_def run_bind run_commit handler_failure_def split: option.split)

lemma failure_simps [simp]:
  "world (commit_failure e m) = world m" "heap (commit_failure e m) = heap m"
  "fresh (commit_failure e m) = fresh m" "spawned (commit_failure e m) = spawned m"
  "world (handler_failure msg e m) = world m" "heap (handler_failure msg e m) = heap m"
  "fresh (handler_failure msg e m) = fresh m" "spawned (handler_failure msg e m) = spawned m"
  "history (commit_failure e m) =
    history m @ [Did_log Error_level ''kafka commit error'' [(''error'', AErr e)]]"
  "history (handler_failure msg e m) = history m @ [Did_log Error_level ''message processing failed''
     [(''topic'', AText (msg_topic msg)), (''partition'', ANum (int (msg_partition msg))),
      (''offset'', ANum (int (msg_offset msg))), (''error'', AErr e)]]"
  by (simp_all add: commit_failure_def handler_failure_def)

lemma committed_history:
  "\<exists>b evs. history (committed E msg m) = history m @ Did_commit msg b # evs"
  by (auto simp: committed_def Let_def split: prod.split option.split)

lemma consume_once_commits:
  assumes "kafka_fetch E (world m) = (Inr msg, w)"
  shows "fst (run E (consume_once h) m) = None \<and>
    (\<exists>b. Did_commit msg b \<in> set (history (snd (run E (consume_once h) m))))"
proof -
  define m1 where "m1 = called m w (Did_fetch (Some msg))"
  obtain r m2 where "run E (h msg)
      (m1\<lparr>history := history m1 @ [Did_extract (extractTraceContext (msg_headers msg))]\<rparr>) = (r, m2)"
    by fastforce
  note turn = run_consume_once_fetched [where h = h, OF assms m1_def this]
  obtain b evs where "history (snd (run E (consume_once h) m))
      = history (case r of None \<Rightarrow> m2 | Some err \<Rightarrow> handler_failure msg err m2) @
        Did_commit msg b # evs"
    unfolding turn snd_conv using committed_history by blast
  with turn show ?thesis by auto
qed

text \<open>
  What happened to the messages: the ones fetched and the ones committed, in order. A
  handler leaves both alone.
\<close>

definition fetched_messages :: "event list \<Rightarrow> message list" where
  "fetched_messages evs =
    List.map_filter (\<lambda>e. case e of Did_fetch r \<Rightarrow> r | _ \<Rightarrow> None) evs"

definition committed_messages :: "event list \<Rightarrow> message list" where
  "committed_messages evs =
    List.map_filter (\<lambda>e. case e of Did_commit msg _ \<Rightarrow> Some msg | _ \<Rightarrow> None) evs"

lemma messages_simps [simp]:
  "fetched_messages [] = []" "committed_messages [] = []"
  "fetched_messages (e # evs) =
    (case e of Did_fetch (Some msg) \<Rightarrow> [msg] | _ \<Rightarrow> []) @ fetched_messages evs"
  "committed_messages (e # evs) =
    (case e of Did_commit msg _ \<Rightarrow> [msg] | _ \<Rightarrow> []) @ committed_messages evs"
  "fetched_messages (xs @ ys) = fetched_messages xs @ fetched_messages ys"
  "committed_messages (xs @ ys) = committed_messages xs @ committed_messages ys"
  by (simp_all add: fetched_messages_def committed_messages_def List.map_filter_def
      split: event.splits option.splits)

definition leaves_offsets :: "'w env \<Rightarrow> HandlerFunc \<Rightarrow> bool" where
  "leaves_offsets E h \<longleftrightarrow> (\<forall>msg m.
    fetched_messages (history (snd (run E (h msg) m))) = fetched_messages (history m) \<and>
    committed_messages (history (snd (run E (h msg) m))) = committed_messages (history m))"

lemma leaves_offsetsD:
  assumes "leaves_offsets E h" and "run E (h msg) m = (r, m')"
  shows "fetched_messages (history m') = fetched_messages (history m)"
    "committed_messages (history m') = committed_messages (history m)"
  using assms unfolding leaves_offsets_def by (metis snd_conv)+

lemma committed_messages_commit [simp]:
  "committed_messages (history (committed E msg m)) = committed_messages (history m) @ [msg]"
  "fetched_messages (history (committed E msg m)) = fetched_messages (history m)"
  by (auto simp: committed_def Let_def split: prod.split option.split)

lemma consume_once_offsets:
  assumes "leaves_offsets E h"
  shows "\<exists>msgs. fetched_messages (history (snd (run E (consume_once h) m))) =
      fetched_messages (history m) @ msgs \<and>
    committed_messages (history (snd (run E (consume_once h) m))) =
      committed_messages (history m) @ msgs"
proof (cases "kafka_fetch E (world m)")
  case (Pair f w)
  show ?thesis
  proof (cases f)
    case (Inl err)
    with Pair show ?thesis by (simp add: run_consume_once_error)
  next
    case (Inr msg)
    define m1 where "m1 = called m w (Did_fetch (Some msg))"
    obtain r m2 where h: "run E (h msg)
        (m1\<lparr>history := history m1 @ [Did_extract (extractTraceContext (msg_headers msg))]\<rparr>) = (r, m2)"
      by fastforce
    have "fetched_messages (history m2) = fetched_messages (history m) @ [msg]"
      "committed_messages (history m2) = committed_messages (history m)"
      using leaves_offsetsD [OF assms h] by (simp_all add: m1_def)
    then show ?thesis
      using run_consume_once_fetched [where h = h, OF Pair [unfolded Inr] m1_def h]
      by (simp split: option.split)
  qed
qed

text \<open>Everything that is fetched is committed, once and in the order of the fetches.\<close>

lemma Run_loop_offsets:
  assumes "leaves_offsets E h"
  shows "\<exists>msgs. fetched_messages (history (snd (run E (Run_loop n h) m))) =
      fetched_messages (history m) @ msgs \<and>
    committed_messages (history (snd (run E (Run_loop n h) m))) =
      committed_messages (history m) @ msgs"
proof (induction n arbitrary: m)
  case 0
  then show ?case by simp
next
  case (Suc n)
  obtain r m1 where turn: "run E (consume_once h) m = (r, m1)" by fastforce
  obtain ms where ms: "fetched_messages (history m1) = fetched_messages (history m) @ ms"
      "committed_messages (history m1) = committed_messages (history m) @ ms"
    using consume_once_offsets [OF assms, of m] turn by auto
  show ?case
  proof (cases r)
    case None
    obtain ns where "fetched_messages (history (snd (run E (Run_loop n h) m1))) =
        fetched_messages (history m1) @ ns"
      "committed_messages (history (snd (run E (Run_loop n h) m1))) =
        committed_messages (history m1) @ ns"
      using Suc.IH by blast
    with None turn ms show ?thesis by (auto simp: run_bind intro: exI [of _ "ms @ ns"])
  next
    case (Some res)
    with turn ms show ?thesis by (simp add: run_bind)
  qed
qed

text \<open>The loop returns in exactly the turn whose fetch is cancelled, and returns no error.\<close>

lemma Run_loop_result: "fst (run E (Run_loop n h) m) = Some r \<Longrightarrow> r = None"
proof (induction n arbitrary: m)
  case 0
  then show ?case by simp
next
  case (Suc n)
  obtain res m' where turn: "run E (consume_once h) m = (res, m')" by fastforce
  have res: "res = None \<or> res = Some None"
  proof (cases "kafka_fetch E (world m)")
    case (Pair f w)
    then show ?thesis
    proof (cases f)
      case (Inl err)
      with Pair turn show ?thesis
        by (auto simp: run_consume_once_error split: if_splits)
    next
      case (Inr msg)
      with Pair turn consume_once_commits [of E m msg w h] show ?thesis by simp
    qed
  qed
  with Suc turn show ?case by (auto simp: run_bind)
qed

lemma Run_loop_cancelled:
  assumes "kafka_fetch E (world m) = (Inl err, w)" "errors_Is err ContextCanceled"
  shows "fst (run E (Run_loop (Suc n) h) m) = Some None"
  using assms by (simp add: run_bind run_consume_once_error)

end
