(* ===== verification/Service.thy ===== *)
theory Service
  imports Repository Kafka_Client
begin

text \<open>
  \<^verbatim>\<open>internal/session/service.go\<close>: the business operations on a playback session, over the
  interfaces \<^verbatim>\<open>repoStore\<close> and \<^verbatim>\<open>eventPublisher\<close>. A service is the record of the
  operations it was given; \<open>NewService\<close> hands it the repository and the producer.
\<close>

definition heartbeatTopic :: string where
  "heartbeatTopic = ''playback.heartbeat''"

record Service =
  repo_Get :: "string \<Rightarrow> (go_error + addr) prog"
  repo_Upsert :: "addr \<Rightarrow> go_error option prog"
  repo_SetCache :: "addr \<Rightarrow> go_error option prog"
  producer_Publish :: "string \<Rightarrow> bytes \<Rightarrow> bytes \<Rightarrow> go_error option prog"

definition NewService :: Service where
  "NewService = \<lparr>repo_Get = Get, repo_Upsert = Upsert, repo_SetCache = SetCache,
     producer_Publish = Publish\<rparr>"

text \<open>\<^verbatim>\<open>if err := s.repo.SetCache(ctx, sess); err != nil { s.logger.Warn(text, "user_id", userID, "error", err) }\<close>,
  then \<open>k\<close>.\<close>

definition cache_or_warn :: "Service \<Rightarrow> string \<Rightarrow> addr \<Rightarrow> string \<Rightarrow> 'a prog \<Rightarrow> 'a prog" where
  "cache_or_warn S userID sess text k =
    bind (repo_SetCache S sess) (\<lambda>r. case r of
      Some err \<Rightarrow> Log Warn text [(''user_id'', AText userID), (''error'', AErr err)] k
    | None \<Rightarrow> k)"

definition Service_Start :: "Service \<Rightarrow> string \<Rightarrow> StartRequest \<Rightarrow> (go_error + addr) prog" where
  "Service_Start S userID req =
    Now (\<lambda>now.
    New \<lparr>UserID = userID, TrackID = sr_TrackID req, Position = sr_Position req,
        Status = StatusPlaying, DeviceID = sr_DeviceID req, UpdatedAt = now\<rparr> (\<lambda>sess.
    bind (repo_Upsert S sess) (\<lambda>r. case r of
      Some err \<Rightarrow> Done (Inl (App (NewInternal ''failed to start session'' err)))
    | None \<Rightarrow> cache_or_warn S userID sess ''failed to cache new session'' (Done (Inr sess)))))"

definition Service_GetCurrent :: "Service \<Rightarrow> string \<Rightarrow> (go_error + addr) prog" where
  "Service_GetCurrent S userID = repo_Get S userID"

definition Service_Heartbeat :: "Service \<Rightarrow> string \<Rightarrow> HeartbeatRequest \<Rightarrow> go_error option prog" where
  "Service_Heartbeat S userID req =
    Now (\<lambda>now.
    New \<lparr>UserID = userID, TrackID = hr_TrackID req, Position = hr_Position req,
        Status = StatusPlaying, DeviceID = hr_DeviceID req, UpdatedAt = now\<rparr> (\<lambda>sess.
    cache_or_warn S userID sess ''redis cache miss on heartbeat'' (
    Load sess (\<lambda>s.
    bind (NewEnvelope ''playback.heartbeat'' 1 (marshal_session s)) (\<lambda>r. case r of
      Inl err \<Rightarrow> Done (Some (App (NewInternal ''failed to encode heartbeat event'' err)))
    | Inr payload \<Rightarrow>
        bind (producer_Publish S heartbeatTopic userID payload) (\<lambda>r. case r of
          Some pubErr \<Rightarrow>
            Log Error_level ''kafka publish failed, writing heartbeat directly to db''
              [(''user_id'', AText userID), (''error'', AErr pubErr)]
              (bind (repo_Upsert S sess) (\<lambda>r. case r of
                Some dbErr \<Rightarrow> Done (Some (App (NewInternal ''failed to persist heartbeat'' dbErr)))
              | None \<Rightarrow> Done None))
        | None \<Rightarrow> Done None))))))"

definition Service_Pause :: "Service \<Rightarrow> string \<Rightarrow> string \<Rightarrow> (go_error + addr) prog" where
  "Service_Pause S userID deviceID =
    bind (repo_Get S userID) (\<lambda>r. case r of
      Inl err \<Rightarrow> Done (Inl err)
    | Inr sess \<Rightarrow>
        Load sess (\<lambda>s. Store sess (s\<lparr>Status := StatusPaused\<rparr>) (
        Load sess (\<lambda>s. Store sess (s\<lparr>DeviceID := deviceID\<rparr>) (
        Now (\<lambda>now. Load sess (\<lambda>s. Store sess (s\<lparr>UpdatedAt := now\<rparr>) (
        bind (repo_Upsert S sess) (\<lambda>r. case r of
          Some err \<Rightarrow> Done (Inl (App (NewInternal ''failed to pause session'' err)))
        | None \<Rightarrow> cache_or_warn S userID sess ''failed to cache paused session'' (Done (Inr sess)))))))))))"

definition Service_Resume :: "Service \<Rightarrow> string \<Rightarrow> string \<Rightarrow> (go_error + addr) prog" where
  "Service_Resume S userID deviceID =
    bind (repo_Get S userID) (\<lambda>r. case r of
      Inl err \<Rightarrow> Done (Inl err)
    | Inr sess \<Rightarrow>
        Load sess (\<lambda>s. Store sess (s\<lparr>Status := StatusPlaying\<rparr>) (
        Load sess (\<lambda>s. Store sess (s\<lparr>DeviceID := deviceID\<rparr>) (
        Now (\<lambda>now. Load sess (\<lambda>s. Store sess (s\<lparr>UpdatedAt := now\<rparr>) (
        bind (repo_Upsert S sess) (\<lambda>r. case r of
          Some err \<Rightarrow> Done (Inl (App (NewInternal ''failed to resume session'' err)))
        | None \<Rightarrow> cache_or_warn S userID sess ''failed to cache resumed session'' (Done (Inr sess)))))))))))"

subsection \<open>What the operations owe to the interfaces\<close>

text \<open>Pausing and resuming are one program up to the status and the texts.\<close>

definition set_status ::
  "Service \<Rightarrow> string \<Rightarrow> string \<Rightarrow> string \<Rightarrow> string \<Rightarrow> string \<Rightarrow> (go_error + addr) prog" where
  "set_status S status failure warning userID deviceID =
    bind (repo_Get S userID) (\<lambda>r. case r of
      Inl err \<Rightarrow> Done (Inl err)
    | Inr sess \<Rightarrow>
        Load sess (\<lambda>s. Store sess (s\<lparr>Status := status\<rparr>) (
        Load sess (\<lambda>s. Store sess (s\<lparr>DeviceID := deviceID\<rparr>) (
        Now (\<lambda>now. Load sess (\<lambda>s. Store sess (s\<lparr>UpdatedAt := now\<rparr>) (
        bind (repo_Upsert S sess) (\<lambda>r. case r of
          Some err \<Rightarrow> Done (Inl (App (NewInternal failure err)))
        | None \<Rightarrow> cache_or_warn S userID sess warning (Done (Inr sess)))))))))))"

lemma set_status_instances:
  "Service_Pause S = set_status S StatusPaused ''failed to pause session''
     ''failed to cache paused session''"
  "Service_Resume S = set_status S StatusPlaying ''failed to resume session''
     ''failed to cache resumed session''"
  by (simp_all add: fun_eq_iff Service_Pause_def Service_Resume_def set_status_def)

definition restamp :: "string \<Rightarrow> string \<Rightarrow> go_time \<Rightarrow> PlaybackSession \<Rightarrow> PlaybackSession" where
  "restamp status deviceID now s = s\<lparr>Status := status, DeviceID := deviceID, UpdatedAt := now\<rparr>"

text \<open>The session a heartbeat stands for, and the bytes that are published for it.\<close>

definition heartbeat_session :: "string \<Rightarrow> HeartbeatRequest \<Rightarrow> go_time \<Rightarrow> PlaybackSession" where
  "heartbeat_session userID req now = \<lparr>UserID = userID, TrackID = hr_TrackID req,
     Position = hr_Position req, Status = StatusPlaying, DeviceID = hr_DeviceID req,
     UpdatedAt = now\<rparr>"

definition heartbeat_event :: "go_time \<Rightarrow> PlaybackSession \<Rightarrow> go_error + bytes" where
  "heartbeat_event now s =
    (case marshal_session s of
      Inl e \<Rightarrow> Inl (Errorf ''marshal event payload'' e)
    | Inr raw \<Rightarrow>
      (case marshal_envelope \<lparr>env_Type = ''playback.heartbeat'', env_Version = 1,
          env_Timestamp = now, env_Payload = raw\<rparr> of
        Inl e \<Rightarrow> Inl (Errorf ''marshal envelope'' e)
      | Inr data \<Rightarrow> Inr data))"

text \<open>
  The second look at the clock, in \<^verbatim>\<open>NewEnvelope\<close>, happens only when there is a payload.
\<close>

lemma run_heartbeat_envelope:
  obtains t m1 where
    "run E (NewEnvelope ''playback.heartbeat'' 1 (marshal_session s)) m = (heartbeat_event t s, m1)"
    "t \<in> range (\<lambda>w. fst (clock E w))"
    "heap m1 = heap m" "fresh m1 = fresh m" "spawned m1 = spawned m" "history m1 = history m"
proof (cases "marshal_session s")
  case (Inl e)
  then show thesis
    by (intro that [of "fst (clock E (world m))" m]) (simp_all add: NewEnvelope_def heartbeat_event_def)
next
  case (Inr raw)
  obtain t w where c: "clock E (world m) = (t, w)" by fastforce
  have "t \<in> range (\<lambda>w. fst (clock E w))" using c by (intro range_eqI [of _ _ "world m"]) simp
  with Inr c show thesis
    by (intro that [of t "m\<lparr>world := w\<rparr>"])
      (simp_all add: NewEnvelope_def heartbeat_event_def split: sum.split)
qed

locale service = repo_store E "repo_Upsert S" "repo_Get S" "repo_SetCache S" +
    event_publisher E "producer_Publish S" for E :: "'w env" and S :: Service
begin

lemma run_cache_or_warn:
  obtains m1 where "run E (cache_or_warn S u p wn k) m = run E k m1"
    "heap m1 = heap m" "fresh m1 = fresh m" "spawned m1 = spawned m"
    "effects (history m1) = effects (history m)"
proof -
  obtain r m1 where "run E (repo_SetCache S p) m = (r, m1)" by fastforce
  with set_cache_frame [OF this] set_cache_no_effect [OF this] show thesis
    by (cases r) (auto simp: cache_or_warn_def run_bind intro: that [of m1]
      that [of "logged Warn wn [(''user_id'', AText u), (''error'', AErr (the r))] m1"])
qed

lemma run_cache_or_warn_Done:
  obtains m1 where "run E (cache_or_warn S u p wn (Done x)) m = (x, m1)" "heap m1 = heap m"
    "fresh m1 = fresh m" "spawned m1 = spawned m" "effects (history m1) = effects (history m)"
  by (rule run_cache_or_warn [of u p wn "Done x" m]) (auto intro: that)

lemma start_spec:
  assumes run: "run E (Service_Start S u req) m = (r, m')" and now: "clock E (world m) = (now, w)"
  defines "s \<equiv> \<lparr>UserID = u, TrackID = sr_TrackID req, Position = sr_Position req,
        Status = StatusPlaying, DeviceID = sr_DeviceID req, UpdatedAt = now\<rparr>"
  shows "heap m' = (heap m)(fresh m := s) \<and> fresh m' = Suc (fresh m) \<and> spawned m' = spawned m \<and>
    effects (history m') = effects (history m) @ [Did_exec (row_args s) (is_ok r)] \<and>
    (case r of Inr p \<Rightarrow> p = fresh m
      | Inl e \<Rightarrow> \<exists>err. e = App (NewInternal ''failed to start session'' err))"
proof -
  let ?m = "m\<lparr>world := w, heap := (heap m)(fresh m := s), fresh := Suc (fresh m)\<rparr>"
  obtain ur m1 where up: "run E (repo_Upsert S (fresh m)) ?m = (ur, m1)" by fastforce
  obtain m2 where c: "run E (cache_or_warn S u (fresh m) ''failed to cache new session''
        (Done (Inr (fresh m) :: go_error + addr))) m1 = (Inr (fresh m), m2)"
      "heap m2 = heap m1" "fresh m2 = fresh m1" "spawned m2 = spawned m1"
      "effects (history m2) = effects (history m1)"
    by (rule run_cache_or_warn_Done)
  have "run E (Service_Start S u req) m =
      (case ur of Some err \<Rightarrow> (Inl (App (NewInternal ''failed to start session'' err)), m1)
       | None \<Rightarrow> (Inr (fresh m), m2))"
    using up c(1) by (simp add: Service_Start_def run_bind now s_def split: option.split)
  with run have "(r, m') = (case ur of
      Some err \<Rightarrow> (Inl (App (NewInternal ''failed to start session'' err)), m1)
    | None \<Rightarrow> (Inr (fresh m), m2))" by simp
  then show ?thesis
    using upsert_frame [OF up] upsert_exec [OF up] c(2-) by (cases ur) auto
qed

lemma set_status_spec:
  assumes run: "run E (set_status S st fl wn u d) m = (r, m')"
    and got: "run E (repo_Get S u) m = (Inr p, m1)" and now: "clock E (world m1) = (now, w)"
  defines "s \<equiv> restamp st d now (heap m1 p)"
  shows "heap m' = (heap m1)(p := s) \<and> fresh m' = fresh m1 \<and> spawned m' = spawned m1 \<and>
    effects (history m') = effects (history m) @ [Did_exec (row_args s) (is_ok r)] \<and>
    (case r of Inr q \<Rightarrow> q = p | Inl e \<Rightarrow> \<exists>err. e = App (NewInternal fl err))"
proof -
  let ?m = "m1\<lparr>world := w, heap := (heap m1)(p := s)\<rparr>"
  obtain ur m2 where up: "run E (repo_Upsert S p) ?m = (ur, m2)" by fastforce
  obtain m3 where c: "run E (cache_or_warn S u p wn (Done (Inr p :: go_error + addr))) m2 = (Inr p, m3)"
      "heap m3 = heap m2" "fresh m3 = fresh m2" "spawned m3 = spawned m2"
      "effects (history m3) = effects (history m2)"
    by (rule run_cache_or_warn_Done)
  have "run E (set_status S st fl wn u d) m =
      (case ur of Some err \<Rightarrow> (Inl (App (NewInternal fl err)), m2) | None \<Rightarrow> (Inr p, m3))"
    using up c(1) got by (simp add: set_status_def run_bind now s_def restamp_def split: option.split)
  with run have "(r, m') =
      (case ur of Some err \<Rightarrow> (Inl (App (NewInternal fl err)), m2) | None \<Rightarrow> (Inr p, m3))"
    by simp
  then show ?thesis
    using upsert_frame [OF up] upsert_exec [OF up] c(2-) get_no_effect [OF got]
    by (cases ur) auto
qed

lemma set_status_missing:
  assumes "run E (repo_Get S u) m = (Inl e, m1)"
  shows "run E (set_status S st fl wn u d) m = (Inl e, m1) \<and> effects (history m1) = effects (history m)"
  using assms get_no_effect [OF assms] by (simp add: set_status_def run_bind)

text \<open>
  A heartbeat is published with the user as the key; the statement is executed only
  when the publication failed, and then its outcome decides.
\<close>

lemma heartbeat_spec:
  assumes run: "run E (Service_Heartbeat S u req) m = (r, m')" and now: "clock E (world m) = (now, w)"
  defines "s \<equiv> heartbeat_session u req now"
  obtains (unencoded) t e where "t \<in> range (\<lambda>w. fst (clock E w))" "heartbeat_event t s = Inl e"
      "r = Some (App (NewInternal ''failed to encode heartbeat event'' e))"
      "effects (history m') = effects (history m)"
      "heap m' = (heap m)(fresh m := s)"
  | (published) t v msg where "t \<in> range (\<lambda>w. fst (clock E w))" "heartbeat_event t s = Inr v"
      "msg_topic msg = heartbeatTopic" "msg_key msg = u" "msg_value msg = v"
      "r = None" "effects (history m') = effects (history m) @ [Did_write msg True]"
      "heap m' = (heap m)(fresh m := s)"
  | (written) t v msg where "t \<in> range (\<lambda>w. fst (clock E w))" "heartbeat_event t s = Inr v"
      "msg_topic msg = heartbeatTopic" "msg_key msg = u" "msg_value msg = v"
      "r = None \<or> (\<exists>err. r = Some (App (NewInternal ''failed to persist heartbeat'' err)))"
      "effects (history m') =
        effects (history m) @ [Did_write msg False, Did_exec (row_args s) (ok r)]"
      "heap m' = (heap m)(fresh m := s)"
proof -
  let ?m = "m\<lparr>world := w, heap := (heap m)(fresh m := s), fresh := Suc (fresh m)\<rparr>"
  let ?send = "Load (fresh m) (\<lambda>s.
    bind (NewEnvelope ''playback.heartbeat'' 1 (marshal_session s)) (\<lambda>r. case r of
      Inl err \<Rightarrow> Done (Some (App (NewInternal ''failed to encode heartbeat event'' err)))
    | Inr payload \<Rightarrow>
        bind (producer_Publish S heartbeatTopic u payload) (\<lambda>r. case r of
          Some pubErr \<Rightarrow>
            Log Error_level ''kafka publish failed, writing heartbeat directly to db''
              [(''user_id'', AText u), (''error'', AErr pubErr)]
              (bind (repo_Upsert S (fresh m)) (\<lambda>r. case r of
                Some dbErr \<Rightarrow> Done (Some (App (NewInternal ''failed to persist heartbeat'' dbErr)))
              | None \<Rightarrow> Done None))
        | None \<Rightarrow> Done None)))"
  obtain m1 where m1: "run E (Service_Heartbeat S u req) m = run E ?send m1"
    "heap m1 = heap ?m" "effects (history m1) = effects (history m)"
    by (rule run_cache_or_warn [of u "fresh m" "''redis cache miss on heartbeat''" ?send ?m])
      (simp add: Service_Heartbeat_def now s_def heartbeat_session_def)
  obtain t m2 where env: "run E (NewEnvelope ''playback.heartbeat'' 1 (marshal_session s)) m1
      = (heartbeat_event t s, m2)"
    and t: "t \<in> range (\<lambda>w. fst (clock E w))"
    and m2: "heap m2 = heap m1" "history m2 = history m1"
    by (rule run_heartbeat_envelope)
  have load: "heap m1 (fresh m) = s" using m1(2) by simp
  show thesis
  proof (cases "heartbeat_event t s")
    case (Inl e)
    then show thesis
      using unencoded [OF t Inl] run m1 m2 env load by (simp add: run_bind)
  next
    case (Inr v)
    obtain pr m3 where pub: "run E (producer_Publish S heartbeatTopic u v) m2 = (pr, m3)"
      by fastforce
    obtain msg where msg: "history m3 = history m2 @ [Did_write msg (ok pr)]"
        "msg_topic msg = heartbeatTopic" "msg_key msg = u" "msg_value msg = v"
      using publish_writes [OF pub] by blast
    note m3 = publish_heap [OF pub]
    show thesis
    proof (cases pr)
      case None
      then show thesis
        using published [OF t Inr msg(2-4)] run m1 m2 m3 msg(1) env load Inr pub
        by (simp add: run_bind)
    next
      case (Some e)
      let ?m3 = "logged Error_level ''kafka publish failed, writing heartbeat directly to db''
        [(''user_id'', AText u), (''error'', AErr e)] m3"
      obtain ur m4 where up: "run E (repo_Upsert S (fresh m)) ?m3 = (ur, m4)" by fastforce
      have "(r, m') = (map_option (\<lambda>e. App (NewInternal ''failed to persist heartbeat'' e)) ur, m4)"
        using run m1(1) env load Inr pub Some up by (cases ur) (simp_all add: run_bind)
      then show thesis
        using written [OF t Inr msg(2-4)] upsert_frame [OF up] upsert_exec [OF up] m1 m2 m3 msg(1) Some
        by (cases ur) auto
    qed
  qed
qed

text \<open>Only application errors leave the service.\<close>

lemma start_error: "run E (Service_Start S u req) m = (Inl e, m') \<Longrightarrow> \<exists>a. e = App a"
  using start_spec [of u req m "Inl e" m' "fst (clock E (world m))" "snd (clock E (world m))"] by auto

lemma set_status_error:
  assumes "run E (set_status S st fl wn u d) m = (Inl e, m')"
  shows "\<exists>a. e = App a"
proof -
  obtain g m1 where got: "run E (repo_Get S u) m = (g, m1)" by fastforce
  obtain now w where now: "clock E (world m1) = (now, w)" by fastforce
  show ?thesis
  proof (cases g)
    case (Inl e')
    with assms got set_status_missing [of u m e'] get_error [of u m e'] show ?thesis by simp
  next
    case (Inr p)
    with set_status_spec [OF assms _ now] got show ?thesis by fastforce
  qed
qed

end

interpretation svc: service E NewService for E
  by (unfold_locales; simp add: NewService_def repo.upsert_frame repo.upsert_exec repo.get_error
      repo.get_fresh repo.get_frame repo.get_no_effect repo.set_cache_frame repo.set_cache_no_effect
      producer.publish_heap producer.publish_writes)

end
