(* ===== verification/Fasthttp.thy ===== *)
theory Fasthttp
  imports Effects
begin

text \<open>
  What the handlers use of \<^verbatim>\<open>fasthttp\<close>. The library is not part of this program: its
  \<^verbatim>\<open>RequestCtx\<close> is an arbitrary type \<open>'c\<close>, and its methods are the fields of a record that
  every handler takes as an argument. \<open>fasthttp_laws\<close> says what their documentation
  promises, by a reading of a context as an \<open>exchange\<close>: the request and the response so far.
\<close>

text \<open>User values are of any type; the program stores strings and the context of a span.\<close>

datatype user_value = UString bytes | USpanContext

record 'c fasthttp =
  Header_Peek :: "'c \<Rightarrow> string \<Rightarrow> bytes"
  Header_All :: "'c \<Rightarrow> (bytes \<times> bytes) list"
  ReqHeader_Set :: "string \<Rightarrow> bytes \<Rightarrow> 'c \<Rightarrow> 'c"
  Method :: "'c \<Rightarrow> bytes"
  Path :: "'c \<Rightarrow> bytes"
  RemoteAddr :: "'c \<Rightarrow> string"
  PostBody :: "'c \<Rightarrow> bytes"
  SetStatusCode :: "int \<Rightarrow> 'c \<Rightarrow> 'c"
  StatusCode :: "'c \<Rightarrow> int"
  SetContentType :: "string \<Rightarrow> 'c \<Rightarrow> 'c"
  Write :: "bytes \<Rightarrow> 'c \<Rightarrow> 'c"
  SetBodyString :: "bytes \<Rightarrow> 'c \<Rightarrow> 'c"
  Header_Set :: "string \<Rightarrow> bytes \<Rightarrow> 'c \<Rightarrow> 'c"
  SetUserValue :: "string \<Rightarrow> user_value \<Rightarrow> 'c \<Rightarrow> 'c"
  UserValue :: "'c \<Rightarrow> string \<Rightarrow> user_value option"
  ctx_Error :: "bytes \<Rightarrow> int \<Rightarrow> 'c \<Rightarrow> 'c"

record exchange =
  ex_method :: bytes
  ex_path :: bytes
  ex_remote_addr :: string
  ex_headers :: "string \<Rightarrow> bytes"
  ex_body :: bytes
  ex_status :: int
  ex_content_type :: string
  ex_response :: bytes
  ex_response_headers :: "string \<rightharpoonup> bytes"
  ex_user_values :: "string \<rightharpoonup> user_value"

text \<open>
  Reading is reading the exchange, and a method that changes the context changes the
  exchange as documented; \<^verbatim>\<open>ctx.Error\<close> resets the response, its headers included.
\<close>

definition fasthttp_laws :: "('c \<Rightarrow> exchange) \<Rightarrow> 'c fasthttp \<Rightarrow> bool" where
  "fasthttp_laws ex F \<longleftrightarrow>
    (\<forall>c k. Header_Peek F c k = ex_headers (ex c) k) \<and>
    (\<forall>c. Method F c = ex_method (ex c)) \<and> (\<forall>c. Path F c = ex_path (ex c)) \<and>
    (\<forall>c. RemoteAddr F c = ex_remote_addr (ex c)) \<and>
    (\<forall>c. PostBody F c = ex_body (ex c)) \<and> (\<forall>c. StatusCode F c = ex_status (ex c)) \<and>
    (\<forall>c k. UserValue F c k = ex_user_values (ex c) k) \<and>
    (\<forall>k v c. ex (ReqHeader_Set F k v c) = (ex c)\<lparr>ex_headers := (ex_headers (ex c))(k := v)\<rparr>) \<and>
    (\<forall>n c. ex (SetStatusCode F n c) = (ex c)\<lparr>ex_status := n\<rparr>) \<and>
    (\<forall>t c. ex (SetContentType F t c) = (ex c)\<lparr>ex_content_type := t\<rparr>) \<and>
    (\<forall>b c. ex (Write F b c) = (ex c)\<lparr>ex_response := ex_response (ex c) @ b\<rparr>) \<and>
    (\<forall>b c. ex (SetBodyString F b c) = (ex c)\<lparr>ex_response := b\<rparr>) \<and>
    (\<forall>k v c. ex (Header_Set F k v c) =
      (ex c)\<lparr>ex_response_headers := (ex_response_headers (ex c))(k \<mapsto> v)\<rparr>) \<and>
    (\<forall>k v c. ex (SetUserValue F k v c) =
      (ex c)\<lparr>ex_user_values := (ex_user_values (ex c))(k \<mapsto> v)\<rparr>) \<and>
    (\<forall>b n c. ex (ctx_Error F b n c) =
      (ex c)\<lparr>ex_status := n, ex_content_type := ''text/plain; charset=utf-8'',
        ex_response := b, ex_response_headers := Map.empty\<rparr>)"

lemma fasthttp_simps:
  assumes "fasthttp_laws ex F"
  shows "Header_Peek F c k = ex_headers (ex c) k" "Method F c = ex_method (ex c)"
    "Path F c = ex_path (ex c)" "RemoteAddr F c = ex_remote_addr (ex c)" "PostBody F c = ex_body (ex c)" "StatusCode F c = ex_status (ex c)"
    "UserValue F c k = ex_user_values (ex c) k"
    "ex (ReqHeader_Set F k b c) = (ex c)\<lparr>ex_headers := (ex_headers (ex c))(k := b)\<rparr>"
    "ex (SetStatusCode F n c) = (ex c)\<lparr>ex_status := n\<rparr>"
    "ex (SetContentType F t c) = (ex c)\<lparr>ex_content_type := t\<rparr>"
    "ex (Write F b c) = (ex c)\<lparr>ex_response := ex_response (ex c) @ b\<rparr>"
    "ex (SetBodyString F b c) = (ex c)\<lparr>ex_response := b\<rparr>"
    "ex (Header_Set F k b c) = (ex c)\<lparr>ex_response_headers := (ex_response_headers (ex c))(k \<mapsto> b)\<rparr>"
    "ex (SetUserValue F k x c) = (ex c)\<lparr>ex_user_values := (ex_user_values (ex c))(k \<mapsto> x)\<rparr>"
    "ex (ctx_Error F b n c) =
      (ex c)\<lparr>ex_status := n, ex_content_type := ''text/plain; charset=utf-8'',
        ex_response := b, ex_response_headers := Map.empty\<rparr>"
  using assms by (simp_all add: fasthttp_laws_def)

text \<open>The exchange itself is a context that keeps the laws.\<close>

definition plain_http :: "exchange fasthttp" where
  "plain_http = \<lparr>
    Header_Peek = ex_headers, Header_All = (\<lambda>c. []),
    ReqHeader_Set = (\<lambda>k v c. c\<lparr>ex_headers := (ex_headers c)(k := v)\<rparr>), Method = ex_method,
    Path = ex_path, RemoteAddr = ex_remote_addr, PostBody = ex_body,
    SetStatusCode = (\<lambda>n c. c\<lparr>ex_status := n\<rparr>), StatusCode = ex_status,
    SetContentType = (\<lambda>t c. c\<lparr>ex_content_type := t\<rparr>),
    Write = (\<lambda>b c. c\<lparr>ex_response := ex_response c @ b\<rparr>),
    SetBodyString = (\<lambda>b c. c\<lparr>ex_response := b\<rparr>),
    Header_Set = (\<lambda>k v c. c\<lparr>ex_response_headers := (ex_response_headers c)(k \<mapsto> v)\<rparr>),
    SetUserValue = (\<lambda>k v c. c\<lparr>ex_user_values := (ex_user_values c)(k \<mapsto> v)\<rparr>),
    UserValue = ex_user_values,
    ctx_Error = (\<lambda>b n c. c\<lparr>ex_status := n, ex_content_type := ''text/plain; charset=utf-8'',
      ex_response := b, ex_response_headers := Map.empty\<rparr>)\<rparr>"

lemma plain_http_laws: "fasthttp_laws id plain_http" "fasthttp_laws (\<lambda>c. c) plain_http"
  by (simp_all add: fasthttp_laws_def plain_http_def)

text \<open>A request before any handler has seen it.\<close>

definition fresh_exchange :: "bytes \<Rightarrow> bytes \<Rightarrow> (string \<Rightarrow> bytes) \<Rightarrow> bytes \<Rightarrow> exchange" where
  "fresh_exchange verb path hdrs body = \<lparr>ex_method = verb, ex_path = path,
     ex_remote_addr = ''10.0.0.1:40000'', ex_headers = hdrs, ex_body = body, ex_status = 200, ex_content_type = ''text/plain; charset=utf-8'',
     ex_response = [], ex_response_headers = Map.empty, ex_user_values = Map.empty\<rparr>"

end
