(* ===== verification/Http_Handler.thy ===== *)
theory Http_Handler
  imports Fasthttp
begin

text \<open>
  \<^verbatim>\<open>internal/handler/handler.go\<close>: writing JSON responses, and the infrastructure endpoints
  with the readiness flag that the shutdown of the server clears. What
  \<^verbatim>\<open>json.Encoder.Encode\<close> writes is the encoded value and a newline, and nothing when the
  value cannot be encoded; the encoded value is an argument.
\<close>

definition newline :: char where
  "newline = CHR 0x0A"

definition encode_failure :: bytes where
  "encode_failure =
    ''{\"error\":{\"code\":\"INTERNAL_ERROR\",\"message\":\"failed to encode response\"}}''"

definition WriteJSON :: "'c fasthttp \<Rightarrow> int \<Rightarrow> go_error + bytes \<Rightarrow> 'c \<Rightarrow> 'c" where
  "WriteJSON F code v ctx =
    (let ctx = SetContentType F ''application/json'' ctx;
         ctx = SetStatusCode F code ctx
     in case v of
          Inr data \<Rightarrow> Write F (data @ [newline]) ctx
        | Inl err \<Rightarrow> SetBodyString F encode_failure (SetStatusCode F 500 ctx))"

definition marshal_body :: "ErrorBody \<Rightarrow> bytes" where
  "marshal_body b = write_object
     [(''code'', json_quote (body_code b)), (''message'', json_quote (body_message b))]"

definition marshal_response :: "Response \<Rightarrow> bytes" where
  "marshal_response r = write_object
     [(''error'', case resp_error r of None \<Rightarrow> ''null'' | Some b \<Rightarrow> marshal_body b)]"

definition WriteError :: "'c fasthttp \<Rightarrow> app_error \<Rightarrow> 'c \<Rightarrow> 'c" where
  "WriteError F appErr ctx =
    WriteJSON F (HTTPStatus appErr) (Inr (marshal_response (ToResponse appErr))) ctx"

subsection \<open>Infrastructure endpoints\<close>

record Infra =
  ready :: bool

definition New_Infra :: Infra where
  "New_Infra = \<lparr>ready = True\<rparr>"

definition SetReady :: "bool \<Rightarrow> Infra \<Rightarrow> Infra" where
  "SetReady r h = h\<lparr>ready := r\<rparr>"

definition Healthz :: "'c fasthttp \<Rightarrow> 'c \<Rightarrow> 'c" where
  "Healthz F ctx = WriteJSON F 200 (Inr (write_object [(''status'', json_quote ''ok'')])) ctx"

definition Readyz :: "'c fasthttp \<Rightarrow> Infra \<Rightarrow> 'c \<Rightarrow> 'c" where
  "Readyz F h ctx =
    (if \<not> ready h
     then WriteJSON F 503 (Inr (write_object [(''status'', json_quote ''not ready'')])) ctx
     else WriteJSON F 200 (Inr (write_object [(''status'', json_quote ''ready'')])) ctx)"

definition Example :: "'c fasthttp \<Rightarrow> 'c \<Rightarrow> 'c" where
  "Example F ctx =
    WriteJSON F 200 (Inr (write_object [(''message'', json_quote ''hello from service template'')])) ctx"

subsection \<open>Facts\<close>

lemma WriteJSON_exchange:
  assumes "fasthttp_laws ex F"
  shows "ex (WriteJSON F code v ctx) = (ex ctx)\<lparr>
      ex_content_type := ''application/json'',
      ex_status := (case v of Inl _ \<Rightarrow> 500 | Inr _ \<Rightarrow> code),
      ex_response := (case v of Inl _ \<Rightarrow> encode_failure
        | Inr data \<Rightarrow> ex_response (ex ctx) @ data @ [newline])\<rparr>"
  by (simp add: WriteJSON_def Let_def fasthttp_simps [OF assms] split: sum.split)

definition error_exchange :: "app_error \<Rightarrow> exchange \<Rightarrow> exchange" where
  "error_exchange a x = x\<lparr>ex_content_type := ''application/json'', ex_status := HTTPStatus a,
     ex_response := ex_response x @ marshal_response (ToResponse a) @ [newline]\<rparr>"

lemma WriteError_exchange:
  assumes "fasthttp_laws ex F"
  shows "ex (WriteError F a ctx) = error_exchange a (ex ctx)"
  by (simp add: WriteError_def WriteJSON_exchange [OF assms] error_exchange_def)

text \<open>The body of an error is an object that reads back as the code and the message.\<close>

lemma utf8_fix_members:
  "utf8_fix ''error'' = ''error''" "utf8_fix ''code'' = ''code''" "utf8_fix ''message'' = ''message''"
  by (simp_all add: byte_def)

lemma self_delimiting_body: "self_delimiting 1 (marshal_body b)"
  unfolding marshal_body_def
  by (rule self_delimiting_object) (simp_all add: self_delimiting_quote max_nesting_depth_def)

lemma read_response:
  "read_doc (marshal_response (ToResponse a)) =
    Some (DObject [(''error'', marshal_body \<lparr>body_code = Code a, body_message = Message a\<rparr>)])"
  "read_doc (marshal_body b) = Some (DObject
    [(''code'', json_quote (body_code b)), (''message'', json_quote (body_message b))])"
proof -
  have "read_doc (write_object [(''error'', marshal_body c)]) =
      Some (DObject (map (\<lambda>(k, v). (utf8_fix k, v)) [(''error'', marshal_body c)]))" for c
    by (rule read_doc_write_object) (simp add: self_delimiting_body [unfolded One_nat_def])
  then show "read_doc (marshal_response (ToResponse a)) =
      Some (DObject [(''error'', marshal_body \<lparr>body_code = Code a, body_message = Message a\<rparr>)])"
    by (simp add: marshal_response_def ToResponse_def utf8_fix_members)
  have "read_doc (write_object [(''code'', json_quote x), (''message'', json_quote y)]) =
      Some (DObject (map (\<lambda>(k, v). (utf8_fix k, v)) [(''code'', json_quote x), (''message'', json_quote y)]))"
    for x y by (rule read_doc_write_object) (simp add: self_delimiting_quote)
  then show "read_doc (marshal_body b) = Some (DObject
      [(''code'', json_quote (body_code b)), (''message'', json_quote (body_message b))])"
    by (simp add: marshal_body_def utf8_fix_members)
qed

end
