(* ===== verification/Validator.thy ===== *)
theory Validator
  imports Http_Handler
begin

text \<open>
  \<^verbatim>\<open>internal/validator/validator.go\<close>: a request body is decoded and then checked by the
  library \<^verbatim>\<open>go-playground/validator\<close> against the tags of the struct. The library is an
  argument: a function from the tagged fields of a struct with their values to its verdict.
\<close>

datatype field_value = FieldString string | FieldInt go_int

text \<open>The fields of a struct with the text of their \<^verbatim>\<open>validate\<close> tags, in their order.\<close>

type_synonym tagged_fields = "(string \<times> string \<times> field_value) list"

datatype verdict =
    Valid
  | ValidationErrors "(string \<times> string) list"
  | OtherError string

type_synonym validation = "tagged_fields \<Rightarrow> verdict"

definition StartRequest_fields :: "StartRequest \<Rightarrow> tagged_fields" where
  "StartRequest_fields r =
    [(''TrackID'', ''required'', FieldString (sr_TrackID r)),
     (''DeviceID'', ''required'', FieldString (sr_DeviceID r)),
     (''Position'', [], FieldInt (sr_Position r))]"

definition HeartbeatRequest_fields :: "HeartbeatRequest \<Rightarrow> tagged_fields" where
  "HeartbeatRequest_fields r =
    [(''TrackID'', ''required'', FieldString (hr_TrackID r)),
     (''Position'', ''min=0'', FieldInt (hr_Position r)),
     (''DeviceID'', ''required'', FieldString (hr_DeviceID r))]"

definition PauseResumeRequest_fields :: "PauseResumeRequest \<Rightarrow> tagged_fields" where
  "PauseResumeRequest_fields r = [(''DeviceID'', ''required'', FieldString (pr_DeviceID r))]"

text \<open>\<^verbatim>\<open>strings.Join\<close>.\<close>

fun join :: "string \<Rightarrow> string list \<Rightarrow> string" where
  "join sep [] = []"
| "join sep [s] = s"
| "join sep (s # t # ss) = s @ sep @ join sep (t # ss)"

definition formatValidationErrors :: "(string \<times> string) list \<Rightarrow> string" where
  "formatValidationErrors ve =
    join ''; '' (map (\<lambda>(field, tag).
      ''field '' @ [CHR 0x27] @ field @ [CHR 0x27] @ '' failed on '' @ [CHR 0x27] @ tag @
      [CHR 0x27] @ '' tag'') ve)"

text \<open>
  \<open>BindJSON\<close>, for a struct given by its decoder and its tagged fields; \<open>lt\<close> is the text of
  the library's errors.
\<close>

definition BindJSON ::
  "(sentinel + json_error \<Rightarrow> string) \<Rightarrow> validation \<Rightarrow> (bytes \<Rightarrow> json_error + 'r) \<Rightarrow>
   ('r \<Rightarrow> tagged_fields) \<Rightarrow> bytes \<Rightarrow> app_error + 'r" where
  "BindJSON lt V decode tags body =
    (if length body = 0 then Inl (NewValidation ''request body is empty'')
     else case decode body of
       Inl err \<Rightarrow> Inl (NewValidation (''invalid JSON: '' @ error_text lt (Json err)))
     | Inr dst \<Rightarrow>
       (case V (tags dst) of
         ValidationErrors ve \<Rightarrow> Inl (NewValidation (formatValidationErrors ve))
       | OtherError e \<Rightarrow> Inl (NewValidation e)
       | Valid \<Rightarrow> Inr dst))"

subsection \<open>The library\<close>

text \<open>
  What the documentation of the library says of the tags in use: \<^verbatim>\<open>required\<close> fails on the zero
  value, \<^verbatim>\<open>min=0\<close> on a negative number, a field without a tag is not looked at, and the errors
  come in the order of the fields with the name of the tag that failed.
\<close>

definition tag_failure :: "string \<Rightarrow> field_value \<Rightarrow> string option" where
  "tag_failure tag v =
    (if tag = ''required'' then
       (if v \<in> {FieldString [], FieldInt 0} then Some ''required'' else None)
     else if tag = ''min=0'' then
       (case v of FieldInt i \<Rightarrow> if sint i < 0 then Some ''min'' else None | FieldString _ \<Rightarrow> None)
     else None)"

definition documented_validation :: validation where
  "documented_validation fs =
    (case List.map_filter (\<lambda>(f, tag, v). map_option (\<lambda>t. (f, t)) (tag_failure tag v)) fs of
      [] \<Rightarrow> Valid
    | ve \<Rightarrow> ValidationErrors ve)"

definition validation_laws :: "validation \<Rightarrow> bool" where
  "validation_laws V \<longleftrightarrow>
    (\<forall>fs. (\<forall>(f, tag, v) \<in> set fs. tag \<in> {[], ''required'', ''min=0''}) \<longrightarrow>
      V fs = documented_validation fs)"

lemma fields_tags:
  "\<forall>(f, tag, v) \<in> set (StartRequest_fields a). tag \<in> {[], ''required'', ''min=0''}"
  "\<forall>(f, tag, v) \<in> set (HeartbeatRequest_fields b). tag \<in> {[], ''required'', ''min=0''}"
  "\<forall>(f, tag, v) \<in> set (PauseResumeRequest_fields c). tag \<in> {[], ''required'', ''min=0''}"
  by (simp_all add: StartRequest_fields_def HeartbeatRequest_fields_def PauseResumeRequest_fields_def)

lemma BindJSON_Inl: "BindJSON lt V decode tags body = Inl a \<Longrightarrow> \<exists>msg. a = NewValidation msg"
  by (auto simp: BindJSON_def split: if_splits sum.splits verdict.splits)

lemma BindJSON_Inr:
  "BindJSON lt V decode tags body = Inr r \<longleftrightarrow> body \<noteq> [] \<and> decode body = Inr r \<and> V (tags r) = Valid"
  by (auto simp: BindJSON_def split: if_splits sum.splits verdict.splits)

text \<open>What a request that was accepted is like.\<close>

lemma documented_validation_Valid:
  "documented_validation fs = Valid \<longleftrightarrow> (\<forall>(f, tag, v) \<in> set fs. tag_failure tag v = None)"
proof -
  have "List.map_filter (\<lambda>(f, tag, v). map_option (\<lambda>t. (f, t)) (tag_failure tag v)) fs = [] \<longleftrightarrow>
      (\<forall>(f, tag, v) \<in> set fs. tag_failure tag v = None)"
    by (induction fs) (auto simp: List.map_filter_def split: option.splits)
  moreover have "documented_validation fs = Valid \<longleftrightarrow>
      List.map_filter (\<lambda>(f, tag, v). map_option (\<lambda>t. (f, t)) (tag_failure tag v)) fs = []"
    unfolding documented_validation_def by (simp split: list.split)
  ultimately show ?thesis by (rule trans [rotated])
qed

lemma valid_requests:
  assumes "validation_laws V"
  shows "V (StartRequest_fields a) = Valid \<longleftrightarrow> sr_TrackID a \<noteq> [] \<and> sr_DeviceID a \<noteq> []"
    "V (HeartbeatRequest_fields b) = Valid \<longleftrightarrow>
      hr_TrackID b \<noteq> [] \<and> hr_DeviceID b \<noteq> [] \<and> 0 \<le> sint (hr_Position b)"
    "V (PauseResumeRequest_fields c) = Valid \<longleftrightarrow> pr_DeviceID c \<noteq> []"
proof -
  have V: "V (StartRequest_fields a) = documented_validation (StartRequest_fields a)"
    "V (HeartbeatRequest_fields b) = documented_validation (HeartbeatRequest_fields b)"
    "V (PauseResumeRequest_fields c) = documented_validation (PauseResumeRequest_fields c)"
    using assms fields_tags by (simp_all add: validation_laws_def)
  show "V (StartRequest_fields a) = Valid \<longleftrightarrow> sr_TrackID a \<noteq> [] \<and> sr_DeviceID a \<noteq> []"
    "V (HeartbeatRequest_fields b) = Valid \<longleftrightarrow>
      hr_TrackID b \<noteq> [] \<and> hr_DeviceID b \<noteq> [] \<and> 0 \<le> sint (hr_Position b)"
    "V (PauseResumeRequest_fields c) = Valid \<longleftrightarrow> pr_DeviceID c \<noteq> []"
    unfolding V documented_validation_Valid
    by (auto simp: StartRequest_fields_def HeartbeatRequest_fields_def
        PauseResumeRequest_fields_def tag_failure_def)
qed

end
