(* ===== verification/Session_Handler.thy ===== *)
theory Session_Handler
  imports Service Validator
begin

text \<open>
  \<^verbatim>\<open>internal/session/handler.go\<close>: the HTTP endpoints of the sessions. A handler takes the
  request context and is done with the context that carries the response; the service it
  calls is the record \<open>Handler\<close> of the operations of \<^verbatim>\<open>sessionService\<close>.
\<close>

record Handler =
  svc_Start :: "string \<Rightarrow> StartRequest \<Rightarrow> (go_error + addr) prog"
  svc_GetCurrent :: "string \<Rightarrow> (go_error + addr) prog"
  svc_Heartbeat :: "string \<Rightarrow> HeartbeatRequest \<Rightarrow> go_error option prog"
  svc_Pause :: "string \<Rightarrow> string \<Rightarrow> (go_error + addr) prog"
  svc_Resume :: "string \<Rightarrow> string \<Rightarrow> (go_error + addr) prog"

definition NewHandler :: "Service \<Rightarrow> Handler" where
  "NewHandler S = \<lparr>svc_Start = Service_Start S, svc_GetCurrent = Service_GetCurrent S,
     svc_Heartbeat = Service_Heartbeat S, svc_Pause = Service_Pause S,
     svc_Resume = Service_Resume S\<rparr>"

text \<open>\<^verbatim>\<open>userID\<close>: the context with the error response, or the user.\<close>

definition Handler_userID :: "'c fasthttp \<Rightarrow> 'c \<Rightarrow> 'c + string" where
  "Handler_userID F ctx =
    (let uid = Header_Peek F ctx ''X-User-ID''
     in if uid = []
        then Inl (WriteError F (NewUnauthorized ''X-User-ID header is required'') ctx)
        else Inr uid)"

definition writeServiceError :: "'c fasthttp \<Rightarrow> go_error \<Rightarrow> 'c \<Rightarrow> 'c prog" where
  "writeServiceError F err ctx =
    (case errors_As err of
      Some appErr \<Rightarrow> Done (WriteError F appErr ctx)
    | None \<Rightarrow>
        Log Error_level ''unexpected service error'' [(''error'', AErr err)]
          (Done (WriteError F (NewInternal ''unexpected error'' err) ctx)))"

text \<open>Writing the session behind a pointer, as it is when it is encoded.\<close>

definition write_session :: "'c fasthttp \<Rightarrow> int \<Rightarrow> addr \<Rightarrow> 'c \<Rightarrow> 'c prog" where
  "write_session F code sess ctx = Load sess (\<lambda>s. Done (WriteJSON F code (marshal_session s) ctx))"

definition Handler_Start ::
  "(sentinel + json_error \<Rightarrow> string) \<Rightarrow> validation \<Rightarrow> 'c fasthttp \<Rightarrow> Handler \<Rightarrow> 'c \<Rightarrow> 'c prog" where
  "Handler_Start lt V F h ctx =
    (case Handler_userID F ctx of
      Inl ctx' \<Rightarrow> Done ctx'
    | Inr userID \<Rightarrow>
      (case BindJSON lt V unmarshal_start StartRequest_fields (PostBody F ctx) of
        Inl appErr \<Rightarrow> Done (WriteError F appErr ctx)
      | Inr req \<Rightarrow>
        bind (svc_Start h userID req) (\<lambda>r. case r of
          Inl err \<Rightarrow> writeServiceError F err ctx
        | Inr sess \<Rightarrow> write_session F 201 sess ctx)))"

definition Handler_GetCurrent :: "'c fasthttp \<Rightarrow> Handler \<Rightarrow> 'c \<Rightarrow> 'c prog" where
  "Handler_GetCurrent F h ctx =
    (case Handler_userID F ctx of
      Inl ctx' \<Rightarrow> Done ctx'
    | Inr userID \<Rightarrow>
      bind (svc_GetCurrent h userID) (\<lambda>r. case r of
        Inl err \<Rightarrow> writeServiceError F err ctx
      | Inr sess \<Rightarrow> write_session F 200 sess ctx))"

definition Handler_Heartbeat ::
  "(sentinel + json_error \<Rightarrow> string) \<Rightarrow> validation \<Rightarrow> 'c fasthttp \<Rightarrow> Handler \<Rightarrow> 'c \<Rightarrow> 'c prog" where
  "Handler_Heartbeat lt V F h ctx =
    (case Handler_userID F ctx of
      Inl ctx' \<Rightarrow> Done ctx'
    | Inr userID \<Rightarrow>
      (case BindJSON lt V unmarshal_heartbeat HeartbeatRequest_fields (PostBody F ctx) of
        Inl appErr \<Rightarrow> Done (WriteError F appErr ctx)
      | Inr req \<Rightarrow>
        bind (svc_Heartbeat h userID req) (\<lambda>r. case r of
          Some err \<Rightarrow> writeServiceError F err ctx
        | None \<Rightarrow> Done (SetStatusCode F 204 ctx))))"

definition Handler_Pause ::
  "(sentinel + json_error \<Rightarrow> string) \<Rightarrow> validation \<Rightarrow> 'c fasthttp \<Rightarrow> Handler \<Rightarrow> 'c \<Rightarrow> 'c prog" where
  "Handler_Pause lt V F h ctx =
    (case Handler_userID F ctx of
      Inl ctx' \<Rightarrow> Done ctx'
    | Inr userID \<Rightarrow>
      (case BindJSON lt V unmarshal_pause_resume PauseResumeRequest_fields (PostBody F ctx) of
        Inl appErr \<Rightarrow> Done (WriteError F appErr ctx)
      | Inr req \<Rightarrow>
        bind (svc_Pause h userID (pr_DeviceID req)) (\<lambda>r. case r of
          Inl err \<Rightarrow> writeServiceError F err ctx
        | Inr sess \<Rightarrow> write_session F 200 sess ctx)))"

definition Handler_Resume ::
  "(sentinel + json_error \<Rightarrow> string) \<Rightarrow> validation \<Rightarrow> 'c fasthttp \<Rightarrow> Handler \<Rightarrow> 'c \<Rightarrow> 'c prog" where
  "Handler_Resume lt V F h ctx =
    (case Handler_userID F ctx of
      Inl ctx' \<Rightarrow> Done ctx'
    | Inr userID \<Rightarrow>
      (case BindJSON lt V unmarshal_pause_resume PauseResumeRequest_fields (PostBody F ctx) of
        Inl appErr \<Rightarrow> Done (WriteError F appErr ctx)
      | Inr req \<Rightarrow>
        bind (svc_Resume h userID (pr_DeviceID req)) (\<lambda>r. case r of
          Inl err \<Rightarrow> writeServiceError F err ctx
        | Inr sess \<Rightarrow> write_session F 200 sess ctx)))"

lemmas handler_defs = Handler_Start_def Handler_GetCurrent_def Handler_Heartbeat_def
  Handler_Pause_def Handler_Resume_def

subsection \<open>The five endpoints as one\<close>

text \<open>The endpoints by name, as the router mounts them.\<close>

datatype endpoint = EStart | EGetCurrent | EHeartbeat | EPause | EResume

fun endpoint_handler ::
  "(sentinel + json_error \<Rightarrow> string) \<Rightarrow> validation \<Rightarrow> 'c fasthttp \<Rightarrow> Handler \<Rightarrow> endpoint \<Rightarrow> 'c \<Rightarrow> 'c prog"
where
  "endpoint_handler lt V F h EStart = Handler_Start lt V F h"
| "endpoint_handler lt V F h EGetCurrent = Handler_GetCurrent F h"
| "endpoint_handler lt V F h EHeartbeat = Handler_Heartbeat lt V F h"
| "endpoint_handler lt V F h EPause = Handler_Pause lt V F h"
| "endpoint_handler lt V F h EResume = Handler_Resume lt V F h"

text \<open>Why a body is refused, if it is.\<close>

fun refusal ::
  "(sentinel + json_error \<Rightarrow> string) \<Rightarrow> validation \<Rightarrow> endpoint \<Rightarrow> bytes \<Rightarrow> app_error option" where
  "refusal lt V EStart body =
    (case BindJSON lt V unmarshal_start StartRequest_fields body of Inl a \<Rightarrow> Some a | Inr _ \<Rightarrow> None)"
| "refusal lt V EGetCurrent body = None"
| "refusal lt V EHeartbeat body =
    (case BindJSON lt V unmarshal_heartbeat HeartbeatRequest_fields body of
      Inl a \<Rightarrow> Some a | Inr _ \<Rightarrow> None)"
| "refusal lt V EPause body =
    (case BindJSON lt V unmarshal_pause_resume PauseResumeRequest_fields body of
      Inl a \<Rightarrow> Some a | Inr _ \<Rightarrow> None)"
| "refusal lt V EResume body =
    (case BindJSON lt V unmarshal_pause_resume PauseResumeRequest_fields body of
      Inl a \<Rightarrow> Some a | Inr _ \<Rightarrow> None)"

lemma Handler_userID_cases:
  assumes "fasthttp_laws ex F"
  shows "Handler_userID F ctx =
    (if ex_headers (ex ctx) ''X-User-ID'' = []
     then Inl (WriteError F (NewUnauthorized ''X-User-ID header is required'') ctx)
     else Inr (ex_headers (ex ctx) ''X-User-ID''))"
  by (simp add: Handler_userID_def Let_def fasthttp_simps [OF assms])

lemma endpoint_unauthorized:
  assumes "fasthttp_laws ex F" "ex_headers (ex ctx) ''X-User-ID'' = []"
  shows "endpoint_handler lt V F h e ctx =
    Done (WriteError F (NewUnauthorized ''X-User-ID header is required'') ctx)"
  using assms(2) by (cases e) (simp_all add: handler_defs Handler_userID_cases [OF assms(1)])

lemma endpoint_refused:
  assumes F: "fasthttp_laws ex F" and "ex_headers (ex ctx) ''X-User-ID'' \<noteq> []"
    and "refusal lt V e (ex_body (ex ctx)) = Some a"
  shows "endpoint_handler lt V F h e ctx = Done (WriteError F a ctx)"
  using assms(2,3)
  by (cases e) (auto simp: handler_defs Handler_userID_cases [OF F] fasthttp_simps [OF F] split: sum.splits)

lemma refusal_validation: "refusal lt V e body = Some a \<Longrightarrow> \<exists>msg. a = NewValidation msg"
  by (cases e) (auto dest: BindJSON_Inl split: sum.splits)

text \<open>The answers to what the service returned.\<close>

lemma run_writeServiceError:
  assumes "fasthttp_laws ex F"
  shows "ex (fst (run E (writeServiceError F (App a) ctx) m)) = error_exchange a (ex ctx)"
    "world (snd (run E (writeServiceError F (App a) ctx) m)) = world m"
    "history (snd (run E (writeServiceError F (App a) ctx) m)) = history m"
  by (simp_all add: writeServiceError_def WriteError_exchange [OF assms])

definition session_exchange :: "int \<Rightarrow> PlaybackSession \<Rightarrow> exchange \<Rightarrow> exchange" where
  "session_exchange code s x = x\<lparr>
      ex_content_type := ''application/json'',
      ex_status := (case marshal_session s of Inl _ \<Rightarrow> 500 | Inr _ \<Rightarrow> code),
      ex_response := (case marshal_session s of Inl _ \<Rightarrow> encode_failure
        | Inr data \<Rightarrow> ex_response x @ data @ [newline])\<rparr>"

lemma run_write_session:
  assumes "fasthttp_laws ex F"
  shows "ex (fst (run E (write_session F code p ctx) m)) = session_exchange code (heap m p) (ex ctx)"
    "snd (run E (write_session F code p ctx) m) = m"
  by (simp_all add: write_session_def WriteJSON_exchange [OF assms] session_exchange_def)

subsection \<open>The errors of the service\<close>

text \<open>
  What can go wrong behind an endpoint: the errors that the service returns are application
  errors with one of a few fixed texts, and the status 404 or 500.
\<close>

definition internal_texts :: "endpoint \<Rightarrow> string set" where
  "internal_texts e = (case e of
      EStart \<Rightarrow> {''failed to start session''}
    | EGetCurrent \<Rightarrow> {''db query failed''}
    | EHeartbeat \<Rightarrow> {''failed to encode heartbeat event'', ''failed to persist heartbeat''}
    | EPause \<Rightarrow> {''db query failed'', ''failed to pause session''}
    | EResume \<Rightarrow> {''db query failed'', ''failed to resume session''})"

definition can_be_missing :: "endpoint \<Rightarrow> bool" where
  "can_be_missing e \<longleftrightarrow> e \<in> {EGetCurrent, EPause, EResume}"

definition service_error :: "endpoint \<Rightarrow> app_error \<Rightarrow> bool" where
  "service_error e a \<longleftrightarrow>
    (\<exists>msg cause. msg \<in> internal_texts e \<and> a = NewInternal msg cause) \<or>
    can_be_missing e \<and> a = NewNotFound ''playback session not found''"

lemma run_Get_error:
  assumes run: "run E (Get u) m = (Inl e, m')"
  shows "\<exists>x. e = App (db_failure x)"
proof (cases rule: run_Get_cases [of E u m])
  case hit
  with run show ?thesis by simp
next
  case (miss m1)
  with run show ?thesis by (cases rule: get_fallback_cases [of E u m1]) auto
qed

lemma db_failure_service_error:
  "can_be_missing e \<Longrightarrow> ''db query failed'' \<in> internal_texts e \<Longrightarrow> service_error e (db_failure x)"
  by (auto simp: service_error_def db_failure_def)

lemma service_errors:
  "run E (Service_Start NewService u sr) m = (Inl err, m') \<Longrightarrow>
    \<exists>a. err = App a \<and> service_error EStart a"
  "run E (Service_GetCurrent NewService u) m = (Inl err, m') \<Longrightarrow>
    \<exists>a. err = App a \<and> service_error EGetCurrent a"
  "run E (Service_Heartbeat NewService u hr) m = (Some err, m') \<Longrightarrow>
    \<exists>a. err = App a \<and> service_error EHeartbeat a"
  "run E (Service_Pause NewService u d) m = (Inl err, m') \<Longrightarrow>
    \<exists>a. err = App a \<and> service_error EPause a"
  "run E (Service_Resume NewService u d) m = (Inl err, m') \<Longrightarrow>
    \<exists>a. err = App a \<and> service_error EResume a"
proof -
  have change: "\<exists>a. err = App a \<and> service_error e a"
    if run: "run E (set_status NewService st fl wn u d) m = (Inl err, m')"
      and e: "fl \<in> internal_texts e" "''db query failed'' \<in> internal_texts e" "can_be_missing e"
    for st fl wn e
  proof -
    obtain g m1 where got: "run E (repo_Get NewService u) m = (g, m1)" by fastforce
    obtain now w where now: "clock E (world m1) = (now, w)" by fastforce
    show ?thesis
    proof (cases g)
      case (Inl x)
      with svc.set_status_missing [of E u m x m1] got run have "x = err" by simp
      with Inl got run_Get_error [of E u m err m1] db_failure_service_error [OF e(3,2)]
      show ?thesis by (auto simp: NewService_def)
    next
      case (Inr p)
      with svc.set_status_spec [OF run _ now, of p] got e(1) show ?thesis
        by (auto simp: service_error_def)
    qed
  qed
  show "\<exists>a. err = App a \<and> service_error EStart a"
    if "run E (Service_Start NewService u sr) m = (Inl err, m')"
  proof -
    obtain now w where "clock E (world m) = (now, w)" by fastforce
    from svc.start_spec [OF that this] show ?thesis
      by (auto simp: service_error_def internal_texts_def)
  qed
  show "\<exists>a. err = App a \<and> service_error EGetCurrent a"
    if "run E (Service_GetCurrent NewService u) m = (Inl err, m')"
    using that run_Get_error [of E u m err m'] db_failure_service_error [of EGetCurrent]
    by (auto simp: Service_GetCurrent_def NewService_def can_be_missing_def internal_texts_def)
  show "\<exists>a. err = App a \<and> service_error EHeartbeat a"
    if run: "run E (Service_Heartbeat NewService u hr) m = (Some err, m')"
  proof -
    obtain now w where now: "clock E (world m) = (now, w)" by fastforce
    show ?thesis
      by (cases rule: svc.heartbeat_spec [OF run now])
        (auto simp: service_error_def internal_texts_def)
  qed
  show "\<exists>a. err = App a \<and> service_error EPause a"
    if "run E (Service_Pause NewService u d) m = (Inl err, m')"
    using that [unfolded set_status_instances]
    by (rule change) (simp_all add: internal_texts_def can_be_missing_def)
  show "\<exists>a. err = App a \<and> service_error EResume a"
    if "run E (Service_Resume NewService u d) m = (Inl err, m')"
    using that [unfolded set_status_instances]
    by (rule change) (simp_all add: internal_texts_def can_be_missing_def)
qed

subsection \<open>What an accepted request is answered with\<close>

text \<open>
  Behind the checks an endpoint answers with the session that the service returned, with
  an empty success, or with the error of the service.
\<close>

definition success_code :: "endpoint \<Rightarrow> int" where
  "success_code e = (case e of EStart \<Rightarrow> 201 | EHeartbeat \<Rightarrow> 204 | _ \<Rightarrow> 200)"

definition answer_session :: "'c fasthttp \<Rightarrow> endpoint \<Rightarrow> 'c \<Rightarrow> go_error + addr \<Rightarrow> 'c prog" where
  "answer_session F e ctx r = (case r of
      Inl err \<Rightarrow> writeServiceError F err ctx
    | Inr sess \<Rightarrow> write_session F (success_code e) sess ctx)"

text \<open>Four of the endpoints make one call of the service and answer with its session.\<close>

lemma accepted_session_call:
  assumes F: "fasthttp_laws ex F" and uid: "ex_headers (ex ctx) ''X-User-ID'' \<noteq> []"
    and accepted: "refusal lt V e (ex_body (ex ctx)) = None" and e: "e \<noteq> EHeartbeat"
  shows "\<exists>call. endpoint_handler lt V F (NewHandler NewService) e ctx =
      bind call (answer_session F e ctx) \<and>
    (\<forall>m err m1. run E call m = (Inl err, m1) \<longrightarrow> (\<exists>a. err = App a \<and> service_error e a))"
proof -
  note defs = Handler_userID_cases [OF F] fasthttp_simps [OF F] NewHandler_def success_code_def
    answer_session_def [abs_def]
  let ?u = "ex_headers (ex ctx) ''X-User-ID''"
  show ?thesis
  proof (cases e)
    case EStart
    with accepted uid show ?thesis
      by (auto simp: Handler_Start_def defs split: sum.splits
          intro!: exI [of _ "Service_Start NewService ?u req" for req] dest: service_errors)
  next
    case EGetCurrent
    with uid show ?thesis
      by (auto simp: Handler_GetCurrent_def defs
          intro!: exI [of _ "Service_GetCurrent NewService ?u"] dest: service_errors)
  next
    case EPause
    with accepted uid show ?thesis
      by (auto simp: Handler_Pause_def defs split: sum.splits
          intro!: exI [of _ "Service_Pause NewService ?u d" for d] dest: service_errors)
  next
    case EResume
    with accepted uid show ?thesis
      by (auto simp: Handler_Resume_def defs split: sum.splits
          intro!: exI [of _ "Service_Resume NewService ?u d" for d] dest: service_errors)
  qed (use e in simp)
qed

lemma accepted_heartbeat_call:
  assumes F: "fasthttp_laws ex F" and uid: "ex_headers (ex ctx) ''X-User-ID'' \<noteq> []"
    and accepted: "BindJSON lt V unmarshal_heartbeat HeartbeatRequest_fields (ex_body (ex ctx)) = Inr req"
  shows "Handler_Heartbeat lt V F (NewHandler NewService) ctx =
    bind (Service_Heartbeat NewService (ex_headers (ex ctx) ''X-User-ID'') req)
      (\<lambda>r. case r of
          Some err \<Rightarrow> writeServiceError F err ctx
        | None \<Rightarrow> Done (SetStatusCode F 204 ctx))"
  using uid accepted
  by (simp add: Handler_Heartbeat_def Handler_userID_cases [OF F] fasthttp_simps [OF F] NewHandler_def)

lemma endpoint_accepted:
  assumes F: "fasthttp_laws ex F" and uid: "ex_headers (ex ctx) ''X-User-ID'' \<noteq> []"
    and accepted: "refusal lt V e (ex_body (ex ctx)) = None"
    and run: "run E (endpoint_handler lt V F (NewHandler NewService) e ctx) m = (ctx', m')"
  obtains (failed) a where "service_error e a" "ex ctx' = error_exchange a (ex ctx)"
  | (session) p where "e \<noteq> EHeartbeat"
      "ex ctx' = session_exchange (success_code e) (heap m' p) (ex ctx)"
  | (empty) "e = EHeartbeat" "ex ctx' = (ex ctx)\<lparr>ex_status := 204\<rparr>"
proof (cases "e = EHeartbeat")
  case False
  obtain call where h: "endpoint_handler lt V F (NewHandler NewService) e ctx =
      bind call (answer_session F e ctx)"
    and err: "\<And>m err m1. run E call m = (Inl err, m1) \<Longrightarrow> \<exists>a. err = App a \<and> service_error e a"
    using accepted_session_call [OF F uid accepted False, of E] by blast
  obtain r m1 where call: "run E call m = (r, m1)" by fastforce
  show thesis
  proof (cases r)
    case (Inl x)
    with err call obtain a where a: "x = App a" "service_error e a" by blast
    with run h call Inl show thesis
      using run_writeServiceError(1) [OF F, of E a ctx m1]
      by (intro failed [OF a(2)]) (simp add: run_bind answer_session_def)
  next
    case (Inr p)
    with run h call run_write_session [OF F, of E "success_code e" p ctx m1] show thesis
      by (intro session [OF False, of p]) (auto simp: run_bind answer_session_def)
  qed
next
  case True
  then obtain req where
    req: "BindJSON lt V unmarshal_heartbeat HeartbeatRequest_fields (ex_body (ex ctx)) = Inr req"
    using accepted by (auto split: sum.splits)
  obtain r m1 where call: "run E (Service_Heartbeat NewService (ex_headers (ex ctx) ''X-User-ID'') req) m
      = (r, m1)" by fastforce
  show thesis
  proof (cases r)
    case None
    with True run call accepted_heartbeat_call [OF F uid req] show thesis
      by (intro empty) (auto simp: run_bind fasthttp_simps [OF F])
  next
    case (Some x)
    with service_errors(3) call obtain a where a: "x = App a" "service_error EHeartbeat a" by blast
    with True run call Some accepted_heartbeat_call [OF F uid req]
      run_writeServiceError(1) [OF F, of E a ctx m1] show thesis
      by (intro failed [of a]) (auto simp: run_bind)
  qed
qed

text \<open>Every way a request can end.\<close>

lemma endpoint_outcomes:
  assumes F: "fasthttp_laws ex F"
    and run: "run E (endpoint_handler lt V F (NewHandler NewService) e ctx) m = (ctx', m')"
  obtains
    (unauthorized) "ex_headers (ex ctx) ''X-User-ID'' = []" "m' = m"
      "ex ctx' = error_exchange (NewUnauthorized ''X-User-ID header is required'') (ex ctx)"
  | (refused) msg where "ex_headers (ex ctx) ''X-User-ID'' \<noteq> []" "m' = m" "e \<noteq> EGetCurrent"
      "refusal lt V e (ex_body (ex ctx)) = Some (NewValidation msg)"
      "ex ctx' = error_exchange (NewValidation msg) (ex ctx)"
  | (failed) a where "ex_headers (ex ctx) ''X-User-ID'' \<noteq> []"
      "refusal lt V e (ex_body (ex ctx)) = None" "service_error e a"
      "ex ctx' = error_exchange a (ex ctx)"
  | (session) p where "ex_headers (ex ctx) ''X-User-ID'' \<noteq> []"
      "refusal lt V e (ex_body (ex ctx)) = None" "e \<noteq> EHeartbeat"
      "ex ctx' = session_exchange (success_code e) (heap m' p) (ex ctx)"
  | (empty) "ex_headers (ex ctx) ''X-User-ID'' \<noteq> []" "refusal lt V e (ex_body (ex ctx)) = None"
      "e = EHeartbeat" "ex ctx' = (ex ctx)\<lparr>ex_status := 204\<rparr>"
proof (cases "ex_headers (ex ctx) ''X-User-ID'' = []")
  case True
  with run endpoint_unauthorized [OF F True, of lt V "NewHandler NewService" e] show thesis
    by (intro unauthorized) (auto simp: WriteError_exchange [OF F])
next
  case uid: False
  show thesis
  proof (cases "refusal lt V e (ex_body (ex ctx))")
    case None
    from endpoint_accepted [OF F uid None run] show thesis
      by cases (auto intro: failed [OF uid None] session [OF uid None] empty [OF uid None])
  next
    case (Some a)
    then obtain msg where a: "a = NewValidation msg" using refusal_validation by blast
    have "e \<noteq> EGetCurrent" using Some by auto
    with run endpoint_refused [OF F uid Some] Some show thesis
      by (intro refused [OF uid, of msg]) (auto simp: WriteError_exchange [OF F] a)
  qed
qed

text \<open>The statuses that the comments above the handlers document.\<close>

definition documented_statuses :: "endpoint \<Rightarrow> int set" where
  "documented_statuses e = (case e of
      EStart \<Rightarrow> {201, 400, 401, 500}
    | EGetCurrent \<Rightarrow> {200, 401, 404, 500}
    | EHeartbeat \<Rightarrow> {204, 400, 401, 500}
    | EPause \<Rightarrow> {200, 400, 401, 404, 500}
    | EResume \<Rightarrow> {200, 400, 401, 404, 500})"

lemma endpoint_frame:
  assumes F: "fasthttp_laws ex F"
    and run: "run E (endpoint_handler lt V F (NewHandler NewService) e ctx) m = (ctx', m')"
  shows "ex_status (ex ctx') \<in> documented_statuses e"
    "ex_response_headers (ex ctx') = ex_response_headers (ex ctx)"
    "ex_user_values (ex ctx') = ex_user_values (ex ctx)" "ex_method (ex ctx') = ex_method (ex ctx)"
    "ex_path (ex ctx') = ex_path (ex ctx)" "ex_remote_addr (ex ctx') = ex_remote_addr (ex ctx)"
  by (rule endpoint_outcomes [OF F run]; cases e;
      auto simp: service_error_def can_be_missing_def error_exchange_def session_exchange_def
        documented_statuses_def success_code_def split: sum.split)+

end
