(* ===== verification/Middleware.thy ===== *)
theory Middleware
  imports Http_Handler
begin

text \<open>
  \<^verbatim>\<open>internal/middleware/middleware.go\<close>. A request handler may panic: it is done with the value
  it panicked with, if it did, and the context as it was left. Code after \<^verbatim>\<open>next(ctx)\<close> is
  skipped by a panic, deferred code is not.
\<close>

type_synonym 'c request_handler = "'c \<Rightarrow> (bytes option \<times> 'c) prog"
type_synonym 'c middleware = "'c request_handler \<Rightarrow> 'c request_handler"

text \<open>A handler that cannot panic.\<close>

definition quiet :: "('c \<Rightarrow> 'c prog) \<Rightarrow> 'c request_handler" where
  "quiet h ctx = bind (h ctx) (\<lambda>ctx. Done (None, ctx))"

text \<open>\<^verbatim>\<open>for i := len(mws) - 1; i >= 0; i-- { next = mws[i](next) }\<close>\<close>

fun chain_loop :: "'c middleware list \<Rightarrow> nat \<Rightarrow> 'c middleware" where
  "chain_loop mws 0 next = next"
| "chain_loop mws (Suc i) next = chain_loop mws i ((mws ! i) next)"

definition Chain :: "'c middleware list \<Rightarrow> 'c middleware" where
  "Chain mws next = chain_loop mws (length mws) next"

subsection \<open>Request identifiers\<close>

definition RequestIDHeader :: string where
  "RequestIDHeader = ''X-Request-Id''"

definition hex_digit :: "nat \<Rightarrow> char" where
  "hex_digit n = (if n < 10 then char_of (48 + n) else char_of (87 + n))"

definition hex :: "bytes \<Rightarrow> string" where
  "hex b = concat (map (\<lambda>c. [hex_digit (byte c div 16), hex_digit (byte c mod 16)]) b)"

definition generateID :: "(string \<Rightarrow> 'a prog) \<Rightarrow> 'a prog" where
  "generateID k = RandRead 16 (\<lambda>b. k (hex b))"

definition RequestID :: "'c fasthttp \<Rightarrow> 'c middleware" where
  "RequestID F next ctx =
    (let continue = (\<lambda>id. next (SetUserValue F ''request_id'' (UString id)
           (Header_Set F RequestIDHeader id ctx)));
         id = Header_Peek F ctx RequestIDHeader
     in if id = [] then generateID continue else continue id)"

definition GetRequestID :: "'c fasthttp \<Rightarrow> 'c \<Rightarrow> string" where
  "GetRequestID F ctx =
    (case UserValue F ctx ''request_id'' of Some (UString v) \<Rightarrow> v | _ \<Rightarrow> [])"

subsection \<open>Tracing\<close>

definition otelCtxKey :: string where
  "otelCtxKey = ''otel_ctx''"

definition carrier_Get :: "'c fasthttp \<Rightarrow> 'c \<Rightarrow> string \<Rightarrow> bytes" where
  "carrier_Get F ctx key = Header_Peek F ctx key"

definition carrier_Keys :: "'c fasthttp \<Rightarrow> 'c \<Rightarrow> string list" where
  "carrier_Keys F ctx = map fst (Header_All F ctx)"

definition carrier_Set :: "'c fasthttp \<Rightarrow> string \<Rightarrow> bytes \<Rightarrow> 'c \<Rightarrow> 'c" where
  "carrier_Set F key value ctx = ReqHeader_Set F key value ctx"

text \<open>The carrier is a map: what was set under a key is read back, the others stay.\<close>

lemma carrier_Get_Set:
  assumes "fasthttp_laws ex F"
  shows "carrier_Get F (carrier_Set F k v ctx) k' = (if k' = k then v else carrier_Get F ctx k')"
  by (simp add: carrier_Get_def carrier_Set_def fasthttp_simps [OF assms])

definition Tracing :: "'c fasthttp \<Rightarrow> 'c middleware" where
  "Tracing F next ctx =
    TraceExtract (map (\<lambda>k. (k, carrier_Get F ctx k)) (carrier_Keys F ctx)) (
    SpanCall (SpanStart (Method F ctx @ '' '' @ Path F ctx)
        [(''http.request.method'', AText (Method F ctx)), (''url.path'', AText (Path F ctx)),
         (''net.peer.ip'', AText (RemoteAddr F ctx))]) (
    bind (next (SetUserValue F otelCtxKey USpanContext ctx)) (\<lambda>(panic, ctx).
      case panic of
        Some rec \<Rightarrow> SpanCall SpanEnd (Done (Some rec, ctx))
      | None \<Rightarrow>
          SpanCall (SpanStatusCode (StatusCode F ctx)) (
          if StatusCode F ctx \<ge> 500
          then SpanCall (SpanError (''HTTP '' @ dec_int (StatusCode F ctx)))
                 (SpanCall SpanEnd (Done (None, ctx)))
          else SpanCall SpanEnd (Done (None, ctx))))))"

text \<open>Whether there is a span in the context at all; the background context has none.\<close>

definition SpanContext :: "'c fasthttp \<Rightarrow> 'c \<Rightarrow> user_value option" where
  "SpanContext F ctx =
    (case UserValue F ctx otelCtxKey of Some USpanContext \<Rightarrow> Some USpanContext | _ \<Rightarrow> None)"

subsection \<open>Logging, panics and metrics\<close>

text \<open>The attributes of the access log; a request without a trace has no \<open>trace_id\<close>.\<close>

definition request_attrs :: "'c fasthttp \<Rightarrow> go_time \<Rightarrow> go_time \<Rightarrow> 'c \<Rightarrow> attrs" where
  "request_attrs F start end ctx =
    [(''method'', AText (Method F ctx)), (''path'', AText (Path F ctx)),
     (''status'', ANum (StatusCode F ctx)), (''duration_ms'', AMillis start end),
     (''request_id'', AText (GetRequestID F ctx)), (''remote_addr'', AText (RemoteAddr F ctx))]"

definition trace_attrs :: "string option \<Rightarrow> attrs" where
  "trace_attrs tid = (case tid of None \<Rightarrow> [] | Some t \<Rightarrow> [(''trace_id'', AText t)])"

definition Logger :: "'c fasthttp \<Rightarrow> 'c middleware" where
  "Logger F next ctx =
    Now (\<lambda>start.
    bind (next ctx) (\<lambda>(panic, ctx).
      case panic of
        Some rec \<Rightarrow> Done (Some rec, ctx)
      | None \<Rightarrow>
          Now (\<lambda>end.
          let attrs = request_attrs F start end ctx
          in case SpanContext F ctx of
               None \<Rightarrow> Log Info ''request completed'' attrs (Done (None, ctx))
             | Some _ \<Rightarrow>
                 SpanTraceID (\<lambda>tid.
                   Log Info ''request completed'' (attrs @ trace_attrs tid) (Done (None, ctx))))))"

definition Recoverer :: "'c fasthttp \<Rightarrow> 'c middleware" where
  "Recoverer F next ctx =
    bind (next ctx) (\<lambda>(panic, ctx).
      case panic of
        None \<Rightarrow> Done (None, ctx)
      | Some rec \<Rightarrow>
          Log Error_level ''panic recovered''
            [(''error'', AText rec), (''stack'', AStack), (''path'', AText (Path F ctx)),
             (''request_id'', AText (GetRequestID F ctx))] (
          let answer = Done (None, ctx_Error F ''Internal Server Error'' 500 ctx)
          in case SpanContext F ctx of
               None \<Rightarrow> answer
             | Some _ \<Rightarrow>
                 SpanRecording (\<lambda>recording.
                   if recording then SpanCall (SpanError (''panic: '' @ rec)) answer else answer)))"

text \<open>
  The vectors of \<^verbatim>\<open>promauto\<close>. Counting with other than one value for each label would
  panic.
\<close>

datatype buckets = NoBuckets | DefBuckets

record metric_vec =
  mv_Name :: string
  mv_Help :: string
  mv_Buckets :: buckets
  mv_Labels :: "string list"

definition httpRequestsTotal :: metric_vec where
  "httpRequestsTotal = \<lparr>mv_Name = ''http_requests_total'',
     mv_Help = ''Total number of HTTP requests by method, path, and status.'',
     mv_Buckets = NoBuckets, mv_Labels = [''method'', ''path'', ''status'']\<rparr>"

definition httpRequestDuration :: metric_vec where
  "httpRequestDuration = \<lparr>mv_Name = ''http_request_duration_seconds'',
     mv_Help = ''Histogram of HTTP request duration in seconds.'',
     mv_Buckets = DefBuckets, mv_Labels = [''method'', ''path'']\<rparr>"

definition RoutePatternKey :: string where
  "RoutePatternKey = ''route_pattern''"

definition routePattern :: "'c fasthttp \<Rightarrow> 'c \<Rightarrow> string" where
  "routePattern F ctx =
    (case UserValue F ctx RoutePatternKey of
      Some (UString v) \<Rightarrow> if v \<noteq> [] then v else ''unknown''
    | _ \<Rightarrow> ''unknown'')"

definition Metrics :: "'c fasthttp \<Rightarrow> 'c middleware" where
  "Metrics F next ctx =
    Now (\<lambda>start.
    bind (next ctx) (\<lambda>(panic, ctx).
      case panic of
        Some rec \<Rightarrow> Done (Some rec, ctx)
      | None \<Rightarrow>
          (let pattern = routePattern F ctx
           in Metric (CountRequest (Method F ctx) pattern (dec_int (StatusCode F ctx)))
                (Now (\<lambda>end. Metric (ObserveDuration (Method F ctx) pattern start end)
                  (Done (None, ctx)))))))"

fun metric_use :: "metric \<Rightarrow> metric_vec \<times> string list" where
  "metric_use (CountRequest verb pattern status) = (httpRequestsTotal, [verb, pattern, status])"
| "metric_use (ObserveDuration verb pattern start end) = (httpRequestDuration, [verb, pattern])"

lemma labels_have_values: "length (mv_Labels (fst (metric_use x))) = length (snd (metric_use x))"
  by (cases x) (simp_all add: httpRequestsTotal_def httpRequestDuration_def)

subsection \<open>The chain\<close>

lemma chain_loop_append: "i \<le> length xs \<Longrightarrow> chain_loop (xs @ ys) i next = chain_loop xs i next"
  by (induction i arbitrary: "next") (simp_all add: nth_append)

lemma Chain_foldr: "Chain mws next = foldr (\<lambda>mw n. mw n) mws next"
  by (induction mws arbitrary: "next" rule: rev_induct)
    (simp_all add: Chain_def chain_loop_append nth_append)

lemma Chain_simps [simp]:
  "Chain [] next = next" "Chain (mw # mws) next = mw (Chain mws next)"
  "Chain (xs @ ys) next = Chain xs (Chain ys next)"
  by (simp_all add: Chain_foldr)

text \<open>Sixteen bytes make thirty-two digits, and different bytes different digits.\<close>

lemma byte_hex_digit: "n < 16 \<Longrightarrow> byte (hex_digit n) = (if n < 10 then 48 + n else 87 + n)"
  by (simp add: hex_digit_def)

lemma hex_digit_inj: "a < 16 \<Longrightarrow> b < 16 \<Longrightarrow> hex_digit a = hex_digit b \<longleftrightarrow> a = b"
  using byte_hex_digit [of a] byte_hex_digit [of b] byte_inject [of "hex_digit a" "hex_digit b"]
  by (auto split: if_splits)

lemma length_hex: "length (hex b) = 2 * length b"
  by (induction b) (simp_all add: hex_def)

lemma hex_inj: "hex a = hex b \<longleftrightarrow> a = b"
proof
  show "hex a = hex b \<Longrightarrow> a = b"
  proof (induction a arbitrary: b)
    case Nil
    then show ?case by (cases b) (simp_all add: hex_def)
  next
    case (Cons c a)
    then obtain d b' where b: "b = d # b'" by (cases b) (auto simp: hex_def)
    have "byte c div 16 = byte d div 16" "byte c mod 16 = byte d mod 16" "hex a = hex b'"
      using Cons.prems hex_digit_inj [of "byte c div 16" "byte d div 16"]
        hex_digit_inj [of "byte c mod 16" "byte d mod 16"] byte_less_256 [of c] byte_less_256 [of d]
      by (auto simp: b hex_def)
    then have "byte c = byte d" by (metis div_mult_mod_eq)
    with Cons.IH \<open>hex a = hex b'\<close> b show ?case by simp
  qed
qed simp

end
