(* ===== verification/Server.thy ===== *)
theory Server
  imports Session_Handler Middleware
begin

text \<open>
  \<^verbatim>\<open>internal/server/server.go\<close>: the routes, the chain of middlewares around them, the settings
  of the server and its start and stop. The router is a library: a function from the mounted
  routes to a request handler; so are the handlers of the metrics and of the API
  documentation.
\<close>

type_synonym 'c route = "string \<times> string \<times> 'c request_handler"

definition withRoute :: "'c fasthttp \<Rightarrow> string \<Rightarrow> 'c request_handler \<Rightarrow> 'c request_handler" where
  "withRoute F pattern next ctx = next (SetUserValue F RoutePatternKey (UString pattern) ctx)"

definition routes ::
  "(sentinel + json_error \<Rightarrow> string) \<Rightarrow> validation \<Rightarrow> 'c fasthttp \<Rightarrow> 'c request_handler \<Rightarrow>
   'c request_handler \<Rightarrow> Infra \<Rightarrow> Handler \<Rightarrow> 'c route list" where
  "routes lt V F promhttp swagger h sh =
    [(''GET'', ''/healthz'', withRoute F ''/healthz'' (quiet (\<lambda>ctx. Done (Healthz F ctx)))),
     (''GET'', ''/readyz'', withRoute F ''/readyz'' (quiet (\<lambda>ctx. Done (Readyz F h ctx)))),
     (''GET'', ''/metrics'', withRoute F ''/metrics'' promhttp),
     (''GET'', ''/api/v1/example'',
        withRoute F ''/api/v1/example'' (quiet (\<lambda>ctx. Done (Example F ctx)))),
     (''GET'', ''/swagger/{filepath:*}'', withRoute F ''/swagger'' swagger),
     (''POST'', ''/api/v1/sessions'',
        withRoute F ''/api/v1/sessions'' (quiet (Handler_Start lt V F sh))),
     (''GET'', ''/api/v1/sessions/current'',
        withRoute F ''/api/v1/sessions/current'' (quiet (Handler_GetCurrent F sh))),
     (''PUT'', ''/api/v1/sessions/heartbeat'',
        withRoute F ''/api/v1/sessions/heartbeat'' (quiet (Handler_Heartbeat lt V F sh))),
     (''PUT'', ''/api/v1/sessions/pause'',
        withRoute F ''/api/v1/sessions/pause'' (quiet (Handler_Pause lt V F sh))),
     (''PUT'', ''/api/v1/sessions/resume'',
        withRoute F ''/api/v1/sessions/resume'' (quiet (Handler_Resume lt V F sh)))]"

definition chain :: "'c fasthttp \<Rightarrow> 'c middleware" where
  "chain F = Chain [Recoverer F, RequestID F, Tracing F, Metrics F, Logger F]"

text \<open>The handler of the server, with the router \<open>R\<close>.\<close>

definition server_handler ::
  "('c route list \<Rightarrow> 'c request_handler) \<Rightarrow> (sentinel + json_error \<Rightarrow> string) \<Rightarrow> validation \<Rightarrow>
   'c fasthttp \<Rightarrow> 'c request_handler \<Rightarrow> 'c request_handler \<Rightarrow> Infra \<Rightarrow> Handler \<Rightarrow> 'c request_handler"
where
  "server_handler R lt V F promhttp swagger h sh =
    chain F (R (routes lt V F promhttp swagger h sh))"

subsection \<open>Settings, start and stop\<close>

record server_settings =
  srv_Name :: string
  srv_ReadTimeout :: int
  srv_WriteTimeout :: int
  srv_IdleTimeout :: int
  srv_MaxRequestBodySize :: int

definition second :: int where
  "second = 10 ^ 9"

definition server_settings_of :: "string \<Rightarrow> server_settings" where
  "server_settings_of ServiceName = \<lparr>srv_Name = ServiceName, srv_ReadTimeout = 10 * second,
     srv_WriteTimeout = 10 * second, srv_IdleTimeout = 120 * second,
     srv_MaxRequestBodySize = 4 * 1024 * 1024\<rparr>"

definition server_addr :: "string \<Rightarrow> string" where
  "server_addr HTTPPort = '':'' @ HTTPPort"

text \<open>Starting listens, and serves in the background only when that worked.\<close>

definition server_OnStart :: "string \<Rightarrow> (string \<Rightarrow> go_error option) \<Rightarrow> go_error option \<times> bool" where
  "server_OnStart addr listen =
    (case listen addr of
      Some err \<Rightarrow> (Some (Errorf (''listen '' @ addr) err), False)
    | None \<Rightarrow> (None, True))"

text \<open>The two ways the select of the stop hook goes.\<close>

datatype shutdown = ShutdownReturned "go_error option" | StopInterrupted go_error

definition server_OnStop :: "shutdown \<Rightarrow> Infra \<Rightarrow> go_error option \<times> Infra" where
  "server_OnStop s h =
    (let h = SetReady False h
     in case s of
          ShutdownReturned err \<Rightarrow> (err, h)
        | StopInterrupted err \<Rightarrow> (Some (Errorf ''shutdown interrupted'' err), h))"

subsection \<open>The router\<close>

text \<open>
  What the documentation of the router promises for paths without parameters: a request whose
  method and path are those of a route goes to the handler of the route.
\<close>

definition router_laws ::
  "('c \<Rightarrow> exchange) \<Rightarrow> ('c route list \<Rightarrow> 'c request_handler) \<Rightarrow> bool" where
  "router_laws ex R \<longleftrightarrow>
    (\<forall>rs verb path h ctx. (verb, path, h) \<in> set rs \<longrightarrow> CHR ''{'' \<notin> set path \<longrightarrow>
      distinct (map (\<lambda>(verb, path, h). (verb, path)) rs) \<longrightarrow>
      ex_method (ex ctx) = verb \<longrightarrow> ex_path (ex ctx) = path \<longrightarrow> R rs ctx = h ctx)"

lemma distinct_routes:
  "distinct (map (\<lambda>(verb, path, h). (verb, path)) (routes lt V F promhttp swagger h sh))"
  by (simp add: routes_def)

fun endpoint_route :: "endpoint \<Rightarrow> string \<times> string" where
  "endpoint_route EStart = (''POST'', ''/api/v1/sessions'')"
| "endpoint_route EGetCurrent = (''GET'', ''/api/v1/sessions/current'')"
| "endpoint_route EHeartbeat = (''PUT'', ''/api/v1/sessions/heartbeat'')"
| "endpoint_route EPause = (''PUT'', ''/api/v1/sessions/pause'')"
| "endpoint_route EResume = (''PUT'', ''/api/v1/sessions/resume'')"

lemma routed_endpoint:
  assumes "router_laws ex R" "endpoint_route e = (ex_method (ex ctx), ex_path (ex ctx))"
  shows "R (routes lt V F promhttp swagger h sh) ctx =
    withRoute F (snd (endpoint_route e)) (quiet (endpoint_handler lt V F sh e)) ctx"
proof -
  have "(fst (endpoint_route e), snd (endpoint_route e),
      withRoute F (snd (endpoint_route e)) (quiet (endpoint_handler lt V F sh e)))
      \<in> set (routes lt V F promhttp swagger h sh)"
    by (cases e) (simp_all add: routes_def)
  moreover have "CHR ''{'' \<notin> set (snd (endpoint_route e))"
    by (cases e) simp_all
  ultimately show ?thesis
    using assms distinct_routes unfolding router_laws_def by (metis fst_conv snd_conv)
qed

subsection \<open>The chain, call by call\<close>

text \<open>The context that reaches the innermost handler.\<close>

definition entered :: "'c fasthttp \<Rightarrow> string \<Rightarrow> 'c \<Rightarrow> 'c" where
  "entered F rid ctx = SetUserValue F otelCtxKey USpanContext
     (SetUserValue F ''request_id'' (UString rid) (Header_Set F RequestIDHeader rid ctx))"

text \<open>What the chain records after a handler that returned, and after one that panicked.\<close>

definition access_line :: "'c fasthttp \<Rightarrow> go_time \<Rightarrow> go_time \<Rightarrow> string option \<Rightarrow> 'c \<Rightarrow> event" where
  "access_line F start end tid ctx =
    Did_log Info ''request completed'' (request_attrs F start end ctx @ trace_attrs tid)"

definition completed :: "'c fasthttp \<Rightarrow> 'c \<Rightarrow> event list \<Rightarrow> bool" where
  "completed F ctx evs \<longleftrightarrow> (\<exists>start end start' end' tid. evs =
    [access_line F start end tid ctx,
     Did_metric (CountRequest (Method F ctx) (routePattern F ctx) (dec_int (StatusCode F ctx))),
     Did_metric (ObserveDuration (Method F ctx) (routePattern F ctx) start' end'),
     Did_span (SpanStatusCode (StatusCode F ctx))] @
    (if StatusCode F ctx \<ge> 500 then [Did_span (SpanError (''HTTP '' @ dec_int (StatusCode F ctx)))] else []) @
    [Did_span SpanEnd])"

definition panic_line :: "'c fasthttp \<Rightarrow> bytes \<Rightarrow> 'c \<Rightarrow> event" where
  "panic_line F rec ctx = Did_log Error_level ''panic recovered''
    [(''error'', AText rec), (''stack'', AStack), (''path'', AText (Path F ctx)),
     (''request_id'', AText (GetRequestID F ctx))]"

definition panic_events :: "'c fasthttp \<Rightarrow> bool \<Rightarrow> bytes \<Rightarrow> 'c \<Rightarrow> event list" where
  "panic_events F recording rec ctx =
    [Did_span SpanEnd, panic_line F rec ctx] @
    (if recording then [Did_span (SpanError (''panic: '' @ rec))] else [])"

lemma run_Logger:
  assumes "clock E (world m) = (start, w)" "run E (h ctx) (m\<lparr>world := w\<rparr>) = ((None, c), m2)"
  obtains "end" tid m3 where "run E (Logger F h ctx) m = ((None, c), m3)"
    "history m3 = history m2 @ [access_line F start end tid c]"
proof -
  obtain e w3 where e: "clock E (world m2) = (e, w3)" by fastforce
  show thesis
  proof (cases "SpanContext F c")
    case None
    with assms e show thesis
      by (intro that [of "logged Info ''request completed'' (request_attrs F start e c)
          (m2\<lparr>world := w3\<rparr>)" e None])        (simp_all add: Logger_def run_bind access_line_def trace_attrs_def Let_def)
  next
    case (Some x)
    obtain tid w4 where "span_trace_id E w3 = (tid, w4)" by fastforce
    with assms e Some show thesis
      by (intro that [of "logged Info ''request completed'' (request_attrs F start e c @ trace_attrs tid)
          (m2\<lparr>world := w4\<rparr>)" e tid]) (simp_all add: Logger_def run_bind access_line_def Let_def)
  qed
qed

lemma run_inner_chain:  obtains m1 where
    "heap m1 = heap m" "fresh m1 = fresh m" "spawned m1 = spawned m"
    "\<exists>carrier name at. history m1 = history m @ [Did_extract carrier, Did_span (SpanStart name at)]"
    "\<And>rec c m2. run E (h (SetUserValue F otelCtxKey USpanContext ctx)) m1 = ((Some rec, c), m2) \<Longrightarrow>
      run E (Tracing F (Metrics F (Logger F h)) ctx) m =
        ((Some rec, c), called m2 (span_call E SpanEnd (world m2)) (Did_span SpanEnd))"
    "\<And>c m2. run E (h (SetUserValue F otelCtxKey USpanContext ctx)) m1 = ((None, c), m2) \<Longrightarrow>
      fst (run E (Tracing F (Metrics F (Logger F h)) ctx) m) = (None, c) \<and>
      (\<exists>evs. completed F c evs \<and>
        history (snd (run E (Tracing F (Metrics F (Logger F h)) ctx) m)) = history m2 @ evs)"
proof -
  let ?start = "SpanStart (Method F ctx @ CHR '' '' # Path F ctx)
    [(''http.request.method'', AText (Method F ctx)), (''url.path'', AText (Path F ctx)),
     (''net.peer.ip'', AText (RemoteAddr F ctx))]"
  let ?events = "[Did_extract (map (\<lambda>k. (k, carrier_Get F ctx k)) (carrier_Keys F ctx)),
    Did_span ?start]"
  let ?w = "span_call E ?start (world m)"
  obtain t1 w1 where t1: "clock E ?w = (t1, w1)" by fastforce
  obtain t2 w2 where t2: "clock E w1 = (t2, w2)" by fastforce
  define m1 where "m1 = m\<lparr>world := w2, history := history m @ ?events\<rparr>"
  define m0 where "m0 = m\<lparr>world := w1, history := history m @ ?events\<rparr>"
  have t2': "clock E (world m0) = (t2, w2)" using t2 by (simp add: m0_def)
  have m1: "m1 = m0\<lparr>world := w2\<rparr>" by (simp add: m0_def m1_def)
  note enter = Tracing_def Metrics_def run_bind t1  have mach0: "(called (m\<lparr>history := history m @ [x]\<rparr>) ?w y)\<lparr>world := w1\<rparr>
      = m\<lparr>world := w1, history := history m @ [x, y]\<rparr>" for x y
    by (simp add: called_def)  have mach: "(called (m\<lparr>history := history m @ [x]\<rparr>) ?w y)\<lparr>world := w2\<rparr>
      = m\<lparr>world := w2, history := history m @ [x, y]\<rparr>" for x y
    by (simp add: called_def)
  show thesis
  proof (rule that [of m1])
    fix rec c m2
    assume "run E (h (SetUserValue F otelCtxKey USpanContext ctx)) m1 = ((Some rec, c), m2)"
    then show "run E (Tracing F (Metrics F (Logger F h)) ctx) m =
        ((Some rec, c), called m2 (span_call E SpanEnd (world m2)) (Did_span SpanEnd))"
      by (simp add: enter Logger_def t2 mach m1_def [symmetric])
  next
    fix c m2
    assume *: "run E (h (SetUserValue F otelCtxKey USpanContext ctx)) m1 = ((None, c), m2)"
    show "fst (run E (Tracing F (Metrics F (Logger F h)) ctx) m) = (None, c) \<and>
      (\<exists>evs. completed F c evs \<and>
        history (snd (run E (Tracing F (Metrics F (Logger F h)) ctx) m)) = history m2 @ evs)"
    proof (rule run_Logger [OF t2', of h "SetUserValue F otelCtxKey USpanContext ctx" c m2 F])
      show "run E (h (SetUserValue F otelCtxKey USpanContext ctx)) (m0\<lparr>world := w2\<rparr>) = ((None, c), m2)"
        using * unfolding m1 .
    next
      fix "end" tid m3
      assume "run E (Logger F h (SetUserValue F otelCtxKey USpanContext ctx)) m0 = ((None, c), m3)"
        "history m3 = history m2 @ [access_line F t2 end tid c]"
      then show ?thesis
        by (simp add: enter mach0 m0_def [symmetric] Let_def completed_def split: prod.split) blast
    qed  qed (auto simp: m1_def)
qed

text \<open>The identifier of a request: the one it came with, or sixteen random bytes.\<close>

definition request_id :: "'w env \<Rightarrow> 'c fasthttp \<Rightarrow> 'c \<Rightarrow> 'w \<Rightarrow> string \<times> 'w" where
  "request_id E F ctx w =
    (let rid = Header_Peek F ctx RequestIDHeader
     in if rid = [] then (case rand_read E 16 w of (b, w') \<Rightarrow> (hex b, w')) else (rid, w))"

lemma run_RequestID:
  assumes "request_id E F ctx (world m) = (rid, w)"
  shows "run E (RequestID F h ctx) m =
    run E (h (SetUserValue F ''request_id'' (UString rid) (Header_Set F RequestIDHeader rid ctx)))
      (m\<lparr>world := w\<rparr>)"
  using assms
  by (auto simp: RequestID_def request_id_def generateID_def Let_def split: prod.splits if_splits)

lemma run_Recoverer:
  "run E (Recoverer F h ctx) m =
    (case run E (h ctx) m of
      ((None, c), m') \<Rightarrow> ((None, c), m')
    | ((Some rec, c), m') \<Rightarrow>
        (let m1 = m'\<lparr>history := history m' @ [panic_line F rec c]\<rparr>;
             answer = (None, ctx_Error F ''Internal Server Error'' 500 c)
         in case SpanContext F c of
              None \<Rightarrow> (answer, m1)
            | Some _ \<Rightarrow>
              (case span_recording E (world m1) of
                (recording, w) \<Rightarrow>
                  (answer,
                   if recording
                   then called (m1\<lparr>world := w\<rparr>) (span_call E (SpanError (''panic: '' @ rec)) w)
                     (Did_span (SpanError (''panic: '' @ rec)))
                   else m1\<lparr>world := w\<rparr>))))"
  by (auto simp: Recoverer_def run_bind logged_def panic_line_def Let_def split: prod.split option.split)

text \<open>
  The whole chain around a handler: what it gets, and what becomes of its return or its
  panic.
\<close>

lemma run_chain:
  assumes rid: "request_id E F ctx (world m) = (rid, w)"
  obtains m1 p c m2 recording where
    "heap m1 = heap m" "fresh m1 = fresh m" "spawned m1 = spawned m"
    "\<exists>carrier name at. history m1 = history m @ [Did_extract carrier, Did_span (SpanStart name at)]"
    "run E (h (entered F rid ctx)) m1 = ((p, c), m2)"
    "p = None \<Longrightarrow> fst (run E (chain F h ctx) m) = (None, c) \<and>
      (\<exists>evs. completed F c evs \<and> history (snd (run E (chain F h ctx) m)) = history m2 @ evs)"
    "\<And>rec. p = Some rec \<Longrightarrow> fst (run E (chain F h ctx) m) =
        (None, ctx_Error F ''Internal Server Error'' 500 c) \<and>
      history (snd (run E (chain F h ctx) m)) = history m2 @ panic_events F recording rec c \<and>
      (recording \<longrightarrow> fst (span_recording E (span_call E SpanEnd (world m2))))"
proof -
  let ?ctx = "SetUserValue F ''request_id'' (UString rid) (Header_Set F RequestIDHeader rid ctx)"
  let ?inner = "Tracing F (Metrics F (Logger F h)) ?ctx"
  obtain m1 where m1: "heap m1 = heap m" "fresh m1 = fresh m" "spawned m1 = spawned m"
    "\<exists>carrier name at. history m1 = history m @ [Did_extract carrier, Did_span (SpanStart name at)]"
    and panic: "\<And>rec c m2. run E (h (entered F rid ctx)) m1 = ((Some rec, c), m2) \<Longrightarrow>
      run E ?inner (m\<lparr>world := w\<rparr>) =
        ((Some rec, c), called m2 (span_call E SpanEnd (world m2)) (Did_span SpanEnd))"
    and return: "\<And>c m2. run E (h (entered F rid ctx)) m1 = ((None, c), m2) \<Longrightarrow>
      fst (run E ?inner (m\<lparr>world := w\<rparr>)) = (None, c) \<and>
      (\<exists>evs. completed F c evs \<and> history (snd (run E ?inner (m\<lparr>world := w\<rparr>))) = history m2 @ evs)"
    by (rule run_inner_chain [of "m\<lparr>world := w\<rparr>" E h F ?ctx]) (simp add: entered_def)
  have chain: "run E (chain F h ctx) m = run E (Recoverer F (\<lambda>_. ?inner) ctx) (m\<lparr>world := w\<rparr>)"
    by (simp add: chain_def run_Recoverer run_RequestID [OF rid])
  obtain p c m2 where h: "run E (h (entered F rid ctx)) m1 = ((p, c), m2)"
    by (metis prod.exhaust)
  let ?recording = "SpanContext F c \<noteq> None \<and> fst (span_recording E (span_call E SpanEnd (world m2)))"
  show thesis
  proof (rule that [OF m1 h, of ?recording])
    assume "p = None"
    then obtain m3 evs where "run E ?inner (m\<lparr>world := w\<rparr>) = ((None, c), m3)"
        "completed F c evs" "history m3 = history m2 @ evs"
      using return [of c m2] h by (metis fst_conv snd_conv prod.exhaust)
    then show "fst (run E (chain F h ctx) m) = (None, c) \<and>
        (\<exists>evs. completed F c evs \<and> history (snd (run E (chain F h ctx) m)) = history m2 @ evs)"
      by (simp add: chain run_Recoverer)
  next
    fix rec
    assume "p = Some rec"
    with h have inner: "run E ?inner (m\<lparr>world := w\<rparr>) =
        ((Some rec, c), called m2 (span_call E SpanEnd (world m2)) (Did_span SpanEnd))"
      by (simp add: panic)
    obtain b w' where b: "span_recording E (span_call E SpanEnd (world m2)) = (b, w')" by fastforce
    show "fst (run E (chain F h ctx) m) = (None, ctx_Error F ''Internal Server Error'' 500 c) \<and>
        history (snd (run E (chain F h ctx) m)) = history m2 @ panic_events F ?recording rec c \<and>
        (?recording \<longrightarrow> fst (span_recording E (span_call E SpanEnd (world m2))))"
      by (cases "SpanContext F c") (simp_all add: chain run_Recoverer inner b panic_events_def)
  qed
qed

end
