(* ===== verification/Api_Docs.thy ===== *)
theory Api_Docs
  imports Server
begin

text \<open>
  The API documentation that \<^verbatim>\<open>docs/docs.go\<close> serves under \<^verbatim>\<open>/swagger\<close>: the operations with
  their parameters and responses, the schemas, and the settings of the document, without the
  prose of the descriptions and summaries. The file is generated from the comments over the
  handlers; here it is data that is compared with what the code does.
\<close>

subsection \<open>The document\<close>

datatype schema = Ref string | StringMap

record parameter =
  pm_name :: string
  pm_in :: string
  pm_required :: bool
  pm_schema :: "schema option"

record operation =
  op_path :: string
  op_verb :: string
  op_consumes :: "string list"
  op_produces :: "string list"
  op_tags :: "string list"
  op_parameters :: "parameter list"
  op_responses :: "(int \<times> string \<times> schema option) list"

definition doc_example :: operation where
  "doc_example = \<lparr>op_path = ''/example'', op_verb = ''get'',
     op_consumes = [], op_produces = [''application/json''], op_tags = [''example''],
     op_parameters = [],
     op_responses = [(200, ''OK'', Some StringMap)]\<rparr>"

definition doc_healthz :: operation where
  "doc_healthz = \<lparr>op_path = ''/healthz'', op_verb = ''get'',
     op_consumes = [], op_produces = [''application/json''], op_tags = [''infrastructure''],
     op_parameters = [],
     op_responses = [(200, ''OK'', Some StringMap)]\<rparr>"

definition doc_readyz :: operation where
  "doc_readyz = \<lparr>op_path = ''/readyz'', op_verb = ''get'',
     op_consumes = [], op_produces = [''application/json''], op_tags = [''infrastructure''],
     op_parameters = [],
     op_responses = [(200, ''OK'', Some StringMap),
       (503, ''Service Unavailable'', Some StringMap)]\<rparr>"

definition doc_start :: operation where
  "doc_start = \<lparr>op_path = ''/sessions'', op_verb = ''post'',
     op_consumes = [''application/json''], op_produces = [''application/json''], op_tags = [''session''],
     op_parameters = [\<lparr>pm_name = ''X-User-ID'', pm_in = ''header'', pm_required = True, pm_schema = None\<rparr>,
       \<lparr>pm_name = ''body'', pm_in = ''body'', pm_required = True,
       pm_schema = Some (Ref ''internal_session.StartRequest'')\<rparr>],
     op_responses = [(201, ''Created'', Some (Ref ''internal_session.PlaybackSession'')),
       (400, ''Bad Request'', Some (Ref ''service_internal_apperror.Response'')),
       (401, ''Unauthorized'', Some (Ref ''service_internal_apperror.Response'')),
       (500, ''Internal Server Error'', Some (Ref ''service_internal_apperror.Response''))]\<rparr>"

definition doc_current :: operation where
  "doc_current = \<lparr>op_path = ''/sessions/current'', op_verb = ''get'',
     op_consumes = [], op_produces = [''application/json''], op_tags = [''session''],
     op_parameters = [\<lparr>pm_name = ''X-User-ID'', pm_in = ''header'', pm_required = True, pm_schema = None\<rparr>],
     op_responses = [(200, ''OK'', Some (Ref ''internal_session.PlaybackSession'')),
       (401, ''Unauthorized'', Some (Ref ''service_internal_apperror.Response'')),
       (404, ''Not Found'', Some (Ref ''service_internal_apperror.Response'')),
       (500, ''Internal Server Error'', Some (Ref ''service_internal_apperror.Response''))]\<rparr>"

definition doc_heartbeat :: operation where
  "doc_heartbeat = \<lparr>op_path = ''/sessions/heartbeat'', op_verb = ''put'',
     op_consumes = [''application/json''], op_produces = [''application/json''], op_tags = [''session''],
     op_parameters = [\<lparr>pm_name = ''X-User-ID'', pm_in = ''header'', pm_required = True, pm_schema = None\<rparr>,
       \<lparr>pm_name = ''body'', pm_in = ''body'', pm_required = True,
       pm_schema = Some (Ref ''internal_session.HeartbeatRequest'')\<rparr>],
     op_responses = [(204, ''No Content'', None),
       (400, ''Bad Request'', Some (Ref ''service_internal_apperror.Response'')),
       (401, ''Unauthorized'', Some (Ref ''service_internal_apperror.Response'')),
       (500, ''Internal Server Error'', Some (Ref ''service_internal_apperror.Response''))]\<rparr>"

definition doc_pause :: operation where
  "doc_pause = \<lparr>op_path = ''/sessions/pause'', op_verb = ''put'',
     op_consumes = [''application/json''], op_produces = [''application/json''], op_tags = [''session''],
     op_parameters = [\<lparr>pm_name = ''X-User-ID'', pm_in = ''header'', pm_required = True, pm_schema = None\<rparr>,
       \<lparr>pm_name = ''body'', pm_in = ''body'', pm_required = True,
       pm_schema = Some (Ref ''internal_session.PauseResumeRequest'')\<rparr>],
     op_responses = [(200, ''OK'', Some (Ref ''internal_session.PlaybackSession'')),
       (400, ''Bad Request'', Some (Ref ''service_internal_apperror.Response'')),
       (401, ''Unauthorized'', Some (Ref ''service_internal_apperror.Response'')),
       (404, ''Not Found'', Some (Ref ''service_internal_apperror.Response'')),
       (500, ''Internal Server Error'', Some (Ref ''service_internal_apperror.Response''))]\<rparr>"

definition doc_resume :: operation where
  "doc_resume = \<lparr>op_path = ''/sessions/resume'', op_verb = ''put'',
     op_consumes = [''application/json''], op_produces = [''application/json''], op_tags = [''session''],
     op_parameters = [\<lparr>pm_name = ''X-User-ID'', pm_in = ''header'', pm_required = True, pm_schema = None\<rparr>,
       \<lparr>pm_name = ''body'', pm_in = ''body'', pm_required = True,
       pm_schema = Some (Ref ''internal_session.PauseResumeRequest'')\<rparr>],
     op_responses = [(200, ''OK'', Some (Ref ''internal_session.PlaybackSession'')),
       (400, ''Bad Request'', Some (Ref ''service_internal_apperror.Response'')),
       (401, ''Unauthorized'', Some (Ref ''service_internal_apperror.Response'')),
       (404, ''Not Found'', Some (Ref ''service_internal_apperror.Response'')),
       (500, ''Internal Server Error'', Some (Ref ''service_internal_apperror.Response''))]\<rparr>"

definition doc_paths :: "operation list" where
  "doc_paths = [doc_example, doc_healthz, doc_readyz, doc_start, doc_current, doc_heartbeat,
     doc_pause, doc_resume]"

text \<open>The types of members: text, a number with its minimum, or another schema.\<close>

datatype member_type = TString | TInteger "int option" | TRef string

record object_schema =
  os_required :: "string list"
  os_properties :: "(string \<times> member_type) list"

definition doc_HeartbeatRequest :: object_schema where
  "doc_HeartbeatRequest = \<lparr>os_required = [''device_id'', ''track_id''],
     os_properties = [(''device_id'', TString), (''position_sec'', TInteger (Some 0)),
       (''track_id'', TString)]\<rparr>"

definition doc_PauseResumeRequest :: object_schema where
  "doc_PauseResumeRequest = \<lparr>os_required = [''device_id''], os_properties = [(''device_id'', TString)]\<rparr>"

definition doc_PlaybackSession :: object_schema where
  "doc_PlaybackSession = \<lparr>os_required = [],
     os_properties = [(''device_id'', TString), (''position_sec'', TInteger None), (''status'', TString),
       (''track_id'', TString), (''updated_at'', TString), (''user_id'', TString)]\<rparr>"

definition doc_StartRequest :: object_schema where
  "doc_StartRequest = \<lparr>os_required = [''device_id'', ''track_id''],
     os_properties = [(''device_id'', TString), (''position_sec'', TInteger None),
       (''track_id'', TString)]\<rparr>"

definition doc_ErrorBody :: object_schema where
  "doc_ErrorBody = \<lparr>os_required = [],
     os_properties = [(''code'', TString), (''message'', TString)]\<rparr>"

definition doc_Response :: object_schema where
  "doc_Response = \<lparr>os_required = [],
     os_properties = [(''error'', TRef ''service_internal_apperror.ErrorBody'')]\<rparr>"

definition doc_definitions :: "string \<rightharpoonup> object_schema" where
  "doc_definitions = map_of
    [(''internal_session.HeartbeatRequest'', doc_HeartbeatRequest),
     (''internal_session.PauseResumeRequest'', doc_PauseResumeRequest),
     (''internal_session.PlaybackSession'', doc_PlaybackSession),
     (''internal_session.StartRequest'', doc_StartRequest),
     (''service_internal_apperror.ErrorBody'', doc_ErrorBody),
     (''service_internal_apperror.Response'', doc_Response)]"

record swagger_info =
  si_Version :: string
  si_Host :: string
  si_BasePath :: string
  si_Schemes :: "string list"
  si_Title :: string
  si_InfoInstanceName :: string

definition SwaggerInfo :: swagger_info where
  "SwaggerInfo = \<lparr>si_Version = ''1.0'', si_Host = ''localhost:8080'', si_BasePath = ''/api/v1'',
     si_Schemes = [], si_Title = ''Playback Session Service API'', si_InfoInstanceName = ''swagger''\<rparr>"

subsection \<open>The document against the routes\<close>

text \<open>What a reader of the document calls: the verb, and the path under the base path.\<close>

fun verb_name :: "string \<Rightarrow> string" where
  "verb_name v = (if v = ''get'' then ''GET'' else if v = ''post'' then ''POST''
     else if v = ''put'' then ''PUT'' else v)"

definition documented_call :: "operation \<Rightarrow> string \<times> string" where
  "documented_call op = (verb_name (op_verb op), si_BasePath SwaggerInfo @ op_path op)"

fun endpoint_doc :: "endpoint \<Rightarrow> operation" where
  "endpoint_doc EStart = doc_start"
| "endpoint_doc EGetCurrent = doc_current"
| "endpoint_doc EHeartbeat = doc_heartbeat"
| "endpoint_doc EPause = doc_pause"
| "endpoint_doc EResume = doc_resume"

definition served_calls :: "(string \<times> string) list" where
  "served_calls = [(''GET'', ''/healthz''), (''GET'', ''/readyz''), (''GET'', ''/metrics''),
     (''GET'', ''/api/v1/example''), (''GET'', ''/swagger/{filepath:*}''),
     (''POST'', ''/api/v1/sessions''), (''GET'', ''/api/v1/sessions/current''),
     (''PUT'', ''/api/v1/sessions/heartbeat''), (''PUT'', ''/api/v1/sessions/pause''),
     (''PUT'', ''/api/v1/sessions/resume'')]"

lemma served_calls:
  "map (\<lambda>(verb, path, h). (verb, path)) (routes lt V F promhttp swagger h sh) = served_calls"
  by (simp add: routes_def served_calls_def)

lemmas doc_operations = doc_example_def doc_healthz_def doc_readyz_def doc_start_def doc_current_def
  doc_heartbeat_def doc_pause_def doc_resume_def


subsection \<open>The schemas against the code\<close>

text \<open>
  What a schema asks of a request, as the validator takes it: the required members are not
  empty, the members with a minimum not below it.
\<close>

definition meets :: "object_schema \<Rightarrow> (string \<rightharpoonup> field_value) \<Rightarrow> bool" where
  "meets os values \<longleftrightarrow>
    (\<forall>n \<in> set (os_required os). values n \<notin> {None, Some (FieldString []), Some (FieldInt 0)}) \<and>
    (\<forall>(n, ty) \<in> set (os_properties os). case (ty, values n) of
       (TInteger (Some lo), Some (FieldInt i)) \<Rightarrow> lo \<le> sint i
     | _ \<Rightarrow> True)"

definition start_values :: "StartRequest \<Rightarrow> string \<rightharpoonup> field_value" where
  "start_values r = [''track_id'' \<mapsto> FieldString (sr_TrackID r),
     ''device_id'' \<mapsto> FieldString (sr_DeviceID r), ''position_sec'' \<mapsto> FieldInt (sr_Position r)]"

definition heartbeat_values :: "HeartbeatRequest \<Rightarrow> string \<rightharpoonup> field_value" where
  "heartbeat_values r = [''track_id'' \<mapsto> FieldString (hr_TrackID r),
     ''position_sec'' \<mapsto> FieldInt (hr_Position r), ''device_id'' \<mapsto> FieldString (hr_DeviceID r)]"

definition pause_resume_values :: "PauseResumeRequest \<Rightarrow> string \<rightharpoonup> field_value" where
  "pause_resume_values r = [''device_id'' \<mapsto> FieldString (pr_DeviceID r)]"



text \<open>
  C35. The documented schemas of the responses say what is sent: the members of an encoded
  session are those of its schema, text where the schema has text and a number where it has a
  number; the body of an error response is an object with the documented member, which holds
  one with the two documented members.
\<close>

definition of_type :: "member_type \<Rightarrow> bytes \<Rightarrow> bool" where
  "of_type ty raw \<longleftrightarrow>
    (case ty of
      TString \<Rightarrow> take 1 raw = [quote_char]
    | TInteger _ \<Rightarrow> (\<exists>i. raw = format_int i)
    | TRef _ \<Rightarrow> True)"

theorem response_schemas_sent:
  "(case marshal_session s of
      Inl _ \<Rightarrow> True
    | Inr body \<Rightarrow> \<exists>ms. body = write_object ms \<and> set (map fst ms) = set (map fst (os_properties doc_PlaybackSession)) \<and>
        (\<forall>(n, ty) \<in> set (os_properties doc_PlaybackSession). \<exists>raw. map_of ms n = Some raw \<and> of_type ty raw)) \<and>
   (\<exists>b. marshal_response (ToResponse e) = write_object [(fst (hd (os_properties doc_Response)), marshal_body b)] \<and>
     (\<exists>ms. marshal_body b = write_object ms \<and> map fst ms = map fst (os_properties doc_ErrorBody) \<and>
        (\<forall>(n, raw) \<in> set ms. of_type TString raw)))"
proof -
  have quoted: "of_type TString (json_quote x)" for x by (simp add: of_type_def json_quote_def)
  have "\<exists>ms. body = write_object ms \<and> set (map fst ms) = set (map fst (os_properties doc_PlaybackSession)) \<and>
      (\<forall>(n, ty) \<in> set (os_properties doc_PlaybackSession). \<exists>raw. map_of ms n = Some raw \<and> of_type ty raw)"
    if body: "marshal_session s = Inr body" for body
  proof -
    obtain t where t: "marshal_time (UpdatedAt s) = Some t"
      using body by (cases "marshal_time (UpdatedAt s)") (auto simp: marshal_session_def)
    then have "of_type TString t" by (auto simp: marshal_time_def of_type_def)
    moreover have "of_type (TInteger None) (format_int (Position s))" by (auto simp: of_type_def)
    ultimately show ?thesis
      using body t quoted
      by (intro exI [of _ "[(''user_id'', json_quote (UserID s)), (''track_id'', json_quote (TrackID s)),
         (''position_sec'', format_int (Position s)), (''status'', json_quote (Status s)),
         (''device_id'', json_quote (DeviceID s)), (''updated_at'', t)]"])
        (auto simp: marshal_session_def doc_PlaybackSession_def)
  qed
  moreover obtain b where b: "ToResponse e = \<lparr>resp_error = Some b\<rparr>" by (simp add: ToResponse_def)
  moreover have "\<exists>ms. marshal_body b = write_object ms \<and> map fst ms = map fst (os_properties doc_ErrorBody) \<and>
      (\<forall>(n, raw) \<in> set ms. of_type TString raw)"
    by (rule exI [of _ "[(''code'', json_quote (body_code b)), (''message'', json_quote (body_message b))]"])
      (simp add: marshal_body_def doc_ErrorBody_def quoted)
  ultimately show ?thesis
    by (auto simp: marshal_response_def doc_Response_def split: sum.split intro!: exI [of _ b])
qed

lemma response_schemas_sent_witness:
  "\<exists>ms. marshal_body \<lparr>body_code = ''NOT_FOUND'', body_message = ''gone''\<rparr> = write_object ms \<and>
    map fst ms = [''code'', ''message''] \<and> (\<forall>(n, raw) \<in> set ms. of_type TString raw)"
proof -
  from response_schemas_sent [THEN conjunct2, of "NewNotFound ''gone''"]
  obtain b where b: "marshal_response (ToResponse (NewNotFound ''gone'')) =
        write_object [(fst (hd (os_properties doc_Response)), marshal_body b)]"
    and ms: "\<exists>ms. marshal_body b = write_object ms \<and> map fst ms = map fst (os_properties doc_ErrorBody) \<and>
      (\<forall>(n, raw) \<in> set ms. of_type TString raw)"
    by blast
  from b have "marshal_body b = marshal_body \<lparr>body_code = ''NOT_FOUND'', body_message = ''gone''\<rparr>"
    by (simp add: marshal_response_def ToResponse_def NewNotFound_def write_object_def doc_Response_def
        write_member_def)
  with ms show ?thesis by (simp add: doc_ErrorBody_def)
qed

end
