(* ===== verification/Startup.thy ===== *)
theory Startup
  imports Config Json_Int "HOL-Library.Sublist"
begin

text \<open>
  Opening the backing services and putting the program together:
  \<^verbatim>\<open>internal/postgres/postgres.go\<close>, \<^verbatim>\<open>internal/postgres/migrate.go\<close>,
  \<^verbatim>\<open>internal/redis/redis.go\<close>, \<^verbatim>\<open>internal/tracing/tracing.go\<close> and \<^verbatim>\<open>cmd/service/main.go\<close>.

  The client libraries are arguments: what their calls answer. What the constructors do
  besides answering (closing what they opened, registering a stop hook, logging) is the list
  of their deeds; those of the start and stop hooks are in \<open>Lifecycle\<close>.
\<close>

datatype part =
    PConfig | PLogger | PInfra
  | PPostgresConfig | PRedisConfig | PProducerConfig | PConsumerConfig
  | PPostgres | PRedis | PProducer
  | PRepository | PService | PHandler | PHeartbeatConsumer
  | ITracing | IMigrations | IConsumer | IServer

datatype deed =
    OpenPool | ClosePool
  | OpenRedis | CloseRedis
  | OpenWriter | CloseWriter
  | OpenReader | CloseReader
  | OpenMigrations | CloseMigrations
  | DialCollector string
  | SetTracerProvider string
  | SetPropagators "string list"
  | ShutdownTracer
  | StartConsumer | CancelConsumer
  | Listening string | StartServing | Unready | ShutdownServer
  | AppendHook part
  | Say level string attrs

subsection \<open>PostgreSQL\<close>

text \<open>The settings of the pool that the code looks at.\<close>

record pool_config =
  pl_Host :: string
  pl_MaxConns :: int
  pl_MinConns :: int
  pl_MaxConnLifetime :: int
  pl_MaxConnIdleTime :: int
  pl_Tracer :: bool

record pgx_lib =
  ParseConfig :: "string \<Rightarrow> go_error + pool_config"
  NewWithConfig :: "pool_config \<Rightarrow> go_error option"
  pg_Ping :: "pool_config \<Rightarrow> go_error option"

definition pool_settings :: "postgres_Config \<Rightarrow> pool_config \<Rightarrow> pool_config" where
  "pool_settings cfg p =
    (let p = (if MaxConns cfg > 0 then p\<lparr>pl_MaxConns := MaxConns cfg\<rparr> else p);
         p = (if MinConns cfg > 0 then p\<lparr>pl_MinConns := MinConns cfg\<rparr> else p);
         p = (if MaxConnLife cfg > 0 then p\<lparr>pl_MaxConnLifetime := MaxConnLife cfg\<rparr> else p);
         p = (if MaxConnIdle cfg > 0 then p\<lparr>pl_MaxConnIdleTime := MaxConnIdle cfg\<rparr> else p)
     in p\<lparr>pl_Tracer := True\<rparr>)"

definition postgres_New ::
  "pgx_lib \<Rightarrow> postgres_Config \<Rightarrow> (go_error + pool_config) \<times> deed list" where
  "postgres_New L cfg =
    (case ParseConfig L (DSN cfg) of
      Inl err \<Rightarrow> (Inl (Errorf ''parse postgres DSN'' err), [])
    | Inr parsed \<Rightarrow>
      (let p = pool_settings cfg parsed
       in case NewWithConfig L p of
            Some err \<Rightarrow> (Inl (Errorf ''create postgres pool'' err), [])
          | None \<Rightarrow>
            (case pg_Ping L p of
              Some err \<Rightarrow> (Inl (Errorf ''ping postgres'' err), [OpenPool, ClosePool])
            | None \<Rightarrow> (Inr p, [OpenPool, Say Info ''postgres connected'' [(''dsn_host'', AText (pl_Host p))],
                AppendHook PPostgres]))))"

definition postgres_HealthCheck :: "pgx_lib \<Rightarrow> pool_config \<Rightarrow> go_error option" where
  "postgres_HealthCheck L pool = pg_Ping L pool"

subsection \<open>Migrations\<close>

record migrate_lib =
  migrate_New :: "string \<Rightarrow> string \<Rightarrow> go_error option"
  migrate_Up :: "go_error option"
  migrate_Version :: "(int \<times> bool) \<times> go_error option"
  migrate_Close :: "go_error option \<times> go_error option"

definition migrate_closing :: "migrate_lib \<Rightarrow> deed list" where
  "migrate_closing L =
    CloseMigrations #
    (case fst (migrate_Close L) of
      None \<Rightarrow> [] | Some srcErr \<Rightarrow> [Say Warn ''migrate source close error'' [(''error'', AErr srcErr)]]) @
    (case snd (migrate_Close L) of
      None \<Rightarrow> [] | Some dbErr \<Rightarrow> [Say Warn ''migrate database close error'' [(''error'', AErr dbErr)]])"

text \<open>The version is read for the log only, and an error of reading it is dropped.\<close>

definition migrations_applied :: "migrate_lib \<Rightarrow> deed" where
  "migrations_applied L = (let version = fst (fst (migrate_Version L)); dirty = snd (fst (migrate_Version L))
    in Say Info ''migrations applied'' [(''version'', ANum version), (''dirty'', ABool dirty)])"

definition RunMigrations ::
  "migrate_lib \<Rightarrow> string \<Rightarrow> string \<Rightarrow> go_error option \<times> deed list" where
  "RunMigrations L dsn migrationsPath =
    (case migrate_New L (''file://'' @ migrationsPath) dsn of
      Some err \<Rightarrow> (Some (Errorf ''init migrations'' err), [])
    | None \<Rightarrow>
      (case migrate_Up L of
        Some err \<Rightarrow>
          if errors_Is err MigrateNoChange
          then (None, OpenMigrations # migrations_applied L # migrate_closing L)
          else (Some (Errorf ''run migrations'' err), OpenMigrations # migrate_closing L)
      | None \<Rightarrow> (None, OpenMigrations # migrations_applied L # migrate_closing L)))"

subsection \<open>Redis\<close>

record redis_options =
  ro_Addr :: string
  ro_Password :: string
  ro_DB :: int
  ro_PoolSize :: int

record redis_lib =
  InstrumentTracing :: "redis_options \<Rightarrow> go_error option"
  InstrumentMetrics :: "redis_options \<Rightarrow> go_error option"
  redis_Ping :: "redis_options \<Rightarrow> go_error option"

definition redis_settings :: "redis_Config \<Rightarrow> redis_options" where
  "redis_settings cfg =
    (let opts = \<lparr>ro_Addr = Addr cfg, ro_Password = Password cfg, ro_DB = DB cfg, ro_PoolSize = 0\<rparr>
     in if PoolSize cfg > 0 then opts\<lparr>ro_PoolSize := PoolSize cfg\<rparr> else opts)"

definition redis_New :: "redis_lib \<Rightarrow> redis_Config \<Rightarrow> (go_error + redis_options) \<times> deed list" where
  "redis_New L cfg =
    (let client = redis_settings cfg
     in case InstrumentTracing L client of
          Some err \<Rightarrow> (Inl (Errorf ''redis otel tracing'' err), [OpenRedis])
        | None \<Rightarrow>
          (case InstrumentMetrics L client of
            Some err \<Rightarrow> (Inl (Errorf ''redis otel metrics'' err), [OpenRedis])
          | None \<Rightarrow>
            (case redis_Ping L client of
              Some err \<Rightarrow> (Inl (Errorf ''ping redis'' err), [OpenRedis])
            | None \<Rightarrow> (Inr client, [OpenRedis, Say Info ''redis connected'' [(''addr'', AText (Addr cfg))],
                AppendHook PRedis]))))"

definition redis_HealthCheck :: "redis_lib \<Rightarrow> redis_options \<Rightarrow> go_error option" where
  "redis_HealthCheck L client = redis_Ping L client"

subsection \<open>Kafka\<close>

text \<open>The hook of the producer, and what the statistics of the reader say about its health.\<close>

definition producer_New :: "ProducerConfig \<Rightarrow> writer_settings \<times> deed list" where
  "producer_New cfg = (NewProducer cfg, [OpenWriter, AppendHook PProducer])"

definition Consumer_HealthCheck :: "int \<Rightarrow> go_error option" where
  "Consumer_HealthCheck stats_Errors =
    (if stats_Errors > 0
     then Some (Opaque (''kafka consumer has '' @ dec_int stats_Errors @ '' errors'')) else None)"

subsection \<open>Tracing\<close>

record otel_lib =
  resource_Merge :: "string \<Rightarrow> go_error option"
  grpc_NewClient :: "string \<Rightarrow> go_error option"
  otlptrace_New :: "string \<Rightarrow> go_error option"

definition tracing_setup :: "otel_lib \<Rightarrow> string \<Rightarrow> string \<Rightarrow> go_error option \<times> deed list" where
  "tracing_setup L serviceName otlpEndpoint =
    (case resource_Merge L serviceName of
      Some err \<Rightarrow> (Some (Errorf ''create resource'' err), [])
    | None \<Rightarrow>
      (case grpc_NewClient L otlpEndpoint of
        Some err \<Rightarrow> (Some (Errorf ''grpc dial'' err), [])
      | None \<Rightarrow>
        (case otlptrace_New L otlpEndpoint of
          Some err \<Rightarrow> (Some (Errorf ''create exporter'' err), [DialCollector otlpEndpoint])
        | None \<Rightarrow> (None, [DialCollector otlpEndpoint, SetTracerProvider serviceName,
            SetPropagators [''TraceContext'', ''Baggage'']]))))"

definition tracing_Register :: "otel_lib \<Rightarrow> Config \<Rightarrow> go_error option \<times> deed list" where
  "tracing_Register L cfg =
    (if \<not> TracingEnabled cfg then (None, [Say Info ''tracing disabled'' []])
     else case tracing_setup L (ServiceName cfg) (OTLPEndpoint cfg) of
       (Some err, deeds) \<Rightarrow> (Some (Errorf ''init tracing'' err), deeds)
     | (None, deeds) \<Rightarrow> (None, deeds @
         [Say Info ''tracing enabled'' [(''otlp_endpoint'', AText (OTLPEndpoint cfg))], AppendHook ITracing]))"

subsection \<open>The program\<close>

text \<open>
  What \<^verbatim>\<open>main\<close> hands to fx: the constructors with the parts they take (the configuration is
  supplied, the life cycle is fx's own), and the functions to invoke, in their order.
\<close>

fun takes :: "part \<Rightarrow> part list" where
  "takes PConfig = []"
| "takes PLogger = [PConfig]"
| "takes PInfra = [PLogger]"
| "takes PPostgresConfig = [PConfig]"
| "takes PRedisConfig = [PConfig]"
| "takes PProducerConfig = [PConfig]"
| "takes PConsumerConfig = [PConfig]"
| "takes PPostgres = [PPostgresConfig, PLogger]"
| "takes PRedis = [PRedisConfig, PLogger]"
| "takes PProducer = [PProducerConfig, PLogger]"
| "takes PRepository = [PPostgres, PRedis, PLogger]"
| "takes PService = [PRepository, PProducer, PLogger]"
| "takes PHandler = [PService, PLogger]"
| "takes PHeartbeatConsumer = [PConsumerConfig, PRepository, PLogger]"
| "takes ITracing = [PConfig, PLogger]"
| "takes IMigrations = [PConfig, PLogger]"
| "takes IConsumer = [PHeartbeatConsumer]"
| "takes IServer = [PConfig, PLogger, PInfra, PHandler]"

definition invoked :: "part list" where
  "invoked = [ITracing, IMigrations, IConsumer, IServer]"

text \<open>The parts that register a stop hook; tracing does when it is enabled.\<close>

definition has_stop_hook :: "Config \<Rightarrow> part \<Rightarrow> bool" where
  "has_stop_hook cfg p \<longleftrightarrow>
    p \<in> {PPostgres, PRedis, PProducer, IConsumer, IServer} \<or> p = ITracing \<and> TracingEnabled cfg"

text \<open>
  The documentation of fx: \<open>order\<close> is the order in which it calls the constructors and the
  invoked functions when none fails. Each is called at most once and after everything it
  takes, and the invoked functions in the order they were given. Stop hooks run in the
  reverse of the order in which they were appended.
\<close>

definition fx_order :: "part list \<Rightarrow> bool" where
  "fx_order xs \<longleftrightarrow> distinct xs \<and> subseq invoked xs \<and>
    (\<forall>a \<in> set xs. \<forall>b \<in> set (takes a). subseq [b, a] xs)"

definition stop_sequence :: "Config \<Rightarrow> part list \<Rightarrow> part list" where
  "stop_sequence cfg xs = rev (filter (has_stop_hook cfg) xs)"

definition uses :: "part \<Rightarrow> part \<Rightarrow> bool" where
  "uses a b \<longleftrightarrow> b \<in> set (takes a)"

text \<open>The constructors that succeed append the hooks that \<open>has_stop_hook\<close> speaks of.\<close>

lemma stop_hooks_appended:
  "postgres_New L pg = (Inr p, ds) \<Longrightarrow> AppendHook PPostgres \<in> set ds"
  "redis_New R rc = (Inr c, ds) \<Longrightarrow> AppendHook PRedis \<in> set ds"
  "producer_New pc = (w, ds) \<Longrightarrow> AppendHook PProducer \<in> set ds"
  "tracing_Register T cfg = (None, ds) \<Longrightarrow>
    AppendHook ITracing \<in> set ds \<longleftrightarrow> has_stop_hook cfg ITracing"
  by (auto simp: postgres_New_def redis_New_def producer_New_def tracing_Register_def tracing_setup_def
      has_stop_hook_def Let_def split: sum.splits option.splits if_splits)

subsection \<open>Facts about the order of start and stop\<close>

lemma subseq_members: "subseq [a, b] xs \<Longrightarrow> a \<in> set xs \<and> b \<in> set xs"
  by (induction xs) (auto simp: subseq_singleton_left split: if_splits)

lemma subseq_pair_rev: "subseq [a, b] xs \<Longrightarrow> subseq [b, a] (rev xs)"
proof (induction xs)
  case (Cons x xs)
  show ?case
  proof (cases "x = a")
    case True
    with Cons.prems have "subseq [b] (rev xs)" by (simp add: subseq_singleton_left)
    then have "subseq ([b] @ [a]) (rev xs @ [a])" by (rule list_emb_append_mono) simp
    with True show ?thesis by simp
  next
    case False
    with Cons have "subseq [b, a] (rev xs)" by simp
    then show ?thesis by (simp add: subseq_rev_drop_many)
  qed
qed simp

lemma subseq_pair_trans:
  "distinct xs \<Longrightarrow> subseq [a, b] xs \<Longrightarrow> subseq [b, c] xs \<Longrightarrow> subseq [a, c] xs"
proof (induction xs)
  case (Cons x xs)
  show ?case
  proof (cases "x = a")
    case True
    with Cons.prems have "b \<in> set xs" "b \<noteq> a" by (auto simp: subseq_singleton_left split: if_splits)
    with Cons.prems(3) True have "subseq [b, c] xs" by simp
    then have "c \<in> set xs" by (simp add: subseq_members)
    with True show ?thesis by (simp add: subseq_singleton_left)
  next
    case False
    with Cons.prems(2) have ab: "subseq [a, b] xs" by simp
    then have "b \<in> set xs" by (simp add: subseq_members)
    with Cons.prems(1) have "x \<noteq> b" by auto
    with Cons.prems(3) have "subseq [b, c] xs" by simp
    with Cons.IH Cons.prems(1) ab False show ?thesis by simp
  qed
qed simp

text \<open>Whatever a part uses, directly or not, was there before it.\<close>

lemma used_before:
  assumes order: "fx_order xs" and "uses^++ a b" "a \<in> set xs"
  shows "subseq [b, a] xs"
  using assms(2,3)
proof (induction rule: tranclp_induct)
  case (base b)
  with order show ?case by (auto simp: fx_order_def uses_def)
next
  case (step b c)
  then have ba: "subseq [b, a] xs" by blast
  moreover have "subseq [c, b] xs"
    using order step.hyps(2) subseq_members [OF ba] by (auto simp: fx_order_def uses_def)
  ultimately show ?case using order subseq_pair_trans by (auto simp: fx_order_def)
qed

lemma stops_before:
  assumes "subseq [b, a] xs" "has_stop_hook cfg a" "has_stop_hook cfg b"
  shows "subseq [a, b] (stop_sequence cfg xs)"
proof -
  have "subseq (filter (has_stop_hook cfg) [b, a]) (filter (has_stop_hook cfg) xs)"
    using assms(1) by (rule subseq_filter)
  with assms(2,3) show ?thesis by (simp add: stop_sequence_def subseq_pair_rev)
qed

lemma uses_paths:
  "uses^++ IServer PService" "uses^++ PService PProducer" "uses^++ PService PRepository"
  "uses^++ PRepository PPostgres" "uses^++ PRepository PRedis" "uses^++ IConsumer PRepository"
proof -
  have "uses^++ IServer PHandler" "uses^++ PHandler PService"
      "uses^++ IConsumer PHeartbeatConsumer" "uses^++ PHeartbeatConsumer PRepository"
    by (simp_all add: uses_def tranclp.r_into_trancl)
  then show "uses^++ IServer PService" "uses^++ IConsumer PRepository" by simp_all
qed (simp_all add: uses_def tranclp.r_into_trancl)

subsection \<open>The order of start and stop\<close>

text \<open>
  The order of start and stop: in whichever order fx calls the constructors that respects
  what they take, the migrations have run before the consumer and the server are registered,
  and on a stop the server goes first, before the consumer, the producer and the stores its
  requests use, and the consumer before the stores it writes to.
\<close>

lemma stop_order:
  assumes order: "fx_order xs"
  shows "subseq [IMigrations, IConsumer, IServer] xs \<and>
    (\<forall>(a, b) \<in> {(IServer, IConsumer), (IServer, PProducer), (IServer, PPostgres), (IServer, PRedis),
        (IConsumer, PPostgres), (IConsumer, PRedis)}. subseq [a, b] (stop_sequence cfg xs))"
proof -
  have inv: "subseq [ITracing, IMigrations, IConsumer, IServer] xs"
    using order by (simp add: fx_order_def invoked_def)
  have "subseq [IMigrations, IConsumer, IServer] [ITracing, IMigrations, IConsumer, IServer]" by simp
  with inv have mig: "subseq [IMigrations, IConsumer, IServer] xs" using subseq_order.trans by blast
  have "subseq [IConsumer, IServer] [IMigrations, IConsumer, IServer]" by simp
  with mig have cs: "subseq [IConsumer, IServer] xs" using subseq_order.trans by blast
  note before = used_before [OF order] stops_before
  note trans = tranclp_trans [OF uses_paths(1)]
  have "subseq [PProducer, IServer] xs" "subseq [PPostgres, IServer] xs" "subseq [PRedis, IServer] xs"
      "subseq [PPostgres, IConsumer] xs" "subseq [PRedis, IConsumer] xs"
    using subseq_members [OF cs] uses_paths used_before [OF order] by (meson tranclp_trans)+
  with cs mig show ?thesis by (simp add: stops_before has_stop_hook_def)
qed

text \<open>An order that fx may take.\<close>

definition depth_first :: "part list" where
  "depth_first = [PConfig, PLogger, ITracing, IMigrations, PConsumerConfig, PPostgresConfig, PPostgres,
     PRedisConfig, PRedis, PRepository, PHeartbeatConsumer, IConsumer, PInfra, PProducerConfig,
     PProducer, PService, PHandler, IServer]"

lemma stop_order_witness:
  "subseq [IServer, PPostgres] (stop_sequence default_Config depth_first)"
proof -
  have "fx_order depth_first" by (simp add: fx_order_def depth_first_def invoked_def)
  from stop_order [OF this, of default_Config] show ?thesis by simp
qed

subsection \<open>What is promised\<close>

text \<open>
  C38. Opening and closing: the constructor of the pool that fails leaves no pool open and no
  hook behind, one that succeeds leaves one open pool with the hook that closes it, and the
  migrations close what they open on every path, having failed exactly when opening failed or
  the migration failed with anything but nothing to do. The constructor of the Redis client
  that fails leaves its client open.
\<close>

theorem nothing_left_open:
  "(case postgres_New L cfg of
      (Inl _, ds) \<Rightarrow> count_list ds OpenPool = count_list ds ClosePool \<and> AppendHook PPostgres \<notin> set ds
    | (Inr _, ds) \<Rightarrow> count_list ds OpenPool = 1 \<and> ClosePool \<notin> set ds \<and> AppendHook PPostgres \<in> set ds) \<and>
   (case RunMigrations M dsn path of (r, ds) \<Rightarrow>
      count_list ds OpenMigrations = count_list ds CloseMigrations \<and>
      (r = None \<longleftrightarrow> migrate_New M (''file://'' @ path) dsn = None \<and>
        (case migrate_Up M of None \<Rightarrow> True | Some e \<Rightarrow> errors_Is e MigrateNoChange))) \<and>
   (case redis_New R rcfg of
      (Inl _, ds) \<Rightarrow> ds = [OpenRedis] | (Inr _, ds) \<Rightarrow> AppendHook PRedis \<in> set ds)"
  by (simp add: postgres_New_def RunMigrations_def redis_New_def migrate_closing_def migrations_applied_def Let_def
      split: sum.split option.split)

text \<open>
  The settings of the clients: a positive setting of the configuration is used, any other
  leaves the default of the library or of the DSN alone. So the reader always asks for at
  least one byte, the writer always waits for all replicas, and no negative number reaches
  the pool.
\<close>

lemma client_settings:
  "r_MinBytes (NewConsumer cc) = (if cc_MinBytes cc > 0 then cc_MinBytes cc else 1000) \<and>
   r_MaxBytes (NewConsumer cc) = (if cc_MaxBytes cc > 0 then cc_MaxBytes cc else 10000000) \<and>
   r_MaxWait (NewConsumer cc) = max 0 (cc_MaxWait cc) \<and>
   r_GroupID (NewConsumer cc) = cc_GroupID cc \<and>
   w_RequiredAcks (NewProducer pc) = RequireAll \<and> w_Async (NewProducer pc) = pc_Async pc \<and>
   w_BatchTimeout (NewProducer pc) = max 0 (pc_BatchTimeout pc) \<and>
   w_BatchSize (NewProducer pc) = max 0 (pc_BatchSize pc) \<and>
   ro_PoolSize (redis_settings rc) = max 0 (PoolSize rc) \<and>
   pl_MaxConns (pool_settings pg p) = (if MaxConns pg > 0 then MaxConns pg else pl_MaxConns p) \<and>
   pl_MinConns (pool_settings pg p) = (if MinConns pg > 0 then MinConns pg else pl_MinConns p) \<and>
   pool_settings (pg\<lparr>ConnTimeout := t\<rparr>) p = pool_settings pg p"
  by (simp add: NewConsumer_def NewProducer_def redis_settings_def pool_settings_def Let_def)

end
