(* ===== verification/Lifecycle.thy ===== *)
theory Lifecycle
  imports Startup Server
begin

text \<open>
  The program from start to stop: what ^**main^** lets fx build, the hooks that the parts append
  to its life cycle (in ^**internal/server/server.go^**, ^**internal/session/consumer.go^**,
  ^**internal/kafka/producer.go^**, ^**internal/postgres/postgres.go^**, ^**internal/redis/redis.go^** and
  ^**internal/tracing/tracing.go^**), and what is left open at the end.
\<close>

subsection \<open>Building the parts\<close>

record libraries =
  lib_pgx :: pgx_lib
  lib_migrate :: migrate_lib
  lib_redis :: redis_lib
  lib_otel :: otel_lib

text \<open>What the constructors and the invoked functions answer and do; the others only make structs.\<close>

definition build :: "libraries \<Rightarrow> Config \<Rightarrow> part \<Rightarrow> go_error option \<times> deed list" where
  "build L cfg p = (case p of
      PPostgres \<Rightarrow> (case postgres_New (lib_pgx L) (Postgres cfg) of
        (Inl err, ds) \<Rightarrow> (Some err, ds) | (Inr _, ds) \<Rightarrow> (None, ds))
    | PRedis \<Rightarrow> (case redis_New (lib_redis L) (Redis cfg) of
        (Inl err, ds) \<Rightarrow> (Some err, ds) | (Inr _, ds) \<Rightarrow> (None, ds))
    | PProducer \<Rightarrow> (None, snd (producer_New (Kafka cfg)))
    | PHeartbeatConsumer \<Rightarrow> (None, [OpenReader])
    | ITracing \<Rightarrow> tracing_Register (lib_otel L) cfg
    | IMigrations \<Rightarrow> RunMigrations (lib_migrate L) (DSN (Postgres cfg)) ''./migrations''
    | IConsumer \<Rightarrow> (None, [AppendHook IConsumer])
    | IServer \<Rightarrow> (None, [AppendHook IServer])
    | _ \<Rightarrow> (None, []))"

subsection \<open>The hooks\<close>

text \<open>What the calls of the hooks answer.\<close>

record answers =
  writer_Close :: "go_error option"
  reader_Close :: "go_error option"
  client_Close :: "go_error option"
  tracer_Shutdown :: "go_error option"
  tcp_Listen :: "string \<Rightarrow> go_error option"
  srv_Serve :: "go_error option"
  srv_Shutdown :: shutdown

text \<open>The state the hooks change: the readiness of the server, and what was done.\<close>

record process =
  p_infra :: Infra
  p_deeds :: "deed list"

definition does :: "deed list \<Rightarrow> process \<Rightarrow> process" where
  "does ds P = P\<lparr>p_deeds := p_deeds P @ ds\<rparr>"

definition consumer_OnStart :: "process \<Rightarrow> go_error option \<times> process" where
  "consumer_OnStart P = (None, does [StartConsumer] P)"

definition consumer_OnStop :: "answers \<Rightarrow> process \<Rightarrow> go_error option \<times> process" where
  "consumer_OnStop A P = (reader_Close A, does [CancelConsumer, CloseReader] P)"

definition producer_OnStop :: "answers \<Rightarrow> process \<Rightarrow> go_error option \<times> process" where
  "producer_OnStop A P = (writer_Close A, does [Say Info ''closing kafka producer'' [], CloseWriter] P)"

definition postgres_OnStop :: "process \<Rightarrow> go_error option \<times> process" where
  "postgres_OnStop P = (None, does [Say Info ''closing postgres pool'' [], ClosePool] P)"

definition redis_OnStop :: "answers \<Rightarrow> process \<Rightarrow> go_error option \<times> process" where
  "redis_OnStop A P = (client_Close A, does [Say Info ''closing redis connection'' [], CloseRedis] P)"

definition tracing_OnStop :: "answers \<Rightarrow> process \<Rightarrow> go_error option \<times> process" where
  "tracing_OnStop A P = (tracer_Shutdown A, does [Say Info ''shutting down tracer provider'' [], ShutdownTracer] P)"

definition listen_and_serve :: "answers \<Rightarrow> Config \<Rightarrow> process \<Rightarrow> go_error option \<times> process" where
  "listen_and_serve A cfg P =
    (case server_OnStart (server_addr (HTTPPort cfg)) (tcp_Listen A) of (r, serving) \<Rightarrow>
      (r, if serving
          then does [Listening (server_addr (HTTPPort cfg)),
            Say Info ''http server listening'' [(''addr'', AText (server_addr (HTTPPort cfg)))], StartServing] P
          else P))"

text \<open>The goroutine that serves, when it ends: an error is logged and nothing else happens.\<close>

definition serve_goroutine :: "answers \<Rightarrow> process \<Rightarrow> process" where
  "serve_goroutine A P =
    (if StartServing \<in> set (p_deeds P)
     then case srv_Serve A of
         Some err \<Rightarrow> does [Say Error_level ''http server error'' [(''error'', AErr err)]] P
       | None \<Rightarrow> P
     else P)"

definition stop_serving :: "answers \<Rightarrow> process \<Rightarrow> go_error option \<times> process" where
  "stop_serving A P =
    (case server_OnStop (srv_Shutdown A) (p_infra P) of (r, h) \<Rightarrow>
      (r, does [Unready, Say Info ''shutting down http server'' [], ShutdownServer] (P\<lparr>p_infra := h\<rparr>)))"

text \<open>The hooks by the part that appended them; the parts without one of the two leave it nil.\<close>

definition OnStart :: "answers \<Rightarrow> Config \<Rightarrow> part \<Rightarrow> process \<Rightarrow> go_error option \<times> process" where
  "OnStart A cfg p P = (case p of
      IConsumer \<Rightarrow> consumer_OnStart P
    | IServer \<Rightarrow> listen_and_serve A cfg P
    | _ \<Rightarrow> (None, P))"

definition OnStop :: "answers \<Rightarrow> part \<Rightarrow> process \<Rightarrow> go_error option \<times> process" where
  "OnStop A p P = (case p of
      IServer \<Rightarrow> stop_serving A P
    | IConsumer \<Rightarrow> consumer_OnStop A P
    | PProducer \<Rightarrow> producer_OnStop A P
    | PPostgres \<Rightarrow> postgres_OnStop P
    | PRedis \<Rightarrow> redis_OnStop A P
    | ITracing \<Rightarrow> tracing_OnStop A P
    | _ \<Rightarrow> (None, P))"

subsection \<open>The life of the program\<close>

text \<open>
  The documentation of fx, for a start whose constructors all succeed: the start hooks are
  called in the order in which they were appended, up to the first one that fails; then, or
  on a signal, the stop hooks of the parts that have started are called in the reverse
  order, all of them, whatever they answer (as long as the stop timeout has not passed).
\<close>

definition fx_runs :: "(part \<Rightarrow> bool) \<Rightarrow> part list \<Rightarrow> part list \<Rightarrow> part list \<Rightarrow> bool" where
  "fx_runs begins hooks begun stops \<longleftrightarrow>
    prefix begun hooks \<and> (\<forall>p \<in> set (butlast begun). begins p) \<and>
    (begun = hooks \<or> begun \<noteq> [] \<and> \<not> begins (last begun)) \<and>
    stops = rev (filter begins begun)"

definition starts :: "answers \<Rightarrow> Config \<Rightarrow> part \<Rightarrow> bool" where
  "starts A cfg p \<longleftrightarrow> fst (OnStart A cfg p \<lparr>p_infra = New_Infra, p_deeds = []\<rparr>) = None"

definition call_all :: "(part \<Rightarrow> process \<Rightarrow> go_error option \<times> process) \<Rightarrow> part list \<Rightarrow> process \<Rightarrow> process" where
  "call_all hook ps P = fold (\<lambda>p P. snd (hook p P)) ps P"

text \<open>
  Building stops at the first constructor or invoked function that fails. \<^verbatim>\<open>Run\<close> then
  ends the program without calling a hook: neither are the start hooks called, nor are the
  stop hooks of the parts that were built.
\<close>

fun build_all :: "libraries \<Rightarrow> Config \<Rightarrow> part list \<Rightarrow> go_error option \<times> deed list" where
  "build_all L cfg [] = (None, [])"
| "build_all L cfg (p # ps) =
    (case build L cfg p of
      (Some err, ds) \<Rightarrow> (Some err, ds)
    | (None, ds) \<Rightarrow> (case build_all L cfg ps of (r, es) \<Rightarrow> (r, ds @ es)))"

text \<open>Everything that is done when the parts are built in the order \<open>xs\<close>.\<close>

definition main_run ::
  "libraries \<Rightarrow> answers \<Rightarrow> Config \<Rightarrow> part list \<Rightarrow> part list \<Rightarrow> part list \<Rightarrow> process" where
  "main_run L A cfg xs begun stops =
    (case build_all L cfg xs of
      (Some err, ds) \<Rightarrow> \<lparr>p_infra = New_Infra, p_deeds = ds\<rparr>
    | (None, ds) \<Rightarrow>
        call_all (OnStop A) stops (serve_goroutine A
          (call_all (OnStart A cfg) begun \<lparr>p_infra = New_Infra, p_deeds = ds\<rparr>)))"

subsection \<open>Facts\<close>

lemma build_all_ok:
  "\<forall>p \<in> set xs. fst (build L cfg p) = None \<Longrightarrow>
    build_all L cfg xs = (None, concat (map (snd \<circ> build L cfg) xs))"
  by (induction xs) (auto split: prod.split option.split)

lemma build_all_failed:
  assumes "\<exists>p \<in> set xs. fst (build L cfg p) \<noteq> None"
  obtains ys p zs err where "xs = ys @ p # zs" "\<forall>q \<in> set ys. fst (build L cfg q) = None"
    "fst (build L cfg p) = Some err"
    "build_all L cfg xs = (Some err, concat (map (snd \<circ> build L cfg) (ys @ [p])))"
proof -
  obtain ys p zs where xs: "xs = ys @ p # zs" "\<forall>q \<in> set ys. fst (build L cfg q) = None"
      "fst (build L cfg p) \<noteq> None"
    using split_list_first_prop [OF assms] by blast
  then obtain err where "fst (build L cfg p) = Some err" by blast
  moreover have "build_all L cfg (ys @ p # zs) = (Some err, concat (map (snd \<circ> build L cfg) (ys @ [p])))"
    using xs(2) calculation by (induction ys) (auto split: prod.split option.split)
  ultimately show thesis using that xs by blast
qed

text \<open>A hook adds its deeds, which do not depend on the state.\<close>

definition start_deeds :: "answers \<Rightarrow> Config \<Rightarrow> part \<Rightarrow> deed list" where
  "start_deeds A cfg p = p_deeds (snd (OnStart A cfg p \<lparr>p_infra = New_Infra, p_deeds = []\<rparr>))"

definition stop_deeds :: "answers \<Rightarrow> part \<Rightarrow> deed list" where
  "stop_deeds A p = p_deeds (snd (OnStop A p \<lparr>p_infra = New_Infra, p_deeds = []\<rparr>))"

lemmas hook_defs = OnStart_def OnStop_def consumer_OnStart_def consumer_OnStop_def producer_OnStop_def
  postgres_OnStop_def redis_OnStop_def tracing_OnStop_def listen_and_serve_def stop_serving_def
  server_OnStart_def server_OnStop_def does_def Let_def

lemma starts_iff: "starts A cfg p \<longleftrightarrow> p = IServer \<longrightarrow> tcp_Listen A (server_addr (HTTPPort cfg)) = None"
  by (cases p) (simp_all add: starts_def hook_defs split: option.split)

lemma start_deeds_simps:
  "start_deeds A cfg p = (case p of
      IConsumer \<Rightarrow> [StartConsumer]
    | IServer \<Rightarrow> if starts A cfg IServer
        then [Listening (server_addr (HTTPPort cfg)),
          Say Info ''http server listening'' [(''addr'', AText (server_addr (HTTPPort cfg)))], StartServing]
        else []
    | _ \<Rightarrow> [])"
  by (cases p) (simp_all add: start_deeds_def starts_iff hook_defs split: option.split)

lemma stop_deeds_simps:
  "stop_deeds A p = (case p of
      IServer \<Rightarrow> [Unready, Say Info ''shutting down http server'' [], ShutdownServer]
    | IConsumer \<Rightarrow> [CancelConsumer, CloseReader]
    | PProducer \<Rightarrow> [Say Info ''closing kafka producer'' [], CloseWriter]
    | PPostgres \<Rightarrow> [Say Info ''closing postgres pool'' [], ClosePool]
    | PRedis \<Rightarrow> [Say Info ''closing redis connection'' [], CloseRedis]
    | ITracing \<Rightarrow> [Say Info ''shutting down tracer provider'' [], ShutdownTracer]
    | _ \<Rightarrow> [])"
  by (cases p) (simp_all add: stop_deeds_def hook_defs split: shutdown.split)

lemma hook_state:
  "snd (OnStart A cfg p P) = P\<lparr>p_deeds := p_deeds P @ start_deeds A cfg p\<rparr>"
  "snd (OnStop A p P) = P\<lparr>p_infra := (if p = IServer then SetReady False (p_infra P) else p_infra P),
     p_deeds := p_deeds P @ stop_deeds A p\<rparr>"
  by (cases p; simp add: start_deeds_def hook_defs split: option.split)
    (cases p; simp add: stop_deeds_def hook_defs split: shutdown.split)

lemma call_starts:
  "call_all (OnStart A cfg) ps P = P\<lparr>p_deeds := p_deeds P @ concat (map (start_deeds A cfg) ps)\<rparr>"
  by (induction ps arbitrary: P) (simp_all add: call_all_def hook_state)

lemma call_stops:
  "call_all (OnStop A) ps P =
    P\<lparr>p_infra := (if IServer \<in> set ps then SetReady False (p_infra P) else p_infra P),
      p_deeds := p_deeds P @ concat (map (stop_deeds A) ps)\<rparr>"
  by (induction ps arbitrary: P) (simp_all add: call_all_def hook_state SetReady_def)

definition serving :: "answers \<Rightarrow> Config \<Rightarrow> bool" where
  "serving A cfg \<longleftrightarrow> tcp_Listen A (server_addr (HTTPPort cfg)) = None"

lemma start_deeds_set:
  "d \<in> set (start_deeds A cfg p) \<longleftrightarrow> p = IConsumer \<and> d = StartConsumer \<or> p = IServer \<and> serving A cfg \<and>
    d \<in> {Listening (server_addr (HTTPPort cfg)), Say Info ''http server listening'' [(''addr'', AText (server_addr (HTTPPort cfg)))], StartServing}"
  by (cases p) (auto simp: start_deeds_simps starts_iff serving_def)

lemma stop_deeds_set:
  "d \<in> set (stop_deeds A p) \<longleftrightarrow> (p, d) \<in>
    {(IServer, Unready), (IServer, Say Info ''shutting down http server'' []), (IServer, ShutdownServer),
     (IConsumer, CancelConsumer), (IConsumer, CloseReader),
     (PProducer, Say Info ''closing kafka producer'' []), (PProducer, CloseWriter),
     (PPostgres, Say Info ''closing postgres pool'' []), (PPostgres, ClosePool),
     (PRedis, Say Info ''closing redis connection'' []), (PRedis, CloseRedis),
     (ITracing, Say Info ''shutting down tracer provider'' []), (ITracing, ShutdownTracer)}"
  by (cases p) (auto simp: stop_deeds_simps)

lemma start_deeds_once: "count_list (start_deeds A cfg p) d = of_bool (d \<in> set (start_deeds A cfg p))"
  by (cases p) (auto simp: start_deeds_simps)

lemma stop_deeds_once: "count_list (stop_deeds A p) d = of_bool (d \<in> set (stop_deeds A p))"
  by (cases p) (simp_all add: stop_deeds_simps)

text \<open>Counting and ordering what a list of parts does.\<close>

lemma count_concat_map:
  assumes "distinct ps" "\<And>q. q \<in> set ps \<Longrightarrow> q \<noteq> p \<Longrightarrow> d \<notin> set (f q)"
  shows "count_list (concat (map f ps)) d = (if p \<in> set ps then count_list (f p) d else 0)"
  using assms by (induction ps) (auto intro!: count_notin)

lemma subseq_concat_map:
  assumes "a \<in> set (f p)" "b \<in> set (f q)"
  shows "subseq [p, q] ps \<Longrightarrow> subseq [a, b] (concat (map f ps))"
proof (induction ps)
  case (Cons x ps)
  show ?case
  proof (cases "x = p")
    case True
    with Cons.prems have "subseq [a] (f x)" "subseq [b] (concat (map f ps))"
      using assms by (auto simp: subseq_singleton_left split: if_splits)
    then have "subseq ([a] @ [b]) (f x @ concat (map f ps))" by (rule list_emb_append_mono)
    then show ?thesis by simp
  next
    case False
    with Cons have "subseq [a, b] (concat (map f ps))" by simp
    then show ?thesis by (simp add: subseq_drop_many)
  qed
qed simp

lemma server_uses:
  "uses^++ IServer PProducer" "uses^++ IServer PPostgres" "uses^++ IServer PRedis"
  by (rule tranclp_trans [OF uses_paths(1,2)]
      tranclp_trans [OF uses_paths(1) tranclp_trans [OF uses_paths(3,4)]]
      tranclp_trans [OF uses_paths(1) tranclp_trans [OF uses_paths(3,5)]])+

text \<open>Every part that has a stop hook has it appended before the server.\<close>

lemma hooks_before_server:
  assumes order: "fx_order xs" and "has_stop_hook cfg p" "p \<noteq> IServer" "p \<in> set xs"
  shows "subseq [p, IServer] xs"
proof -
  have inv: "subseq [ITracing, IMigrations, IConsumer, IServer] xs"
    using order by (simp add: fx_order_def invoked_def)
  have "subseq [ITracing, IServer] [ITracing, IMigrations, IConsumer, IServer]"
      "subseq [IConsumer, IServer] [ITracing, IMigrations, IConsumer, IServer]" by simp_all
  from this [THEN subseq_order.trans, OF inv]
  have "subseq [ITracing, IServer] xs" "subseq [IConsumer, IServer] xs" by simp_all
  moreover from this have "IServer \<in> set xs" by (simp add: subseq_members)
  note server_uses [THEN used_before [OF order], OF this]
  ultimately show ?thesis using assms(2,3) by (auto simp: has_stop_hook_def)
qed

lemma parts_built:
  assumes order: "fx_order xs"
  shows "{ITracing, IMigrations, IConsumer, IServer, PPostgres, PRedis, PProducer, PHeartbeatConsumer} \<subseteq> set xs"
proof -
  have "subseq invoked xs" using order by (simp add: fx_order_def)
  then have inv: "p \<in> set xs" if "p \<in> set invoked" for p
    using that subseq_order.trans [of "[p]" invoked xs] by (simp add: subseq_singleton_left)
  then have "IServer \<in> set xs" "IConsumer \<in> set xs" "ITracing \<in> set xs" "IMigrations \<in> set xs"
    by (simp_all add: invoked_def)
  moreover have "uses^++ IConsumer PHeartbeatConsumer" by (simp add: uses_def tranclp.r_into_trancl)
  note this [THEN used_before [OF order], OF calculation(2)] server_uses [THEN used_before [OF order], OF calculation(1)]
  note this [THEN subseq_members]
  ultimately show ?thesis by simp
qed

lemma subseq_antisym_pair: "distinct xs \<Longrightarrow> subseq [a, b] xs \<Longrightarrow> \<not> subseq [b, a] xs"
  by (induction xs) (auto simp: subseq_singleton_left split: if_splits dest: subseq_members)

text \<open>
  Only the hook of the server can fail to start, and it is the last one: every start hook is
  called, and every part but a server that cannot listen is stopped.
\<close>

lemma hooks_called:
  assumes order: "fx_order xs"
    and run: "fx_runs (starts A cfg) (filter (has_stop_hook cfg) xs) begun stops"
  shows "begun = filter (has_stop_hook cfg) xs \<and> stops = filter (starts A cfg) (stop_sequence cfg xs)"
proof -
  let ?H = "filter (has_stop_hook cfg) xs"
  have "begun = ?H"
  proof (rule ccontr)
    assume "begun \<noteq> ?H"
    with run obtain zs where zs: "?H = begun @ zs" "zs \<noteq> []" and "begun \<noteq> []" "\<not> starts A cfg (last begun)"
      by (auto simp: fx_runs_def prefix_def)
    then have "IServer \<in> set begun" by (metis starts_iff last_in_set)
    obtain z where z: "z \<in> set zs" using zs(2) by (meson last_in_set)
    have "distinct ?H" using order by (simp add: fx_order_def)
    with zs(1) z \<open>IServer \<in> set begun\<close> have "z \<noteq> IServer" by auto
    have "z \<in> set ?H" using zs(1) z by simp
    with hooks_before_server [OF order, of cfg z] \<open>z \<noteq> IServer\<close> have "subseq [z, IServer] xs" by simp
    then have "subseq (filter (has_stop_hook cfg) [z, IServer]) ?H" by (rule subseq_filter)
    with \<open>z \<in> set ?H\<close> have "subseq [z, IServer] ?H" by (simp add: has_stop_hook_def)
    moreover have "subseq ([IServer] @ [z]) (begun @ zs)"
      using z \<open>IServer \<in> set begun\<close> by (intro list_emb_append_mono) (simp_all add: subseq_singleton_left)
    ultimately show False using subseq_antisym_pair \<open>distinct ?H\<close> zs(1) by fastforce
  qed
  with run show ?thesis by (simp add: fx_runs_def stop_sequence_def rev_filter)
qed

text \<open>What is done by building the parts when no constructor fails.\<close>

lemma build_deeds:
  assumes "fst (build L cfg p) = None"
  shows "count_list (snd (build L cfg p)) OpenPool = (if p = PPostgres then 1 else 0)"
    "count_list (snd (build L cfg p)) OpenRedis = (if p = PRedis then 1 else 0)"
    "count_list (snd (build L cfg p)) OpenWriter = (if p = PProducer then 1 else 0)"
    "count_list (snd (build L cfg p)) OpenReader = (if p = PHeartbeatConsumer then 1 else 0)"
    "count_list (snd (build L cfg p)) (SetTracerProvider (ServiceName cfg)) =
      (if p = ITracing \<and> TracingEnabled cfg then 1 else 0)"
    "set (snd (build L cfg p)) \<inter> {ClosePool, CloseRedis, CloseWriter, CloseReader, ShutdownTracer, StartConsumer,
      CancelConsumer, StartServing, ShutdownServer} = {}"
    "p = IMigrations \<Longrightarrow> CloseMigrations \<in> set (snd (build L cfg p))"
  using assms
  by (cases p; auto simp: build_def postgres_New_def redis_New_def producer_New_def tracing_Register_def
      tracing_setup_def RunMigrations_def migrate_closing_def migrations_applied_def Let_def
      split: sum.splits option.splits if_splits prod.splits)+

lemma built_deeds:
  "set (snd (build L cfg q)) \<inter> {StartConsumer, StartServing, Listening a, CancelConsumer, ShutdownServer,
     CloseRedis, CloseWriter, CloseReader, ShutdownTracer} = {}"
  "ClosePool \<in> set (snd (build L cfg q)) \<Longrightarrow> q = PPostgres"
  by (cases q; auto simp: build_def postgres_New_def redis_New_def producer_New_def tracing_Register_def
      tracing_setup_def RunMigrations_def migrate_closing_def migrations_applied_def Let_def
      split: sum.splits option.splits if_splits prod.splits)+

text \<open>The deeds of a life, and how often each is done.\<close>

definition serve_deeds :: "answers \<Rightarrow> Config \<Rightarrow> deed list" where
  "serve_deeds A cfg = (if serving A cfg then case srv_Serve A of
      Some err \<Rightarrow> [Say Error_level ''http server error'' [(''error'', AErr err)]] | None \<Rightarrow> [] else [])"

lemma serve_deeds_set: "d \<in> set (serve_deeds A cfg) \<longleftrightarrow> serving A cfg \<and>
    (\<exists>err. srv_Serve A = Some err \<and> d = Say Error_level ''http server error'' [(''error'', AErr err)])"
proof (cases "srv_Serve A")
  case None
  then have "serve_deeds A cfg = []" by (simp add: serve_deeds_def)
  with None show ?thesis by simp
next
  case (Some e)
  then have "serve_deeds A cfg = (if serving A cfg
      then [Say Error_level ''http server error'' [(''error'', AErr e)]] else [])"
    by (simp add: serve_deeds_def)
  with Some show ?thesis by auto
qed

lemma call_serve:
  assumes "StartServing \<in> set (p_deeds P) \<longleftrightarrow> serving A cfg"
  shows "serve_goroutine A P = P\<lparr>p_deeds := p_deeds P @ serve_deeds A cfg\<rparr>"
  using assms by (simp add: serve_goroutine_def serve_deeds_def does_def split: option.split)

lemma main_deeds:
  assumes order: "fx_order xs"
    and run: "fx_runs (starts A cfg) (filter (has_stop_hook cfg) xs) begun stops"
    and built: "\<forall>p \<in> set xs. fst (build L cfg p) = None"
  shows "p_deeds (main_run L A cfg xs begun stops) = concat (map (snd \<circ> build L cfg) xs) @
      concat (map (start_deeds A cfg) begun) @ serve_deeds A cfg @ concat (map (stop_deeds A) stops)"
    "ready (p_infra (main_run L A cfg xs begun stops)) \<longleftrightarrow> \<not> serving A cfg"
    "distinct xs \<and> distinct begun \<and> distinct stops"
    "p \<in> set begun \<longleftrightarrow> p \<in> set xs \<and> has_stop_hook cfg p"
    "p \<in> set stops \<longleftrightarrow> p \<in> set xs \<and> has_stop_hook cfg p \<and> (p = IServer \<longrightarrow> serving A cfg)"
proof -
  note called = hooks_called [OF order run]
  have "distinct xs" using order by (simp add: fx_order_def)
  with called show "distinct xs \<and> distinct begun \<and> distinct stops" by (simp add: stop_sequence_def)
  show "p \<in> set begun \<longleftrightarrow> p \<in> set xs \<and> has_stop_hook cfg p"
    "p \<in> set stops \<longleftrightarrow> p \<in> set xs \<and> has_stop_hook cfg p \<and> (p = IServer \<longrightarrow> serving A cfg)" for p
    using called by (auto simp: stop_sequence_def starts_iff serving_def)
  note members = this
  let ?P = "call_all (OnStart A cfg) begun \<lparr>p_infra = New_Infra, p_deeds = concat (map (snd \<circ> build L cfg) xs)\<rparr>"
  have "StartServing \<notin> set (snd (build L cfg p))" if "p \<in> set xs" for p
    using build_deeds(6) [of L cfg p] built that by auto
  moreover have "IServer \<in> set begun"
    using members(1) parts_built [OF order] by (simp add: has_stop_hook_def)
  ultimately have "StartServing \<in> set (p_deeds ?P) \<longleftrightarrow> serving A cfg"
    by (auto simp: call_starts start_deeds_set)
  then have "main_run L A cfg xs begun stops =
      call_all (OnStop A) stops (?P\<lparr>p_deeds := p_deeds ?P @ serve_deeds A cfg\<rparr>)"
    by (simp add: main_run_def build_all_ok [OF built] call_serve)
  with members(2) [of IServer] parts_built [OF order]
  show "ready (p_infra (main_run L A cfg xs begun stops)) \<longleftrightarrow> \<not> serving A cfg"
    "p_deeds (main_run L A cfg xs begun stops) = concat (map (snd \<circ> build L cfg) xs) @
      concat (map (start_deeds A cfg) begun) @ serve_deeds A cfg @ concat (map (stop_deeds A) stops)"
    by (simp_all add: call_starts call_stops New_Infra_def SetReady_def has_stop_hook_def)
qed

lemma main_counts:
  assumes hyps: "fx_order xs" "fx_runs (starts A cfg) (filter (has_stop_hook cfg) xs) begun stops"
    and built: "\<forall>p \<in> set xs. fst (build L cfg p) = None"
    and ds: "ds = p_deeds (main_run L A cfg xs begun stops)"
  shows "count_list ds OpenPool = 1" "count_list ds ClosePool = 1"
    "count_list ds OpenRedis = 1" "count_list ds CloseRedis = 1"
    "count_list ds OpenWriter = 1" "count_list ds CloseWriter = 1"
    "count_list ds OpenReader = 1" "count_list ds CloseReader = 1"
    "count_list ds StartConsumer = 1" "count_list ds CancelConsumer = 1"
    "count_list ds (SetTracerProvider (ServiceName cfg)) = of_bool (TracingEnabled cfg)"
    "count_list ds ShutdownTracer = of_bool (TracingEnabled cfg)"
    "count_list ds StartServing = of_bool (serving A cfg)" "count_list ds ShutdownServer = of_bool (serving A cfg)"
proof -
  note deeds = main_deeds [OF hyps built]
  have parts: "{ITracing, IMigrations, IConsumer, IServer, PPostgres, PRedis, PProducer, PHeartbeatConsumer} \<subseteq> set xs"
    by (rule parts_built [OF hyps(1)])
  have "fst (build L cfg q) = None" if "q \<in> set xs" for q using built that by blast
  note bd = build_deeds [OF this]
  have total: "count_list ds d = count_list (snd (build L cfg p)) d +
      (if has_stop_hook cfg p then count_list (start_deeds A cfg p) d else 0) +
      (if has_stop_hook cfg p \<and> (p = IServer \<longrightarrow> serving A cfg) then count_list (stop_deeds A p) d else 0)"
    if "p \<in> set xs" "d \<notin> set (serve_deeds A cfg)"
      "\<And>q. q \<in> set xs \<Longrightarrow> q \<noteq> p \<Longrightarrow> d \<notin> set (snd (build L cfg q)) \<union> set (start_deeds A cfg q) \<union> set (stop_deeds A q)"
    for p d
  proof -
    have "count_list (concat (map (snd \<circ> build L cfg) xs)) d = count_list (snd (build L cfg p)) d"
      "count_list (concat (map (start_deeds A cfg) begun)) d =
        (if p \<in> set begun then count_list (start_deeds A cfg p) d else 0)"
      "count_list (concat (map (stop_deeds A) stops)) d =
        (if p \<in> set stops then count_list (stop_deeds A p) d else 0)"
      using deeds(3,4,5) that(1,3) by (subst count_concat_map [where p = p]; auto)+
    moreover have "count_list (serve_deeds A cfg) d = 0" using that(2) by (rule count_notin)
    ultimately show ?thesis using that(1) deeds(4,5) by (simp add: ds deeds(1))
  qed
  have none: "d \<in> set (snd (build L cfg q)) \<longleftrightarrow> count_list (snd (build L cfg q)) d \<noteq> 0" for d q
    by (simp add: count_list_0_iff)
  have closing: "count_list (snd (build L cfg q)) d = 0" if "q \<in> set xs" "d \<in> {ClosePool, CloseRedis, CloseWriter,
      CloseReader, ShutdownTracer, StartConsumer, CancelConsumer, StartServing, ShutdownServer}" for q d
    using bd(6) [OF that(1)] that(2) by (auto simp: none)
  note once = serve_deeds_set start_deeds_set stop_deeds_set start_deeds_once stop_deeds_once has_stop_hook_def none bd(1-5) closing
  show "count_list ds OpenPool = 1"
    using parts by (subst total [of PPostgres]) (simp_all add: once)
  show "count_list ds ClosePool = 1"
    using parts by (subst total [of PPostgres]) (simp_all add: once)
  show "count_list ds OpenRedis = 1"
    using parts by (subst total [of PRedis]) (simp_all add: once)
  show "count_list ds CloseRedis = 1"
    using parts by (subst total [of PRedis]) (simp_all add: once)
  show "count_list ds OpenWriter = 1"
    using parts by (subst total [of PProducer]) (simp_all add: once)
  show "count_list ds CloseWriter = 1"
    using parts by (subst total [of PProducer]) (simp_all add: once)
  show "count_list ds StartConsumer = 1"
    using parts by (subst total [of IConsumer]) (simp_all add: once)
  show "count_list ds CancelConsumer = 1"
    using parts by (subst total [of IConsumer]) (simp_all add: once)
  show "count_list ds CloseReader = 1"
    using parts by (subst total [of IConsumer]) (simp_all add: once)
  show "count_list ds OpenReader = 1"
    using parts by (subst total [of PHeartbeatConsumer]) (simp_all add: once)
  show "count_list ds (SetTracerProvider (ServiceName cfg)) = of_bool (TracingEnabled cfg)"
    using parts by (subst total [of ITracing]) (simp_all add: once)
  show "count_list ds ShutdownTracer = of_bool (TracingEnabled cfg)"
    using parts by (subst total [of ITracing]) (simp_all add: once)
  show "count_list ds StartServing = of_bool (serving A cfg)"
    using parts by (subst total [of IServer]) (simp_all add: once)
  show "count_list ds ShutdownServer = of_bool (serving A cfg)"
    using parts by (subst total [of IServer]) (simp_all add: once)
qed

text \<open>What is done in which order.\<close>

lemma main_order:
  assumes hyps: "fx_order xs" "fx_runs (starts A cfg) (filter (has_stop_hook cfg) xs) begun stops"
    and built: "\<forall>p \<in> set xs. fst (build L cfg p) = None"
    and ds: "ds = p_deeds (main_run L A cfg xs begun stops)"
  shows "subseq [CloseMigrations, StartConsumer] ds" "serving A cfg \<Longrightarrow> subseq [StartConsumer, StartServing] ds"
    "subseq [CancelConsumer, ClosePool] ds" "subseq [CancelConsumer, CloseRedis] ds"
    "serving A cfg \<Longrightarrow> (q, b) \<in> {(IConsumer, CancelConsumer), (PProducer, CloseWriter), (PPostgres, ClosePool),
      (PRedis, CloseRedis)} \<Longrightarrow> subseq [ShutdownServer, b] ds"
proof -
  note deeds = main_deeds [OF hyps built] and called = hooks_called [OF hyps]
  note ordered = main_deeds(1) [OF hyps built, folded ds] start_deeds_simps stop_deeds_simps starts_iff serving_def
  have parts: "IMigrations \<in> set xs" "IConsumer \<in> set xs" using parts_built [OF hyps(1)] by simp_all
  have early: "subseq [a, b] ds" if "a \<in> set (concat (map (snd \<circ> build L cfg) xs))" "b \<in> set (concat (map (start_deeds A cfg) begun))"
    for a b
  proof -
    have "subseq ([a] @ [b]) (concat (map (snd \<circ> build L cfg) xs) @ concat (map (start_deeds A cfg) begun) @
        serve_deeds A cfg @ concat (map (stop_deeds A) stops))"
      using that by (intro list_emb_append_mono) (simp_all add: subseq_singleton_left)
    then show ?thesis using deeds(1) by (simp add: ds)
  qed
  have late: "subseq [a, b] ds" if "subseq [p, q] stops" "a \<in> set (stop_deeds A p)" "b \<in> set (stop_deeds A q)" for a b p q
    using subseq_concat_map [OF that(2,3,1)] deeds(1) by (simp add: ds list_emb_append2)
  have stops: "subseq [p, q] stops" if "(p, q) \<in> {(IServer, IConsumer), (IServer, PProducer), (IServer, PPostgres),
      (IServer, PRedis), (IConsumer, PPostgres), (IConsumer, PRedis)}" "p = IServer \<Longrightarrow> serving A cfg" for p q
  proof -
    have "subseq [p, q] (stop_sequence cfg xs)" using that(1) stop_order [OF hyps(1), of cfg] by auto
    then have "subseq (filter (starts A cfg) [p, q]) stops" using called subseq_filter by metis
    moreover have "starts A cfg p" "starts A cfg q" using that by (auto simp: starts_iff serving_def)
    ultimately show ?thesis by simp
  qed
  show "subseq [CancelConsumer, ClosePool] ds"
    using late [OF stops, of IConsumer PPostgres] by (simp add: stop_deeds_simps)
  show "subseq [CancelConsumer, CloseRedis] ds"
    using late [OF stops, of IConsumer PRedis] by (simp add: stop_deeds_simps)
  show "subseq [ShutdownServer, b] ds" if "serving A cfg" "(q, b) \<in> {(IConsumer, CancelConsumer),
      (PProducer, CloseWriter), (PPostgres, ClosePool), (PRedis, CloseRedis)}" for q b
    by (rule late [OF stops, of IServer q]) (use that in \<open>auto simp: stop_deeds_set\<close>)
  have begun: "IConsumer \<in> set begun" "IServer \<in> set begun" "subseq [IConsumer, IServer] begun"
    using deeds(4) parts_built [OF hyps(1)] called
      subseq_filter [OF hooks_before_server [OF hyps(1), of cfg IConsumer], of "has_stop_hook cfg"]
    by (simp_all add: has_stop_hook_def)
  have "CloseMigrations \<in> set (snd (build L cfg IMigrations))"
    using build_deeds(7) [of L cfg IMigrations] built parts(1) by simp
  then have "CloseMigrations \<in> set (concat (map (snd \<circ> build L cfg) xs))" using parts(1) by auto
  moreover have "StartConsumer \<in> set (concat (map (start_deeds A cfg) begun))"
    using begun(1) by (auto simp: start_deeds_set)
  ultimately show "subseq [CloseMigrations, StartConsumer] ds" by (rule early)
  show "subseq [StartConsumer, StartServing] ds" if "serving A cfg"
  proof -
    have "subseq [StartConsumer, StartServing] (concat (map (start_deeds A cfg) begun))"
      using that by (intro subseq_concat_map [OF _ _ begun(3)]) (simp_all add: start_deeds_simps starts_iff serving_def)
    then show ?thesis using deeds(1) by (simp add: ds list_emb_append2 list_emb_prefix)
  qed
qed

subsection \<open>What is promised\<close>


text \<open>
  C37. A start that breaks serves nothing: when a constructor, the migrations or the setup of
  tracing fails, the program ends with the first error in the order of building. What was built
  before stays as it is, for no hook is called: no message is consumed, nothing listens, and of
  what was opened only the migrations and the pool that cannot be reached are closed again.
\<close>

theorem broken_start_serves_nothing:
  assumes broken: "\<exists>p \<in> set xs. fst (build L cfg p) \<noteq> None"
  shows "\<exists>ys p zs err. xs = ys @ p # zs \<and> (\<forall>q \<in> set ys. fst (build L cfg q) = None) \<and>
    fst (build L cfg p) = Some err \<and> fst (build_all L cfg xs) = Some err \<and>
    p_deeds (main_run L A cfg xs begun stops) = concat (map (snd \<circ> build L cfg) (ys @ [p])) \<and>
    set (p_deeds (main_run L A cfg xs begun stops)) \<inter> {StartConsumer, StartServing,
      Listening (server_addr (HTTPPort cfg)), CancelConsumer, ShutdownServer, CloseRedis, CloseWriter,
      CloseReader, ShutdownTracer} = {} \<and>
    (ClosePool \<in> set (p_deeds (main_run L A cfg xs begun stops)) \<longrightarrow> p = PPostgres)"
proof (rule build_all_failed [OF broken])
  fix ys p zs err
  assume xs: "xs = ys @ p # zs" "\<forall>q \<in> set ys. fst (build L cfg q) = None" "fst (build L cfg p) = Some err"
    and all: "build_all L cfg xs = (Some err, concat (map (snd \<circ> build L cfg) (ys @ [p])))"
  have ds: "p_deeds (main_run L A cfg xs begun stops) = concat (map (snd \<circ> build L cfg) (ys @ [p]))"
    by (simp only: main_run_def all prod.case option.case process.select_convs)
  have "ClosePool \<notin> set (concat (map (snd \<circ> build L cfg) ys))"
    using xs(2) build_deeds(6) by fastforce
  with built_deeds xs all ds show ?thesis
    by (intro exI [of _ ys] exI [of _ p] exI [of _ zs] exI [of _ err]) auto
qed

definition sample_libraries :: libraries where
  "sample_libraries = \<lparr>
     lib_pgx = \<lparr>ParseConfig = (\<lambda>_. Inr \<lparr>pl_Host = ''localhost'', pl_MaxConns = 4, pl_MinConns = 0, pl_MaxConnLifetime = 0,
         pl_MaxConnIdleTime = 0, pl_Tracer = False\<rparr>),
       NewWithConfig = (\<lambda>_. None), pg_Ping = (\<lambda>_. None)\<rparr>,
     lib_migrate = \<lparr>migrate_New = (\<lambda>_ _. None), migrate_Up = None,
       migrate_Version = ((1, False), None), migrate_Close = (None, None)\<rparr>,
     lib_redis = \<lparr>InstrumentTracing = (\<lambda>_. None), InstrumentMetrics = (\<lambda>_. None), redis_Ping = (\<lambda>_. None)\<rparr>,
     lib_otel = \<lparr>resource_Merge = (\<lambda>_. None), grpc_NewClient = (\<lambda>_. None), otlptrace_New = (\<lambda>_. None)\<rparr>\<rparr>"

text \<open>The port is taken, and closing the writer fails.\<close>

definition port_taken :: answers where
  "port_taken = \<lparr>writer_Close = Some (Opaque ''flush failed''), reader_Close = None, client_Close = None,
     tracer_Shutdown = None, tcp_Listen = (\<lambda>_. Some (Opaque ''address already in use'')), srv_Serve = None,
     srv_Shutdown = ShutdownReturned None\<rparr>"

text \<open>The database cannot be reached when the migrations are set up.\<close>

definition unreachable :: libraries where
  "unreachable = sample_libraries\<lparr>lib_migrate := (lib_migrate sample_libraries)
     \<lparr>migrate_New := (\<lambda>_ _. Some (Opaque ''connection refused''))\<rparr>\<rparr>"

lemma broken_start_serves_nothing_witness:
  "fst (build_all unreachable default_Config depth_first)
      = Some (Errorf ''init migrations'' (Opaque ''connection refused'')) \<and>
    StartServing \<notin> set (p_deeds (main_run unreachable port_taken default_Config depth_first [] []))"
proof -
  have failed: "fst (build unreachable default_Config IMigrations) \<noteq> None"
    by (simp add: build_def RunMigrations_def unreachable_def sample_libraries_def)
  have "IMigrations \<in> set depth_first" by (simp add: depth_first_def)
  with failed have "\<exists>p \<in> set depth_first. fst (build unreachable default_Config p) \<noteq> None" by blast
  from broken_start_serves_nothing [OF this, of port_taken "[]" "[]"]
  have "StartServing \<notin> set (p_deeds (main_run unreachable port_taken default_Config depth_first [] []))" by auto
  moreover have "fst (build_all unreachable default_Config depth_first)
      = Some (Errorf ''init migrations'' (Opaque ''connection refused''))"
    by (simp add: depth_first_def build_def RunMigrations_def unreachable_def sample_libraries_def
        tracing_Register_def tracing_setup_def default_Config_def)
  ultimately show ?thesis by blast
qed


end
