(* ===== verification/Pool.thy ===== *)
theory Pool
  imports Effects
begin

text \<open>
  Pools of threads over one machine: a move of a pool is the arrival of a thread, the start
  of a goroutine that some thread has spawned, or one call of one thread; the heap and the
  services are shared. What the threads are is an argument: a label for each, the labels that
  may arrive, the program of a label, and the label of a goroutine.
\<close>

fun finished :: "'a prog \<Rightarrow> bool" where
  "finished (Done _) = True"
| "finished _ = False"

record ('l, 'a) pool =
  arrives :: "'l \<Rightarrow> bool"
  program :: "'l \<Rightarrow> 'a prog"
  goroutine :: "closure \<Rightarrow> 'l"

text \<open>A state is a list of threads, each with what is left of it, and the machine.\<close>

inductive steps ::
  "('l, 'a) pool \<Rightarrow> 'w env \<Rightarrow> ('l \<times> 'a prog) list \<times> 'w machine \<Rightarrow> ('l \<times> 'a prog) list \<times> 'w machine \<Rightarrow> bool"
  for P E where
  arrive: "arrives P t \<Longrightarrow> steps P E (ts, m) (ts @ [(t, program P t)], m)"
| go: "spawned m = g # gs \<Longrightarrow>
    steps P E (ts, m) (ts @ [(goroutine P g, program P (goroutine P g))], m\<lparr>spawned := gs\<rparr>)"
| call: "i < length ts \<Longrightarrow> ts ! i = (t, p) \<Longrightarrow> \<not> finished p \<Longrightarrow> step E p m = (p', m') \<Longrightarrow>
    steps P E (ts, m) (ts[i := (t, p')], m')"

inductive_cases stepsE: "steps P E (ts, m) s'"

lemma steps_labels: "steps P E s s' \<Longrightarrow> fst ` set (fst s) \<subseteq> fst ` set (fst s')"
proof (induction rule: steps.induct)
  case (call i ts t p m p' m')
  then have "map fst (ts[i := (t, p')]) = map fst ts"
    by (metis fst_conv list_update_id map_update)
  then show ?case by (metis fst_conv image_set subset_refl)
qed auto

text \<open>A scheduler that is told what to do: a choice that is not possible does nothing.\<close>

datatype 'l choice = Arrive 'l | Spawn | Turn nat

fun act ::
  "('l, 'a) pool \<Rightarrow> 'w env \<Rightarrow> 'l choice \<Rightarrow> ('l \<times> 'a prog) list \<times> 'w machine \<Rightarrow> ('l \<times> 'a prog) list \<times> 'w machine"
where
  "act P E (Arrive t) (ts, m) =
    (if arrives P t then (ts @ [(t, program P t)], m) else (ts, m))"
| "act P E Spawn (ts, m) =
    (case spawned m of
      [] \<Rightarrow> (ts, m)
    | g # gs \<Rightarrow> (ts @ [(goroutine P g, program P (goroutine P g))], m\<lparr>spawned := gs\<rparr>))"
| "act P E (Turn i) (ts, m) =
    (if i < length ts
     then (case ts ! i of (t, p) \<Rightarrow> (case step E p m of (p', m') \<Rightarrow> (ts[i := (t, p')], m')))
     else (ts, m))"

definition play ::
  "('l, 'a) pool \<Rightarrow> 'w env \<Rightarrow> 'l choice list \<Rightarrow> ('l \<times> 'a prog) list \<times> 'w machine \<Rightarrow>
   ('l \<times> 'a prog) list \<times> 'w machine" where
  "play P E cs s = fold (act P E) cs s"

lemma play_simps [simp]:
  "play P E [] s = s" "play P E (c # cs) s = play P E cs (act P E c s)"
  "play P E (cs @ ds) s = play P E ds (play P E cs s)"
  by (simp_all add: play_def)

lemma step_finished: "finished p \<Longrightarrow> step E p m = (p, m)"
  by (cases p) simp_all

lemma act_steps: "act P E c s = s \<or> steps P E s (act P E c s)"
proof (cases s)
  case (Pair ts m)
  show ?thesis
  proof (cases c)
    case (Arrive t)
    then show ?thesis using Pair steps.arrive [of P t E ts m] by simp
  next
    case Spawn
    then show ?thesis using Pair steps.go [of m _ _ P E ts] by (cases "spawned m") simp_all
  next
    case (Turn i)
    obtain t p where tp: "ts ! i = (t, p)" by fastforce
    obtain p' m' where st: "step E p m = (p', m')" by fastforce
    show ?thesis
    proof (cases "i < length ts")
      case True
      show ?thesis
      proof (cases "finished p")
        case fin: True
        then have "ts[i := (t, p)] = ts" using tp by (metis list_update_id)
        then show ?thesis using step_finished [OF fin, of E m] Turn Pair True tp by simp
      next
        case False
        then show ?thesis using steps.call [OF True tp False st] Turn Pair True tp st by simp
      qed
    qed (use Turn Pair in simp)
  qed
qed

text \<open>What the scheduler makes of a state can be reached from it.\<close>

lemma play_reachable: "(steps P E)^** s (play P E cs s)"
proof (induction cs arbitrary: s)
  case (Cons c cs)
  then show ?case using act_steps [of P E c s] by (metis converse_rtranclp_into_rtranclp play_simps(2))
qed simp

subsection \<open>Letting one thread run\<close>

lemma play_bind:
  assumes "i < length ts" "ts ! i = (t, bind p f)" "run E p m = (x, m')"
  shows "\<exists>n. play P E (replicate n (Turn i)) (ts, m) = (ts[i := (t, f x)], m')"
  using assms
proof (induction p m arbitrary: ts rule: prog_step_induct [where E = E])
  case (Done y m)
  then have "ts[i := (t, f x)] = ts" by (metis bind.simps(1) fst_conv list_update_id run.simps(1))
  with Done show ?case by (intro exI [of _ 0]) simp
next
  case (Step p m)
  show ?case
  proof (cases "finished p")
    case True
    then obtain y where p: "p = Done y" by (cases p) simp_all
    with Step.prems have "ts[i := (t, f x)] = ts" "m' = m"
      by (metis bind.simps(1) fst_conv list_update_id run.simps(1), simp)
    then show ?thesis by (intro exI [of _ 0]) simp
  next
    case False
    obtain p' m1 where s: "step E p m = (p', m1)" by fastforce
    then have sb: "step E (bind p f) m = (bind p' f, m1)"
      using False by (cases p) (auto split: prod.splits)
    let ?ts = "ts[i := (t, bind p' f)]"
    have "run E p' m1 = (x, m')" using Step.prems(3) s by (simp add: run_step [of E p])
    with Step.IH [of ?ts] Step.prems(1) s
    obtain n where "play P E (replicate n (Turn i)) (?ts, m1) = (?ts[i := (t, f x)], m')" by auto
    then have "play P E (replicate (Suc n) (Turn i)) (ts, m) = (ts[i := (t, f x)], m')"
      using Step.prems(1,2) sb by simp
    then show ?thesis by blast
  qed
qed

lemma reach_bind:
  assumes "i < length ts" "ts ! i = (t, bind p f)" "run E p m = (x, m')"
  shows "(steps P E)^** (ts, m) (ts[i := (t, f x)], m')"
  using play_bind [OF assms] play_reachable [of P E "(ts, m)"] by metis

lemma reach_end:
  assumes "i < length ts" "ts ! i = (t, p)" "run E p m = (x, m')"
  shows "(steps P E)^** (ts, m) (ts[i := (t, Done x)], m')"
  using reach_bind [of i ts t p Done] assms by simp

text \<open>A thread that runs alone from its arrival to its end.\<close>

lemma reach_alone:
  assumes "arrives P t" "run E (program P t) m = (x, m')"
  shows "(steps P E)^** ([], m) ([(t, Done x)], m')"
proof -
  have "steps P E ([], m) ([(t, program P t)], m)"
    using steps.arrive [OF assms(1), of E "[]"] by simp
  moreover have "(steps P E)^** ([(t, program P t)], m) ([(t, Done x)], m')"
    using reach_end [of 0 "[(t, program P t)]" t "program P t", OF _ _ assms(2)] by simp
  ultimately show ?thesis by (rule converse_rtranclp_into_rtranclp)
qed

subsection \<open>Threads that end\<close>

text \<open>
  No call waits for another thread, so a thread without a loop needs a bounded number of
  turns, whatever the others do and whatever the services answer.
\<close>

primrec ends_in :: "'a prog \<Rightarrow> nat \<Rightarrow> bool" where
  "ends_in (Done x) n = True"
| "ends_in (RedisGet k c) n = (0 < n \<and> (\<forall>r. ends_in (c r) (n - 1)))"
| "ends_in (RedisSet k v t c) n = (0 < n \<and> (\<forall>r. ends_in (c r) (n - 1)))"
| "ends_in (PgQueryRow q k c) n = (0 < n \<and> (\<forall>r. ends_in (c r) (n - 1)))"
| "ends_in (PgExec q a c) n = (0 < n \<and> (\<forall>r. ends_in (c r) (n - 1)))"
| "ends_in (WriteMessages g c) n = (0 < n \<and> (\<forall>r. ends_in (c r) (n - 1)))"
| "ends_in (FetchMessage c) n = (0 < n \<and> (\<forall>r. ends_in (c r) (n - 1)))"
| "ends_in (CommitMessages g c) n = (0 < n \<and> (\<forall>r. ends_in (c r) (n - 1)))"
| "ends_in (TraceInject c) n = (0 < n \<and> (\<forall>r. ends_in (c r) (n - 1)))"
| "ends_in (TraceExtract h p) n = (0 < n \<and> ends_in p (n - 1))"
| "ends_in (SpanCall op p) n = (0 < n \<and> ends_in p (n - 1))"
| "ends_in (SpanRecording c) n = (0 < n \<and> (\<forall>r. ends_in (c r) (n - 1)))"
| "ends_in (SpanTraceID c) n = (0 < n \<and> (\<forall>r. ends_in (c r) (n - 1)))"
| "ends_in (Metric x p) n = (0 < n \<and> ends_in p (n - 1))"
| "ends_in (RandRead l c) n = (0 < n \<and> (\<forall>r. ends_in (c r) (n - 1)))"
| "ends_in (Now c) n = (0 < n \<and> (\<forall>r. ends_in (c r) (n - 1)))"
| "ends_in (New s c) n = (0 < n \<and> (\<forall>r. ends_in (c r) (n - 1)))"
| "ends_in (Load a c) n = (0 < n \<and> (\<forall>r. ends_in (c r) (n - 1)))"
| "ends_in (Store a s p) n = (0 < n \<and> ends_in p (n - 1))"
| "ends_in (Go g p) n = (0 < n \<and> ends_in p (n - 1))"
| "ends_in (Log l t a p) n = (0 < n \<and> ends_in p (n - 1))"

lemma ends_in_0: "ends_in p 0 \<Longrightarrow> finished p"
  by (cases p) simp_all

lemma ends_in_step: "ends_in p n \<Longrightarrow> ends_in (fst (step E p m)) (n - 1)"
  by (cases p) (simp_all add: case_prod_unfold)

lemma finished_step: "finished p \<Longrightarrow> finished (fst (step E p m))"
  by (simp add: step_finished)

lemma ends_in_mono: "ends_in p n \<Longrightarrow> n \<le> k \<Longrightarrow> ends_in p k"
proof (induction p arbitrary: n k)
  case (Done x)
  then show ?case by simp
qed (simp; (meson diff_le_mono order_less_le_trans rangeI)?)+

lemma ends_in_bind:
  "ends_in p a \<Longrightarrow> (\<And>x. ends_in (f x) b) \<Longrightarrow> ends_in (bind p f) (a + b)"
proof (induction p arbitrary: a)
  case (Done x)
  then show ?case by (auto intro: ends_in_mono [of _ b])
qed (simp; (metis Nat.add_diff_assoc2 Suc_leI rangeI One_nat_def)?)+

lemma ends_in_bindI:
  "ends_in p a \<Longrightarrow> a \<le> n \<Longrightarrow> (\<And>x. ends_in (f x) (n - a)) \<Longrightarrow> ends_in (bind p f) n"
  using ends_in_bind [of p a f "n - a"] by simp

lemma act_thread:
  assumes "i < length ts"
  shows "i < length (fst (act P E c (ts, m)))"
    "c \<noteq> Turn i \<Longrightarrow> fst (act P E c (ts, m)) ! i = ts ! i"
    "\<exists>m'. fst (act P E (Turn i) (ts, m)) ! i = (fst (ts ! i), fst (step E (snd (ts ! i)) m'))"
proof -
  show "i < length (fst (act P E c (ts, m)))"
    using assms by (cases c) (auto split: list.split prod.split)
  show "fst (act P E c (ts, m)) ! i = ts ! i" if "c \<noteq> Turn i"
    using assms that
    by (cases c) (auto simp: nth_append split: list.split prod.split)
  show "\<exists>m'. fst (act P E (Turn i) (ts, m)) ! i = (fst (ts ! i), fst (step E (snd (ts ! i)) m'))"
    using assms by (auto simp: case_prod_unfold)
qed

lemma play_ends:
  assumes "i < length ts" "ends_in (snd (ts ! i)) n" "n \<le> count_list cs (Turn i)"
  shows "finished (snd (fst (play P E cs (ts, m)) ! i)) \<and> fst (fst (play P E cs (ts, m)) ! i) = fst (ts ! i)"
  using assms
proof (induction cs arbitrary: ts m n)
  case Nil
  then show ?case using ends_in_0 by simp
next
  case (Cons c cs)
  obtain ts' m' where next_state: "act P E c (ts, m) = (ts', m')" by fastforce
  have i: "i < length ts'" using act_thread(1) [OF Cons.prems(1), of P E c m] next_state by simp
  show ?case
  proof (cases "c = Turn i")
    case True
    obtain m0 where ti: "ts' ! i = (fst (ts ! i), fst (step E (snd (ts ! i)) m0))"
      using act_thread(3) [OF Cons.prems(1), of P E m] next_state True by auto
    then have "ends_in (snd (ts' ! i)) (n - 1)" using ends_in_step [OF Cons.prems(2)] by simp
    from Cons.IH [OF i this, of m'] Cons.prems(3) True ti next_state show ?thesis by simp
  next
    case False
    then have "ts' ! i = ts ! i" using act_thread(2) [OF Cons.prems(1) False, of P E m] next_state by simp
    with Cons.IH [OF i, of n m'] Cons.prems False next_state show ?thesis by simp
  qed
qed

text \<open>A thread that has had enough turns is done.\<close>

lemma play_finishes:
  assumes "i < length ts" "ts ! i = (t, p)" "ends_in p n" "n \<le> count_list cs (Turn i)"
  shows "\<exists>x. fst (play P E cs (ts, m)) ! i = (t, Done x)"
proof -
  from play_ends [OF assms(1) _ assms(4), of P E m] assms(2,3)
  have "finished (snd (fst (play P E cs (ts, m)) ! i))" "fst (fst (play P E cs (ts, m)) ! i) = t" by simp_all
  then show ?thesis by (metis finished.elims(2) prod.collapse)
qed

end
