(* ===== verification/Heartbeat_Consumer.thy ===== *)
theory Heartbeat_Consumer
  imports Service
begin

text \<open>
  \<^verbatim>\<open>internal/session/consumer.go\<close>: the consumer of the heartbeat topic, which writes
  every session state it reads to the database. Messages it cannot read are logged and
  skipped; a failed write is reported to the loop of \<^verbatim>\<open>Run\<close>.
\<close>

record HeartbeatConsumer =
  hc_consumer :: reader_settings
  hc_repo_Upsert :: "addr \<Rightarrow> go_error option prog"

definition NewHeartbeatConsumer :: "ConsumerConfig \<Rightarrow> HeartbeatConsumer" where
  "NewHeartbeatConsumer cfg = \<lparr>hc_consumer = NewConsumer cfg, hc_repo_Upsert = Upsert\<rparr>"

definition handle :: "HeartbeatConsumer \<Rightarrow> HandlerFunc" where
  "handle hc msg =
    (case ParseEnvelope (msg_value msg) of
      Inl err \<Rightarrow> Log Error_level ''failed to parse heartbeat envelope''
          [(''offset'', ANum (int (msg_offset msg))), (''error'', AErr err)] (Done None)
    | Inr env \<Rightarrow>
      (case unmarshal_session (env_Payload env) of
        Inl err \<Rightarrow> Log Error_level ''failed to unmarshal heartbeat payload''
            [(''offset'', ANum (int (msg_offset msg))), (''error'', AErr (Json err))] (Done None)
      | Inr s \<Rightarrow>
          New s (\<lambda>sess.
          bind (hc_repo_Upsert hc sess) (\<lambda>r. case r of
            Some err \<Rightarrow>
              Load sess (\<lambda>s. Done (Some (Errorf (''persist heartbeat for user '' @ UserID s) err)))
          | None \<Rightarrow>
              Load sess (\<lambda>s. Log Debug ''heartbeat persisted''
                [(''user_id'', AText (UserID s)), (''position'', ANum (sint (Position s)))]
                (Done None))))))"

text \<open>
  The goroutine that \<^verbatim>\<open>RegisterConsumer\<close> starts, for at most \<open>n\<close> turns of the loop.
\<close>

definition consumer_goroutine :: "nat \<Rightarrow> HeartbeatConsumer \<Rightarrow> unit prog" where
  "consumer_goroutine n hc =
    bind (Run (hc_consumer hc) n (handle hc)) (\<lambda>r. case r of
      Some (Some err) \<Rightarrow>
        Log Error_level ''heartbeat consumer stopped with error'' [(''error'', AErr err)] (Done ())
    | _ \<Rightarrow> Done ())"

subsection \<open>What a message makes the consumer do\<close>

definition session_of_message :: "message \<Rightarrow> PlaybackSession option" where
  "session_of_message msg =
    (case ParseEnvelope (msg_value msg) of
      Inl _ \<Rightarrow> None
    | Inr env \<Rightarrow> (case unmarshal_session (env_Payload env) of Inl _ \<Rightarrow> None | Inr s \<Rightarrow> Some s))"

locale heartbeat_consumer = upsert_store E "hc_repo_Upsert hc"
  for E :: "'w env" and hc :: HeartbeatConsumer
begin

lemma handle_unreadable:
  assumes "session_of_message msg = None" and "run E (handle hc msg) m = (r, m')"
  shows "r = None \<and> world m' = world m \<and> effects (history m') = effects (history m)"
  using assms by (auto simp: session_of_message_def handle_def split: sum.splits)

lemma handle_session:
  assumes s: "session_of_message msg = Some s" and run: "run E (handle hc msg) m = (r, m')"
  shows "effects (history m') = effects (history m) @ [Did_exec (row_args s) (ok r)] \<and>
    (r = None \<or> (\<exists>err. r = Some (Errorf (''persist heartbeat for user '' @ UserID s) err)))"
proof -
  let ?m = "m\<lparr>heap := (heap m)(fresh m := s), fresh := Suc (fresh m)\<rparr>"
  obtain ur m1 where up: "run E (hc_repo_Upsert hc (fresh m)) ?m = (ur, m1)" by fastforce
  have "(r, m') = (case ur of
      Some err \<Rightarrow> (Some (Errorf (''persist heartbeat for user '' @ UserID s) err), m1)
    | None \<Rightarrow> (None, logged Debug ''heartbeat persisted''
        [(''user_id'', AText (UserID s)), (''position'', ANum (sint (Position s)))] m1))"
    using s run up upsert_frame [OF up]
    by (cases ur) (auto simp: session_of_message_def handle_def run_bind split: sum.splits)
  with upsert_exec [OF up] show ?thesis by (cases ur) auto
qed

end

interpretation consumer: heartbeat_consumer E "NewHeartbeatConsumer cfg" for E cfg
  by (unfold_locales; simp add: NewHeartbeatConsumer_def repo.upsert_frame repo.upsert_exec)

lemma effects_committed [simp]:
  "effects (history (committed E msg m)) = effects (history m)"
  by (auto simp: committed_def Let_def split: prod.split option.split)

lemma handle_leaves_offsets: "leaves_offsets E (handle (NewHeartbeatConsumer cfg))"
  by (simp add: leaves_offsets_def handle_def NewHeartbeatConsumer_def run_bind run_Upsert
      split: sum.split prod.split option.split)

text \<open>
  The event of a heartbeat can always be encoded, and the consumer reads back the
  session it was made of.
\<close>

lemma heartbeat_event_read:
  assumes "valid_time now" and "valid_time (UpdatedAt s)"
  shows "\<exists>v. heartbeat_event now s = Inr v \<and>
    (\<forall>msg. msg_value msg = v \<longrightarrow> session_of_message msg = Some (sanitize s))"
proof -
  obtain t where raw: "marshal_session s = Inr (write_object (session_members s t))"
    using marshal_session_members [OF assms(2)] by blast
  have payload: "unmarshal_session (write_object (session_members s t)) = Inr (sanitize s)"
    using unmarshal_marshal_session [OF assms(2)] raw by auto
  let ?env = "\<lparr>env_Type = ''playback.heartbeat'', env_Version = 1, env_Timestamp = now,
     env_Payload = write_object (session_members s t)\<rparr>"
  have "\<forall>(k, v) \<in> set (session_members s t). (\<forall>d. self_delimiting d v) \<and> compact_stable v"
    using session_members_ok by fast
  from ParseEnvelope_marshal [of ?env, OF _ _ this] assms(1)
  obtain data where "marshal_envelope ?env = Inr data"
      "ParseEnvelope data = Inr (?env\<lparr>env_Type := utf8_fix ''playback.heartbeat''\<rparr>)"
    by auto
  with raw payload show ?thesis
    by (auto simp: heartbeat_event_def session_of_message_def)
qed

end
