(* ===== verification/Stores.thy ===== *)
theory Stores
  imports Heartbeat_Consumer
begin

text \<open>
  What the program relies on in PostgreSQL and Redis. The table that the migration
  \<^verbatim>\<open>migrations/000001_create_playback_sessions.up.sql\<close> creates, the meaning of the two
  statements of the repository on its rows, and, as hypotheses on the environment, that
  the database executes statements with this meaning and that the cache returns what was
  set. A call may fail at any time; a failed write may or may not have happened; a cached
  entry may vanish at any time.
\<close>

subsection \<open>The table\<close>

datatype column_type = TEXT | INTEGER | VARCHAR nat | TIMESTAMPTZ

definition playback_sessions :: "(column \<times> column_type) list" where
  "playback_sessions = [(Col_user_id, TEXT), (Col_track_id, TEXT), (Col_position, INTEGER),
     (Col_status, VARCHAR 10), (Col_device_id, TEXT), (Col_updated_at, TIMESTAMPTZ)]"

text \<open>The characters of a text: the bytes that do not continue one.\<close>

definition char_count :: "string \<Rightarrow> nat" where
  "char_count s = length (filter (\<lambda>c. \<not> (128 \<le> byte c \<and> byte c < 192)) s)"

definition text_ok :: "string \<Rightarrow> bool" where
  "text_ok s \<longleftrightarrow> utf8_valid s \<and> CHR 0x00 \<notin> set s"

fun fits :: "column_type \<Rightarrow> sql_value \<Rightarrow> bool" where
  "fits TEXT (SqlText s) \<longleftrightarrow> text_ok s"
| "fits (VARCHAR n) (SqlText s) \<longleftrightarrow> text_ok s \<and> char_count s \<le> n"
| "fits INTEGER (SqlInt i) \<longleftrightarrow> - (2 ^ 31) \<le> sint i \<and> sint i < 2 ^ 31"
| "fits TIMESTAMPTZ (SqlTime t) \<longleftrightarrow> True"
| "fits _ _ \<longleftrightarrow> False"

type_synonym row = "column \<Rightarrow> sql_value option"
type_synonym table = "string \<rightharpoonup> row"

text \<open>
  The new row of an insert. A time is stored with the precision of the database, which
  \<open>pg\<close> stands for.
\<close>

fun stored_value :: "(go_time \<Rightarrow> go_time) \<Rightarrow> sql_value \<Rightarrow> sql_value" where
  "stored_value pg (SqlTime t) = SqlTime (pg t)"
| "stored_value pg v = v"

definition new_row :: "(go_time \<Rightarrow> go_time) \<Rightarrow> column list \<Rightarrow> sql_value list \<Rightarrow> row" where
  "new_row pg cols args = map_of (zip cols (map (stored_value pg) args))"

definition row_accepted :: "column list \<Rightarrow> sql_value list \<Rightarrow> bool" where
  "row_accepted cols args \<longleftrightarrow>
    list_all2 (\<lambda>c v. case map_of playback_sessions c of Some t \<Rightarrow> fits t v | None \<Rightarrow> False) cols args"

definition apply_upsert ::
  "(go_time \<Rightarrow> go_time) \<Rightarrow> upsert_stmt \<Rightarrow> sql_value list \<Rightarrow> table \<Rightarrow> table" where
  "apply_upsert pg q args tab =
    (let new = new_row pg (ins_columns q) args in
     case new (ins_conflict q) of
       Some (SqlText k) \<Rightarrow>
         (case tab k of
           None \<Rightarrow> tab(k \<mapsto> new)
         | Some old \<Rightarrow> tab(k \<mapsto> (\<lambda>c. if c \<in> set (ins_updates q) then new c else old c)))
     | _ \<Rightarrow> tab)"

definition select_row :: "select_stmt \<Rightarrow> string \<Rightarrow> table \<Rightarrow> sql_value list option" where
  "select_row q k tab =
    (case tab k of
      None \<Rightarrow> None
    | Some row \<Rightarrow> Some (List.map_filter row (sel_columns q)))"

subsection \<open>Sessions in the table\<close>

text \<open>The abstract store: a session for every user that has one.\<close>

definition stored_session :: "(go_time \<Rightarrow> go_time) \<Rightarrow> PlaybackSession \<Rightarrow> PlaybackSession" where
  "stored_session pg s = s\<lparr>UpdatedAt := pg (UpdatedAt s)\<rparr>"

definition sessions :: "table \<Rightarrow> (string \<rightharpoonup> PlaybackSession)" where
  "sessions tab u =
    (case select_row select_session u tab of
      None \<Rightarrow> None
    | Some vals \<Rightarrow> (case scan_session vals of Inl _ \<Rightarrow> None | Inr s \<Rightarrow> Some s))"

definition session_accepted :: "PlaybackSession \<Rightarrow> bool" where
  "session_accepted s \<longleftrightarrow> row_accepted (ins_columns upsert_session) (row_args s)"

text \<open>Every row of the table is a session under its own key.\<close>

definition table_ok :: "table \<Rightarrow> bool" where
  "table_ok tab \<longleftrightarrow> (\<forall>k row. tab k = Some row \<longrightarrow> (\<exists>s. sessions tab k = Some s \<and> UserID s = k \<and>
     row Col_user_id = Some (SqlText k)))"

definition row_of :: "(go_time \<Rightarrow> go_time) \<Rightarrow> PlaybackSession \<Rightarrow> row" where
  "row_of pg s = new_row pg (ins_columns upsert_session) (row_args s)"

lemma row_of_simps [simp]:
  "row_of pg s Col_user_id = Some (SqlText (UserID s))"
  "row_of pg s Col_track_id = Some (SqlText (TrackID s))"
  "row_of pg s Col_position = Some (SqlInt (Position s))"
  "row_of pg s Col_status = Some (SqlText (Status s))"
  "row_of pg s Col_device_id = Some (SqlText (DeviceID s))"
  "row_of pg s Col_updated_at = Some (SqlTime (pg (UpdatedAt s)))"
  by (simp_all add: row_of_def new_row_def upsert_session_def row_args_def)

lemma sessions_upd [simp]:
  "sessions (tab(u \<mapsto> row_of pg s)) = (sessions tab)(u \<mapsto> stored_session pg s)"
  by (simp add: fun_eq_iff sessions_def select_row_def select_session_def List.map_filter_def
      scan_session_def stored_session_def)

lemma session_accepted_iff:
  "session_accepted s \<longleftrightarrow> text_ok (UserID s) \<and> text_ok (TrackID s) \<and>
     - (2 ^ 31) \<le> sint (Position s) \<and> sint (Position s) < 2 ^ 31 \<and>
     text_ok (Status s) \<and> char_count (Status s) \<le> 10 \<and> text_ok (DeviceID s)"
  by (auto simp: session_accepted_def row_accepted_def upsert_session_def row_args_def
      playback_sessions_def)

text \<open>
  The statement of the repository replaces the whole session of its user, whether there
  was one or not, and touches no other user.
\<close>

lemma apply_upsert_session:
  assumes "table_ok tab"
  shows "apply_upsert pg upsert_session (row_args s) tab = tab(UserID s \<mapsto> row_of pg s)"
proof -
  have stmt: "ins_conflict upsert_session = Col_user_id" "c \<in> set (ins_updates upsert_session)"
    if "c \<noteq> Col_user_id" for c
    using that by (cases c; simp add: upsert_session_def)+
  have "(\<lambda>c. if c \<in> set (ins_updates upsert_session) then row_of pg s c else old c) = row_of pg s"
    if "tab (UserID s) = Some old" for old
  proof
    fix c
    show "(if c \<in> set (ins_updates upsert_session) then row_of pg s c else old c) = row_of pg s c"
      using that assms stmt(2) [of c] by (cases "c = Col_user_id") (auto simp: table_ok_def)
  qed
  then show ?thesis
    using stmt(1) [of Col_status]
    by (simp add: apply_upsert_def Let_def row_of_def [symmetric] split: option.split)
qed

lemma table_ok_upd:
  assumes "table_ok tab"
  shows "table_ok (tab(UserID s \<mapsto> row_of pg s))"
  using assms by (auto simp: table_ok_def stored_session_def)

subsection \<open>The services as an environment\<close>

text \<open>
  The laws of a service say what its own calls do, and that the calls to the others leave
  its state alone: they relate the worlds before and after by \<open>R\<close>.
\<close>

definition calls_outside_postgres :: "('w \<Rightarrow> 'w \<Rightarrow> bool) \<Rightarrow> 'w env \<Rightarrow> bool" where
  "calls_outside_postgres R E \<longleftrightarrow>
    (\<forall>k w. R w (snd (redis_get E k w))) \<and> (\<forall>k v t w. R w (snd (redis_set E k v t w))) \<and>
    (\<forall>msg w. R w (snd (kafka_write E msg w))) \<and> (\<forall>w. R w (snd (kafka_fetch E w))) \<and>
    (\<forall>msg w. R w (snd (kafka_commit E msg w))) \<and> (\<forall>w. R w (snd (trace_inject E w))) \<and>
    (\<forall>op w. R w (span_call E op w)) \<and> (\<forall>w. R w (snd (span_recording E w))) \<and>
    (\<forall>w. R w (snd (span_trace_id E w))) \<and>
    (\<forall>n w. R w (snd (rand_read E n w))) \<and>
    (\<forall>w. R w (snd (clock E w)))"

definition calls_outside_redis :: "('w \<Rightarrow> 'w \<Rightarrow> bool) \<Rightarrow> 'w env \<Rightarrow> bool" where
  "calls_outside_redis R E \<longleftrightarrow>
    (\<forall>q args w. R w (snd (pg_exec E q args w))) \<and> (\<forall>q k w. R w (snd (pg_query_row E q k w))) \<and>
    (\<forall>msg w. R w (snd (kafka_write E msg w))) \<and> (\<forall>w. R w (snd (kafka_fetch E w))) \<and>
    (\<forall>msg w. R w (snd (kafka_commit E msg w))) \<and> (\<forall>w. R w (snd (trace_inject E w))) \<and>
    (\<forall>op w. R w (span_call E op w)) \<and> (\<forall>w. R w (snd (span_recording E w))) \<and>
    (\<forall>w. R w (snd (span_trace_id E w))) \<and>
    (\<forall>n w. R w (snd (rand_read E n w))) \<and>
    (\<forall>w. R w (snd (clock E w)))"

text \<open>
  \<open>tab w\<close> is the table in the world \<open>w\<close>. A statement that succeeds was accepted by the
  types of the columns and has taken effect, one that fails may have taken effect when
  only its answer was lost; a query answers with the row of its key, and says that there
  is none only when there is none. No other call touches the table.
\<close>

definition exec_law ::
  "(go_time \<Rightarrow> go_time) \<Rightarrow> ('w \<Rightarrow> table) \<Rightarrow> go_error option \<times> 'w \<Rightarrow> upsert_stmt \<Rightarrow> sql_value list \<Rightarrow>
   'w \<Rightarrow> bool" where
  "exec_law pg tab answer q args w \<longleftrightarrow>
    row_accepted (ins_columns q) args \<and> tab (snd answer) = apply_upsert pg q args (tab w) \<or>
    fst answer \<noteq> None \<and> tab (snd answer) = tab w"

definition query_law ::
  "('w \<Rightarrow> table) \<Rightarrow> (go_error + sql_value list) \<times> 'w \<Rightarrow> select_stmt \<Rightarrow> string \<Rightarrow> 'w \<Rightarrow> bool" where
  "query_law tab answer q k w \<longleftrightarrow>
    tab (snd answer) = tab w \<and>
    (case fst answer of
      Inr vals \<Rightarrow> select_row q k (tab w) = Some vals
    | Inl e \<Rightarrow> errors_Is e PgNoRows \<longrightarrow> select_row q k (tab w) = None)"

definition postgres_laws :: "(go_time \<Rightarrow> go_time) \<Rightarrow> ('w \<Rightarrow> table) \<Rightarrow> 'w env \<Rightarrow> bool" where
  "postgres_laws pg tab E \<longleftrightarrow>
    (\<forall>q args w. exec_law pg tab (pg_exec E q args w) q args w) \<and>
    (\<forall>q k w. query_law tab (pg_query_row E q k w) q k w) \<and>
    calls_outside_postgres (\<lambda>w w'. tab w' = tab w) E"

text \<open>
  \<open>kv w\<close> is the content of the cache. An entry that is read is the entry that is there;
  every call may lose entries, and only setting one puts one there.
\<close>

definition set_law ::
  "('w \<Rightarrow> (string \<rightharpoonup> bytes)) \<Rightarrow> go_error option \<times> 'w \<Rightarrow> string \<Rightarrow> bytes \<Rightarrow> 'w \<Rightarrow> bool" where
  "set_law kv answer k v w \<longleftrightarrow>
    (\<forall>k'. k' \<noteq> k \<longrightarrow> kv (snd answer) k' \<in> {None, kv w k'}) \<and>
    (kv (snd answer) k \<in> {None, Some v} \<or>
     fst answer \<noteq> None \<and> kv (snd answer) k = kv w k)"

definition get_law ::
  "('w \<Rightarrow> (string \<rightharpoonup> bytes)) \<Rightarrow> (go_error + bytes) \<times> 'w \<Rightarrow> string \<Rightarrow> 'w \<Rightarrow> bool" where
  "get_law kv answer k w \<longleftrightarrow>
    kv (snd answer) \<subseteq>\<^sub>m kv w \<and> (\<forall>v. fst answer = Inr v \<longrightarrow> kv w k = Some v)"

definition redis_laws :: "('w \<Rightarrow> (string \<rightharpoonup> bytes)) \<Rightarrow> 'w env \<Rightarrow> bool" where
  "redis_laws kv E \<longleftrightarrow>
    (\<forall>k v t w. set_law kv (redis_set E k v t w) k v w) \<and>
    (\<forall>k w. get_law kv (redis_get E k w) k w) \<and>
    calls_outside_redis (\<lambda>w w'. kv w' \<subseteq>\<^sub>m kv w) E"

subsection \<open>The calls under the laws\<close>

lemma exec_laws:
  assumes "postgres_laws pg tab E" "redis_laws kv E" "pg_exec E q args w = (r, w')"
  shows "row_accepted (ins_columns q) args \<and> tab w' = apply_upsert pg q args (tab w) \<or>
      r \<noteq> None \<and> tab w' = tab w" "kv w' \<subseteq>\<^sub>m kv w"
proof -
  have "exec_law pg tab (pg_exec E q args w) q args w" "kv (snd (pg_exec E q args w)) \<subseteq>\<^sub>m kv w"
    using assms(1,2) by (simp_all add: postgres_laws_def redis_laws_def calls_outside_redis_def)
  with assms(3) show "row_accepted (ins_columns q) args \<and> tab w' = apply_upsert pg q args (tab w) \<or>
      r \<noteq> None \<and> tab w' = tab w" "kv w' \<subseteq>\<^sub>m kv w"
    by (simp_all add: exec_law_def)
qed

lemma query_laws:
  assumes "postgres_laws pg tab E" "redis_laws kv E" "pg_query_row E q k w = (r, w')"
  shows "query_law tab (r, w') q k w" "kv w' \<subseteq>\<^sub>m kv w"
proof -
  have "query_law tab (pg_query_row E q k w) q k w" "kv (snd (pg_query_row E q k w)) \<subseteq>\<^sub>m kv w"
    using assms(1,2) by (simp_all add: postgres_laws_def redis_laws_def calls_outside_redis_def)
  with assms(3) show "query_law tab (r, w') q k w" "kv w' \<subseteq>\<^sub>m kv w"
    by simp_all
qed

lemma get_laws:
  assumes "postgres_laws pg tab E" "redis_laws kv E" "redis_get E k w = (r, w')"
  shows "tab w' = tab w" "kv w' \<subseteq>\<^sub>m kv w" "r = Inr v \<Longrightarrow> kv w k = Some v"
proof -
  have "get_law kv (redis_get E k w) k w" "tab (snd (redis_get E k w)) = tab w"
    using assms(1,2) by (simp_all add: postgres_laws_def redis_laws_def calls_outside_postgres_def)
  with assms(3) show "tab w' = tab w" "kv w' \<subseteq>\<^sub>m kv w" "r = Inr v \<Longrightarrow> kv w k = Some v"
    by (simp_all add: get_law_def)
qed

lemma set_laws:
  assumes "postgres_laws pg tab E" "redis_laws kv E" "redis_set E k v t w = (r, w')"
  shows "tab w' = tab w" "set_law kv (r, w') k v w"
proof -
  have "set_law kv (redis_set E k v t w) k v w" "tab (snd (redis_set E k v t w)) = tab w"
    using assms(1,2) by (simp_all add: postgres_laws_def redis_laws_def calls_outside_postgres_def)
  with assms(3) show "tab w' = tab w" "set_law kv (r, w') k v w"
    by simp_all
qed

lemma clock_laws:
  assumes "postgres_laws pg tab E" "redis_laws kv E" "clock E w = (r, w')"
  shows "tab w' = tab w" "kv w' \<subseteq>\<^sub>m kv w"
proof -
  have "tab (snd (clock E w)) = tab w" "kv (snd (clock E w)) \<subseteq>\<^sub>m kv w"
    using assms(1,2)
    by (simp_all add: postgres_laws_def redis_laws_def calls_outside_postgres_def
        calls_outside_redis_def)
  with assms(3) show "tab w' = tab w" "kv w' \<subseteq>\<^sub>m kv w" by simp_all
qed

end
