(* ===== verification/Consistency.thy ===== *)
theory Consistency
  imports Stores
begin

text \<open>
  The contract of the repository and of the service over stores that keep their laws: an
  upsert is an update of the abstract store, reading finds the session that is in force
  whatever state the cache is in, and the operations of the service put a session in
  force. The executions here are sequential; the interleaving of several is another
  matter.
\<close>

definition cache_key :: "string \<Rightarrow> string" where
  "cache_key u = cacheKeyPrefix @ u"

text \<open>
  A session is in force when the database has it and the cache, if it has an entry for
  the user, has the session as it was written or as it came back from the database.
\<close>

definition in_force ::
  "(go_time \<Rightarrow> go_time) \<Rightarrow> table \<Rightarrow> (string \<rightharpoonup> bytes) \<Rightarrow> PlaybackSession \<Rightarrow> bool" where
  "in_force pg tab kv s \<longleftrightarrow>
    sessions tab (UserID s) = Some (stored_session pg s) \<and>
    (case kv (cache_key (UserID s)) of
      None \<Rightarrow> True
    | Some data \<Rightarrow> unmarshal_session data \<in> {Inr s, Inr (stored_session pg s)})"

lemma in_force_forget: "in_force pg tab kv s \<Longrightarrow> kv' \<subseteq>\<^sub>m kv \<Longrightarrow> in_force pg tab kv' s"
  by (force simp: in_force_def map_le_def split: option.splits)

subsection \<open>The repository\<close>

lemma run_Upsert_table:
  assumes laws: "postgres_laws pg tab E" "redis_laws kv E" and "table_ok (tab (world m))"
    and "run E (Upsert p) m = (r, m')"
  shows "session_accepted (heap m p) \<and>
      tab (world m') = (tab (world m))(UserID (heap m p) \<mapsto> row_of pg (heap m p)) \<or>
      r \<noteq> None \<and> tab (world m') = tab (world m)"
    "kv (world m') \<subseteq>\<^sub>m kv (world m)" "table_ok (tab (world m'))"
proof -
  obtain r' w' where "pg_exec E upsert_session (row_args (heap m p)) (world m) = (r', w')"
    by fastforce
  with exec_laws [OF laws this] assms
  show *: "session_accepted (heap m p) \<and>
      tab (world m') = (tab (world m))(UserID (heap m p) \<mapsto> row_of pg (heap m p)) \<or>
      r \<noteq> None \<and> tab (world m') = tab (world m)" "kv (world m') \<subseteq>\<^sub>m kv (world m)"
    by (auto simp: run_Upsert session_accepted_def apply_upsert_session)
  with assms(3) table_ok_upd show "table_ok (tab (world m'))" by metis
qed

lemma run_Upsert_ok:
  assumes "postgres_laws pg tab E" "redis_laws kv E" "table_ok (tab (world m))"
    and "run E (Upsert p) m = (None, m')"
  shows "session_accepted (heap m p)"
    "sessions (tab (world m')) = (sessions (tab (world m)))(UserID (heap m p) \<mapsto> stored_session pg (heap m p))"
  using run_Upsert_table(1) [OF assms] by auto

text \<open>The entry that \<^verbatim>\<open>SetCache\<close> leaves is the one it wrote, or there is none.\<close>

lemma run_SetCache_entry:
  assumes laws: "postgres_laws pg tab E" "redis_laws kv E" and "valid_session (heap m p)"
    and run: "run E (SetCache p) m = (r, m')"
    and "r = None \<or> kv (world m) (cache_key (UserID (heap m p))) = None"
  shows "tab (world m') = tab (world m)"
    "case kv (world m') (cache_key (UserID (heap m p))) of
      None \<Rightarrow> True | Some data \<Rightarrow> unmarshal_session data = Inr (heap m p)"
proof -
  obtain data where data: "marshal_session (heap m p) = Inr data"
      "unmarshal_session data = Inr (heap m p)"
    using unmarshal_marshal_session [of "heap m p"] assms(3) sanitize_id [OF assms(3)]
    by (auto simp: valid_session_def)
  obtain w where set: "redis_set E (cache_key (UserID (heap m p))) data cacheTTL (world m) = (r, w)"
      "world m' = w"
    using run data(1) by (auto simp: run_SetCache cache_key_def split: prod.splits)
  from set_laws [OF laws set(1)] set(2) data(2) assms(5)
  show "tab (world m') = tab (world m)"
    "case kv (world m') (cache_key (UserID (heap m p))) of
      None \<Rightarrow> True | Some data \<Rightarrow> unmarshal_session data = Inr (heap m p)"
    by (auto simp: set_law_def split: option.split)
qed

text \<open>
  Reading answers from the cache or from the database, changes neither, and reports that
  there is no session only when the database says so.
\<close>

definition read_from ::
  "table \<Rightarrow> (string \<rightharpoonup> bytes) \<Rightarrow> string \<Rightarrow> (go_error + addr) \<Rightarrow> (addr \<Rightarrow> PlaybackSession) \<Rightarrow> bool" where
  "read_from tab kv u r h \<longleftrightarrow>
    (case r of
      Inr p \<Rightarrow> sessions tab u = Some (h p) \<or>
        (\<exists>data. kv (cache_key u) = Some data \<and> unmarshal_session data = Inr (h p))
    | Inl e \<Rightarrow> (\<exists>e'. e = App (NewInternal ''db query failed'' e')) \<or>
        e = App (NewNotFound ''playback session not found'') \<and> sessions tab u = None)"

lemma run_get_fallback_sessions:
  assumes laws: "postgres_laws pg tab E" "redis_laws kv E"
    and run: "run E (get_fallback u) m = (r, m')"
  shows "tab (world m') = tab (world m) \<and> kv (world m') \<subseteq>\<^sub>m kv (world m) \<and>
    read_from (tab (world m)) c u r (heap m')"
proof (cases rule: get_fallback_cases [of E u m])
  case (error e q w)
  have "q = Inl e \<or> e = Opaque ''cannot scan into dest''"
    using error(2) by (auto simp: scan_session_def split: sum.splits list.splits sql_value.splits)
  with error run query_laws [OF laws error(1)] show ?thesis
    by (auto simp: query_law_def db_failure_def sessions_def read_from_def)
next
  case (found vals s w)
  with run query_laws [OF laws found(1)] show ?thesis
    by (auto simp: query_law_def sessions_def read_from_def)
qed

lemma run_Get_sessions:
  assumes laws: "postgres_laws pg tab E" "redis_laws kv E" and run: "run E (Get u) m = (r, m')"
  shows "tab (world m') = tab (world m) \<and> kv (world m') \<subseteq>\<^sub>m kv (world m) \<and>
    read_from (tab (world m)) (kv (world m)) u r (heap m')"
proof (cases rule: run_Get_cases [of E u m])
  case (hit data s w)
  with run get_laws [OF laws hit(1)] show ?thesis
    by (auto simp: cache_key_def read_from_def)
next
  case (miss m1)
  obtain g w where g: "redis_get E (cacheKeyPrefix @ u) (world m) = (g, w)" "world m1 = w"
    using miss(1) by (auto simp: after_cache_miss_def)
  have "run E (get_fallback u) m1 = (r, m')" using miss(2) run by simp
  from run_get_fallback_sessions [OF laws this, of "kv (world m)"] get_laws(1,2) [OF laws g(1)] g(2)
  show ?thesis using map_le_trans by metis
qed

text \<open>
  Degraded reads: whatever Redis does, a session in force is what \<^verbatim>\<open>Get\<close> returns, unless
  the database fails.
\<close>

lemma run_Get_in_force:
  assumes laws: "postgres_laws pg tab E" "redis_laws kv E"
    and "in_force pg (tab (world m)) (kv (world m)) s" and "run E (Get (UserID s)) m = (r, m')"
  shows "in_force pg (tab (world m')) (kv (world m')) s"
    "case r of Inr p \<Rightarrow> heap m' p \<in> {s, stored_session pg s}
     | Inl e \<Rightarrow> \<exists>e'. e = App (NewInternal ''db query failed'' e')"
  using run_Get_sessions [OF laws assms(4)] assms(3) in_force_forget
  by (auto simp: in_force_def read_from_def split: sum.splits)

subsection \<open>The service\<close>

text \<open>The common end of starting, pausing and resuming: the database, then the cache.\<close>

definition save :: "Service \<Rightarrow> string \<Rightarrow> addr \<Rightarrow> string \<Rightarrow> string \<Rightarrow> (go_error + addr) prog" where
  "save S userID sess failure warning =
    bind (repo_Upsert S sess) (\<lambda>r. case r of
      Some err \<Rightarrow> Done (Inl (App (NewInternal failure err)))
    | None \<Rightarrow> cache_or_warn S userID sess warning (Done (Inr sess)))"

text \<open>The last call was a write of the cache, and it succeeded.\<close>

definition cache_written :: "'w machine \<Rightarrow> bool" where
  "cache_written m \<longleftrightarrow> (\<exists>k v t. last (history m) = Did_set k v t True)"

lemma run_save:
  assumes laws: "postgres_laws pg tab E" "redis_laws kv E" and "table_ok (tab (world m))"
    and valid: "valid_session (heap m p)" and run: "run E (save NewService u p fl wn) m = (Inr q, m')"
    and cache: "cache_written m' \<or> kv (world m) (cache_key (UserID (heap m p))) = None"
  shows "q = p \<and> heap m' = heap m \<and> table_ok (tab (world m')) \<and> session_accepted (heap m p) \<and>
    sessions (tab (world m')) =
      (sessions (tab (world m)))(UserID (heap m p) \<mapsto> stored_session pg (heap m p)) \<and>
    in_force pg (tab (world m')) (kv (world m')) (heap m p)"
proof -
  obtain ur m1 where up: "run E (Upsert p) m = (ur, m1)" by fastforce
  with run have "ur = None" by (cases ur) (auto simp: save_def NewService_def run_bind)
  note up = up [unfolded this]
  obtain cr m2 where sc: "run E (SetCache p) m1 = (cr, m2)" by fastforce
  have end': "q = p \<and> m' = (case cr of None \<Rightarrow> m2
      | Some err \<Rightarrow> logged Warn wn [(''user_id'', AText u), (''error'', AErr err)] m2)"
    using run up sc by (cases cr) (auto simp: save_def NewService_def run_bind cache_or_warn_def)
  have heaps: "heap m1 = heap m" "heap m2 = heap m"
    using repo.upsert_frame [OF up] repo.set_cache_frame [OF sc] by simp_all
  have kv1: "kv (world m1) \<subseteq>\<^sub>m kv (world m)"
    using run_Upsert_table(2) [OF laws assms(3) up] .
  have "cr = None \<or> kv (world m1) (cache_key (UserID (heap m1 p))) = None"
    using cache end' kv1 heaps(1) by (auto simp: cache_written_def map_le_def dom_def split: option.splits)
  from run_SetCache_entry [OF laws _ sc this] heaps valid
  have "tab (world m2) = tab (world m1)"
    "case kv (world m2) (cache_key (UserID (heap m p))) of
      None \<Rightarrow> True | Some data \<Rightarrow> unmarshal_session data = Inr (heap m p)"
    by (auto split: option.splits)
  with run_Upsert_ok [OF laws assms(3) up] run_Upsert_table(3) [OF laws assms(3) up] heaps end'
  show ?thesis by (auto simp: in_force_def split: option.splits)
qed

text \<open>The clock reads as instants that JSON can carry, in UTC.\<close>

definition clock_ok :: "'w env \<Rightarrow> bool" where
  "clock_ok E \<longleftrightarrow> (\<forall>w. valid_time (fst (clock E w)))"

definition started_session :: "string \<Rightarrow> StartRequest \<Rightarrow> go_time \<Rightarrow> PlaybackSession" where
  "started_session u req now = \<lparr>UserID = u, TrackID = sr_TrackID req, Position = sr_Position req,
     Status = StatusPlaying, DeviceID = sr_DeviceID req, UpdatedAt = now\<rparr>"

lemma utf8_valid_status [simp]: "utf8_valid StatusPlaying" "utf8_valid StatusPaused"
  by (simp_all add: StatusPlaying_def StatusPaused_def byte_def)

lemma Service_Start_save:
  "Service_Start S u req =
    Now (\<lambda>now. New (started_session u req now) (\<lambda>sess.
      save S u sess ''failed to start session'' ''failed to cache new session''))"
  by (simp add: Service_Start_def save_def started_session_def)

lemma run_start_in_force:
  assumes laws: "postgres_laws pg tab E" "redis_laws kv E" "clock_ok E" "table_ok (tab (world m))"
    and valid: "utf8_valid u" "utf8_valid (sr_TrackID req)" "utf8_valid (sr_DeviceID req)"
    and run: "run E (Service_Start NewService u req) m = (Inr p, m')"
    and cache: "cache_written m' \<or> kv (world m) (cache_key u) = None"
  shows "\<exists>now. heap m' p = started_session u req now \<and>
    valid_session (started_session u req now) \<and> table_ok (tab (world m')) \<and>
    sessions (tab (world m')) =
      (sessions (tab (world m)))(u \<mapsto> stored_session pg (started_session u req now)) \<and>
    in_force pg (tab (world m')) (kv (world m')) (started_session u req now)"
proof -
  obtain now w where now: "clock E (world m) = (now, w)" by fastforce
  define s where "s = started_session u req now"
  define m0 where "m0 = m\<lparr>world := w, heap := (heap m)(fresh m := s), fresh := Suc (fresh m)\<rparr>"
  have "valid_time now" using laws(3) now by (metis clock_ok_def fst_conv)
  then have s: "valid_session (heap m0 (fresh m))" "heap m0 (fresh m) = s" "UserID s = u"
    using valid by (simp_all add: m0_def s_def started_session_def valid_session_def)
  have run': "run E (save NewService u (fresh m) ''failed to start session''
      ''failed to cache new session'') m0 = (Inr p, m')"
    using run now by (simp add: Service_Start_save m0_def s_def)
  have m0: "tab (world m0) = tab (world m)" "kv (world m0) \<subseteq>\<^sub>m kv (world m)"
    using clock_laws [OF laws(1,2) now] by (simp_all add: m0_def)
  have "cache_written m' \<or> kv (world m0) (cache_key u) = None"
    using cache m0(2) by (auto simp: map_le_def dom_def)
  with run_save [OF laws(1,2) _ s(1) run'] laws(4) m0 s show ?thesis
    by (metis s_def)
qed

lemma set_status_save:
  "set_status S st fl wn u d =
    bind (repo_Get S u) (\<lambda>r. case r of
      Inl err \<Rightarrow> Done (Inl err)
    | Inr sess \<Rightarrow>
        Load sess (\<lambda>s. Store sess (s\<lparr>Status := st\<rparr>) (
        Load sess (\<lambda>s. Store sess (s\<lparr>DeviceID := d\<rparr>) (
        Now (\<lambda>now. Load sess (\<lambda>s. Store sess (s\<lparr>UpdatedAt := now\<rparr>) (
        save S u sess fl wn))))))))"
  unfolding set_status_def save_def by (rule refl)

lemma run_set_status_in_force:
  assumes laws: "postgres_laws pg tab E" "redis_laws kv E" "clock_ok E" "table_ok (tab (world m))"
    and before: "in_force pg (tab (world m)) (kv (world m)) s" "valid_session s"
    and valid: "utf8_valid st" "utf8_valid d"
    and run: "run E (set_status NewService st fl wn (UserID s) d) m = (Inr p, m')"
    and cache: "cache_written m' \<or> kv (world m) (cache_key (UserID s)) = None"
  shows "\<exists>now. heap m' p = restamp st d now s \<and> valid_session (restamp st d now s) \<and>
    table_ok (tab (world m')) \<and>
    sessions (tab (world m')) =
      (sessions (tab (world m)))(UserID s \<mapsto> stored_session pg (restamp st d now s)) \<and>
    in_force pg (tab (world m')) (kv (world m')) (restamp st d now s)"
proof -
  obtain g m1 where got: "run E (Get (UserID s)) m = (g, m1)" by fastforce
  with run obtain q where g: "g = Inr q"
    by (cases g) (auto simp: set_status_save NewService_def run_bind)
  note got = got [unfolded g]
  obtain now w where now: "clock E (world m1) = (now, w)" by fastforce
  define m2 where "m2 = m1\<lparr>world := w, heap := (heap m1)(q := restamp st d now s)\<rparr>"
  have q: "heap m1 q \<in> {s, stored_session pg s}"
    using run_Get_in_force [OF laws(1,2) before(1) got] by simp
  have "valid_time now" using laws(3) now by (metis clock_ok_def fst_conv)
  then have s: "valid_session (heap m2 q)" "heap m2 q = restamp st d now s"
      "UserID (restamp st d now s) = UserID s"
    using before(2) valid by (simp_all add: m2_def restamp_def valid_session_def)
  have m2_eq: "m1\<lparr>world := w, heap := (heap m1)(q := restamp st d now (heap m1 q))\<rparr> = m2"
    using q by (auto simp: m2_def restamp_def stored_session_def)
  have "repo_Get NewService = Get" by (simp add: NewService_def)
  then have run': "run E (save NewService (UserID s) q fl wn) m2 = (Inr p, m')"
    unfolding m2_eq [symmetric]
    using run now got by (simp add: set_status_save run_bind restamp_def)
  have m2: "tab (world m2) = tab (world m)" "kv (world m2) \<subseteq>\<^sub>m kv (world m)"
    using clock_laws [OF laws(1,2) now] run_Get_sessions [OF laws(1,2) got]
    by (auto simp: m2_def intro: map_le_trans)
  have "cache_written m' \<or> kv (world m2) (cache_key (UserID s)) = None"
    using cache m2(2) by (auto simp: map_le_def dom_def)
  with run_save [OF laws(1,2) _ s(1) run'] laws(4) m2 s show ?thesis by metis
qed

end
