(* ===== verification/In_Memory.thy ===== *)
theory In_Memory
  imports Consistency
begin

text \<open>
  Services that keep their laws, in memory: a table, a map and a topic, each of which may
  be down, and a cache that may be full. The hypotheses on the environment hold of it, and executions of the program
  on it can be evaluated.
\<close>

record services =
  sv_table :: table
  sv_cache :: "string \<rightharpoonup> bytes"
  sv_topic :: "message list"
  sv_next :: nat
  sv_committed :: nat
  sv_ticks :: nat
  sv_recording :: bool
  sv_postgres_up :: bool
  sv_redis_up :: bool
  sv_redis_full :: bool
  sv_kafka_up :: bool

definition refused :: go_error where
  "refused = Opaque ''connection refused''"

text \<open>The clock ticks at every look at it.\<close>

definition instant :: "nat \<Rightarrow> go_time" where
  "instant n = \<lparr>t_year = 2024, t_month = 6, t_day = 1, t_hour = 12, t_min = 0, t_sec = 0,
     t_nsec = n mod 10 ^ 9, t_zone = 0\<rparr>"

definition in_memory :: "services env" where
  "in_memory = \<lparr>
    redis_get = (\<lambda>k w.
      (if \<not> sv_redis_up w then Inl refused
       else case sv_cache w k of None \<Rightarrow> Inl (Sentinel RedisNil) | Some v \<Rightarrow> Inr v, w)),
    redis_set = (\<lambda>k v t w.
      if \<not> sv_redis_up w then (Some refused, w)
      else if sv_redis_full w then (Some (Opaque ''OOM command not allowed''), w)
      else (None, w\<lparr>sv_cache := (sv_cache w)(k \<mapsto> v)\<rparr>)),
    pg_query_row = (\<lambda>q k w.
      (if \<not> sv_postgres_up w then Inl refused
       else case select_row q k (sv_table w) of None \<Rightarrow> Inl (Sentinel PgNoRows) | Some vals \<Rightarrow> Inr vals, w)),
    pg_exec = (\<lambda>q args w.
      if \<not> sv_postgres_up w then (Some refused, w)
      else if row_accepted (ins_columns q) args
      then (None, w\<lparr>sv_table := apply_upsert id q args (sv_table w)\<rparr>)
      else (Some (Opaque ''value out of range''), w)),
    kafka_write = (\<lambda>msg w.
      if \<not> sv_kafka_up w then (Some refused, w)
      else (None, w\<lparr>sv_topic := sv_topic w @ [msg\<lparr>msg_offset := length (sv_topic w)\<rparr>]\<rparr>)),
    kafka_fetch = (\<lambda>w.
      if sv_next w < length (sv_topic w)
      then (Inr (sv_topic w ! sv_next w), w\<lparr>sv_next := Suc (sv_next w)\<rparr>)
      else (Inl (Sentinel ContextCanceled), w)),
    kafka_commit = (\<lambda>msg w.
      if \<not> sv_kafka_up w then (Some refused, w)
      else (None, w\<lparr>sv_committed := Suc (msg_offset msg)\<rparr>)),
    trace_inject = (\<lambda>w. ([], w)),
    span_call = (\<lambda>op w. w\<lparr>sv_recording := (case op of SpanStart _ _ \<Rightarrow> True | SpanEnd \<Rightarrow> False
      | _ \<Rightarrow> sv_recording w)\<rparr>),
    span_recording = (\<lambda>w. (sv_recording w, w)), span_trace_id = (\<lambda>w. (None, w)),
    rand_read = (\<lambda>n w. (replicate n (char_of (sv_ticks w)), w)),
    clock = (\<lambda>w. (instant (sv_ticks w), w\<lparr>sv_ticks := Suc (sv_ticks w)\<rparr>))\<rparr>"

lemma in_memory_postgres: "postgres_laws id sv_table in_memory"
  by (auto simp: postgres_laws_def exec_law_def query_law_def calls_outside_postgres_def
      in_memory_def refused_def split: option.split)

lemma in_memory_redis: "redis_laws sv_cache in_memory"
  by (auto simp: redis_laws_def set_law_def get_law_def calls_outside_redis_def in_memory_def
      refused_def split: option.split)

text \<open>The machine over empty services that are all up.\<close>

definition all_up :: services where
  "all_up = \<lparr>sv_table = Map.empty, sv_cache = Map.empty, sv_topic = [], sv_next = 0,
     sv_committed = 0, sv_ticks = 0, sv_recording = False, sv_postgres_up = True, sv_redis_up = True, sv_redis_full = False,
     sv_kafka_up = True\<rparr>"

definition boot :: "services \<Rightarrow> services machine" where
  "boot w = \<lparr>world = w, heap = (\<lambda>_. zero_session), fresh = 0, spawned = [], history = []\<rparr>"

lemma valid_instant [simp]: "valid_time (instant n)"
  by (simp add: valid_time_def instant_def days_in_def)

lemma in_memory_clock [simp]:
  "clock in_memory w = (instant (sv_ticks w), w\<lparr>sv_ticks := Suc (sv_ticks w)\<rparr>)"
  by (simp add: in_memory_def)

lemma in_memory_heartbeat:
  assumes up: "sv_redis_up (world m)" "\<not> sv_redis_full (world m)" "sv_kafka_up (world m)"
  shows "\<exists>v m'. run in_memory (Service_Heartbeat NewService u req) m = (None, m') \<and>
    effects (history m') = effects (history m) @
      [Did_write \<lparr>msg_topic = heartbeatTopic, msg_key = u, msg_value = v, msg_headers = [],
         msg_partition = 0, msg_offset = 0\<rparr> True]"
proof -
  let ?n = "sv_ticks (world m)"
  let ?s = "heartbeat_session u req (instant ?n)"
  have t: "valid_time (UpdatedAt ?s)" by (simp add: heartbeat_session_def)
  obtain raw where raw: "marshal_session ?s = Inr raw"
    using unmarshal_marshal_session [OF t] by blast
  obtain v where v: "heartbeat_event (instant (Suc ?n)) ?s = Inr v"
    using heartbeat_event_read [OF valid_instant t] by blast
  then have "marshal_envelope \<lparr>env_Type = ''playback.heartbeat'', env_Version = 1,
      env_Timestamp = instant (Suc ?n), env_Payload = raw\<rparr> = Inr v"
    using raw by (simp add: heartbeat_event_def split: sum.splits)
  with up v raw show ?thesis
    by (simp add: Service_Heartbeat_def NewService_def cache_or_warn_def run_bind run_SetCache
        in_memory_def heartbeat_session_def Publish_def injectTraceHeaders_def NewEnvelope_def)
qed

subsection \<open>Executions\<close>

definition up :: "services \<Rightarrow> bool" where
  "up w \<longleftrightarrow> sv_postgres_up w \<and> sv_redis_up w \<and> \<not> sv_redis_full w \<and> sv_kafka_up w"

lemma in_memory_save:
  assumes "up (world m)" "session_accepted (heap m p)" "valid_time (UpdatedAt (heap m p))"
  shows "\<exists>m'. run in_memory (save NewService u p fl wn) m = (Inr p, m') \<and> cache_written m' \<and>
    up (world m')"
proof -
  obtain data where "marshal_session (heap m p) = Inr data"
    using unmarshal_marshal_session [OF assms(3)] by blast
  with assms show ?thesis
    by (simp add: save_def NewService_def cache_or_warn_def run_bind run_Upsert run_SetCache
        in_memory_def up_def session_accepted_def cache_written_def)
qed

lemma in_memory_start:
  assumes "up (world m)" "session_accepted (started_session u req (instant (sv_ticks (world m))))"
  shows "\<exists>m'. run in_memory (Service_Start NewService u req) m = (Inr (fresh m), m') \<and>
    cache_written m' \<and> up (world m')"
proof -
  let ?s = "started_session u req (instant (sv_ticks (world m)))"
  let ?m = "m\<lparr>world := (world m)\<lparr>sv_ticks := Suc (sv_ticks (world m))\<rparr>,
    heap := (heap m)(fresh m := ?s), fresh := Suc (fresh m)\<rparr>"
  have "up (world ?m)" using assms(1) by (simp add: up_def)
  from in_memory_save [of ?m "fresh m" u, OF this] assms(2) show ?thesis
    by (simp add: Service_Start_save started_session_def)
qed

text \<open>Services that have one session, in the database only.\<close>

definition with_session :: "PlaybackSession \<Rightarrow> services" where
  "with_session s = all_up\<lparr>sv_table := [UserID s \<mapsto> row_of id s]\<rparr>"

lemma empty_table [simp]: "sessions Map.empty = Map.empty" "table_ok Map.empty"
  by (simp_all add: fun_eq_iff sessions_def select_row_def table_ok_def)

lemma with_session_table [simp]: "sessions (sv_table (with_session s)) = [UserID s \<mapsto> s]"
  using sessions_upd [of Map.empty "UserID s" id s]
  by (simp add: with_session_def stored_session_def)

lemma with_session_simps [simp]:
  "table_ok (sv_table (with_session s))" "sv_cache (with_session s) = Map.empty"
  "in_force id (sv_table (with_session s)) Map.empty s" "up (with_session s)"
  using table_ok_upd [of Map.empty s id]
  by (simp_all add: with_session_def all_up_def in_force_def up_def stored_session_def
      del: with_session_table)

lemma in_memory_Get:
  assumes "up (world m)" "sessions (sv_table (world m)) u = Some s"
  shows "\<exists>q m1. run in_memory (Get u) m = (Inr q, m1) \<and> world m1 = world m"
  using assms
  by (auto simp: Get_def get_fallback_def run_bind run_getFromDB in_memory_def up_def sessions_def
      split: option.splits sum.splits)

lemma in_memory_set_status:
  assumes w: "up (world m)" "in_force id (sv_table (world m)) (sv_cache (world m)) s"
    and accepted: "\<And>t. session_accepted (restamp st d t s)"
  shows "\<exists>p m'. run in_memory (set_status NewService st fl wn (UserID s) d) m = (Inr p, m') \<and>
    cache_written m' \<and> up (world m')"
proof -
  obtain q m1 where got: "run in_memory (Get (UserID s)) m = (Inr q, m1)" "world m1 = world m"
    using in_memory_Get [OF w(1), of "UserID s"] w(2) by (auto simp: in_force_def)
  let ?n = "instant (sv_ticks (world m))"
  let ?m = "m1\<lparr>world := (world m)\<lparr>sv_ticks := Suc (sv_ticks (world m))\<rparr>,
    heap := (heap m1)(q := restamp st d ?n (heap m1 q))\<rparr>"
  have "heap m1 q = s"
    using run_Get_in_force(2) [OF in_memory_postgres in_memory_redis w(2) got(1)]
    by (simp add: stored_session_def)
  then have "up (world ?m)" "session_accepted (heap ?m q)" "valid_time (UpdatedAt (heap ?m q))"
    using w(1) accepted [of ?n] by (simp_all add: up_def restamp_def)
  from in_memory_save [OF this, of "UserID s" fl wn]
  obtain m' where m': "run in_memory (save NewService (UserID s) q fl wn) ?m = (Inr q, m')" "cache_written m'"
      "up (world m')" by blast
  have "repo_Get NewService = Get" by (simp add: NewService_def)
  then have "run in_memory (set_status NewService st fl wn (UserID s) d) m
      = run in_memory (save NewService (UserID s) q fl wn) ?m"
    using got by (simp add: set_status_save run_bind restamp_def)
  with m' show ?thesis by auto
qed

end
