(* ===== verification/Concurrency.thy ===== *)
theory Concurrency
  imports Pool In_Memory
begin

text \<open>
  The service as a pool of threads: requests arrive at any time and run beside each other,
  beside the consumer and beside the goroutines that warm the cache.
\<close>

subsection \<open>The threads of the service\<close>

datatype task =
    TStart string StartRequest
  | TCurrent string
  | THeartbeat string HeartbeatRequest
  | TPause string string
  | TResume string string
  | TConsume nat ConsumerConfig
  | Warming closure

datatype outcome = Session "go_error + addr" | Answer "go_error option" | Ended

fun thread :: "task \<Rightarrow> outcome prog" where
  "thread (TStart u req) = bind (Service_Start NewService u req) (\<lambda>r. Done (Session r))"
| "thread (TCurrent u) = bind (Service_GetCurrent NewService u) (\<lambda>r. Done (Session r))"
| "thread (THeartbeat u req) = bind (Service_Heartbeat NewService u req) (\<lambda>r. Done (Answer r))"
| "thread (TPause u d) = bind (Service_Pause NewService u d) (\<lambda>r. Done (Session r))"
| "thread (TResume u d) = bind (Service_Resume NewService u d) (\<lambda>r. Done (Session r))"
| "thread (TConsume n cfg) =
    bind (consumer_goroutine n (NewHeartbeatConsumer cfg)) (\<lambda>_. Done Ended)"
| "thread (Warming g) = bind (run_closure g) (\<lambda>_. Done Ended)"

definition service_pool :: "(task, outcome) pool" where
  "service_pool = \<lparr>arrives = (\<lambda>t. case t of Warming _ \<Rightarrow> False | _ \<Rightarrow> True), program = thread,
     goroutine = Warming\<rparr>"

type_synonym threads = "(task \<times> outcome prog) list"

abbreviation moves :: "'w env \<Rightarrow> threads \<times> 'w machine \<Rightarrow> threads \<times> 'w machine \<Rightarrow> bool" where
  "moves \<equiv> steps service_pool"

lemma service_pool_simps [simp]:
  "arrives service_pool t \<longleftrightarrow> (\<forall>g. t \<noteq> Warming g)" "program service_pool = thread"
  "goroutine service_pool = Warming"
  by (simp_all add: service_pool_def split: task.split)

lemmas moves_arrive = steps.arrive [of service_pool, simplified service_pool_simps]
lemmas moves_go = steps.go [where P = service_pool, simplified service_pool_simps]
lemmas moves_call = steps.call [where P = service_pool]

subsection \<open>Every request ends\<close>

fun budget :: "task \<Rightarrow> nat" where
  "budget (TStart _ _) = 8"
| "budget (TCurrent _) = 5"
| "budget (THeartbeat _ _) = 13"
| "budget (TPause _ _) = 18"
| "budget (TResume _ _) = 18"
| "budget (TConsume n _) = 10 * n + 2"
| "budget (Warming _) = 4"

lemmas repo_bodies = Get_def get_fallback_def getFromDB_def SetCache_def Upsert_def

lemma NewService_simps [simp]:
  "repo_Get NewService = Get" "repo_Upsert NewService = Upsert"
  "repo_SetCache NewService = SetCache" "producer_Publish NewService = Publish"
  by (simp_all add: NewService_def)

lemma ends_in_Get: "ends_in (Get u) 5"
  by (simp add: repo_bodies split: sum.split)

lemma ends_in_SetCache: "ends_in (SetCache p) 3"
  by (simp add: repo_bodies split: sum.split)

lemma ends_in_Upsert: "ends_in (Upsert p) 2"
  by (simp add: repo_bodies split: option.split)

lemma ends_in_cached:
  "ends_in (bind (SetCache p) (\<lambda>r. case r of Some err \<Rightarrow> Log Warn wn (at err) k | None \<Rightarrow> k)) (Suc (Suc (Suc (Suc n))))"
  if "ends_in k n"
  using that ends_in_mono [OF that, of "Suc n"]
  by (intro ends_in_bindI [OF ends_in_SetCache]) (auto split: option.split)

lemma ends_in_saved:
  "ends_in (bind (Upsert p) (\<lambda>r. case r of
      Some err \<Rightarrow> Done (Inl (App (NewInternal fl err)))
    | None \<Rightarrow> bind (SetCache p) (\<lambda>r. case r of Some err \<Rightarrow> Log Warn wn (at err) (Done (Inr p)) | None \<Rightarrow> Done (Inr p)))) 6"
  by (rule ends_in_bindI [OF ends_in_Upsert])
    (auto intro: ends_in_cached [where n = 0, simplified] simp: numeral_eq_Suc split: option.split)

lemma ends_in_set_status: "ends_in (set_status NewService st fl wn u d) 18"
  unfolding set_status_def cache_or_warn_def NewService_simps
  by (rule ends_in_bindI [OF ends_in_Get]) (auto simp: ends_in_saved split: sum.split)

lemma ends_in_Start: "ends_in (Service_Start NewService u req) 8"
  by (simp add: Service_Start_def cache_or_warn_def ends_in_saved)

lemma ends_in_Heartbeat: "ends_in (Service_Heartbeat NewService u req) 13"
proof -
  have publish: "ends_in (Publish tp k v) 2" for tp k v
    by (simp add: Publish_def injectTraceHeaders_def split: option.split)
  have encode: "ends_in (NewEnvelope tp n r) 1" for tp n r
    by (simp add: NewEnvelope_def split: sum.split)
  have "ends_in (bind (Upsert p) (\<lambda>r. case r of
      Some e \<Rightarrow> Done (Some (App (NewInternal ''failed to persist heartbeat'' e))) | None \<Rightarrow> Done None)) 2" for p
    by (rule ends_in_bindI [OF ends_in_Upsert]) (auto split: option.split)
  then have "ends_in (bind (Publish heartbeatTopic u v) (\<lambda>r. case r of
      Some pubErr \<Rightarrow> Log Error_level ''kafka publish failed, writing heartbeat directly to db''
        [(''user_id'', AText u), (''error'', AErr pubErr)] (bind (Upsert p) (\<lambda>r. case r of
          Some dbErr \<Rightarrow> Done (Some (App (NewInternal ''failed to persist heartbeat'' dbErr)))
        | None \<Rightarrow> Done None))
    | None \<Rightarrow> Done None)) 5" for p v
    by (intro ends_in_bindI [OF publish]) (auto split: option.split)
  then have "ends_in (Load p (\<lambda>s. bind (NewEnvelope ''playback.heartbeat'' 1 (marshal_session s)) (\<lambda>r. case r of
      Inl err \<Rightarrow> Done (Some (App (NewInternal ''failed to encode heartbeat event'' err)))
    | Inr payload \<Rightarrow> bind (Publish heartbeatTopic u payload) (\<lambda>r. case r of
          Some pubErr \<Rightarrow> Log Error_level ''kafka publish failed, writing heartbeat directly to db''
            [(''user_id'', AText u), (''error'', AErr pubErr)] (bind (Upsert p) (\<lambda>r. case r of
              Some dbErr \<Rightarrow> Done (Some (App (NewInternal ''failed to persist heartbeat'' dbErr)))
            | None \<Rightarrow> Done None))
        | None \<Rightarrow> Done None)))) 7" for p
    by (auto intro!: ends_in_bindI [OF encode] split: sum.split)
  from ends_in_cached [OF this] show ?thesis
    by (simp add: Service_Heartbeat_def cache_or_warn_def)
qed

lemma ends_in_consumer: "ends_in (consumer_goroutine n (NewHeartbeatConsumer cfg)) (10 * n + 2)"
proof -
  let ?h = "handle (NewHeartbeatConsumer cfg)"
  have "ends_in (?h msg) 5" for msg
  proof -
    have "ends_in (bind (Upsert p) (\<lambda>r. case r of
        Some err \<Rightarrow> Load p (\<lambda>s. Done (g s err))
      | None \<Rightarrow> Load p (\<lambda>s. Log Debug tx (at s) (Done None)))) 4" for p g tx at
      by (rule ends_in_bindI [OF ends_in_Upsert]) (auto split: option.split)
    then show ?thesis by (auto simp: handle_def NewHeartbeatConsumer_def split: sum.split)
  qed
  then have turn: "ends_in (consume_once ?h) 10"
    by (auto simp: consume_once_def commit_def intro!: ends_in_bindI split: sum.split option.split)
  have "ends_in (Run_loop n ?h) (10 * n)"
  proof (induction n)
    case (Suc n)
    then show ?case
      by (auto intro!: ends_in_bindI [OF turn] split: option.split)
  qed simp
  then have "ends_in (Run c n ?h) (10 * n + 1)" for c by (simp add: Run_def)
  then show ?thesis
    unfolding consumer_goroutine_def by (rule ends_in_bindI) (auto split: option.split)
qed

lemma ends_in_thread: "ends_in (thread t) (budget t)"
proof (cases t)
  case (Warming g)
  then show ?thesis
    by (cases g) (auto intro!: ends_in_bindI [OF ends_in_SetCache] ends_in_bindI [where a = 4]
      split: option.split)
qed (auto intro!: ends_in_bindI [OF ends_in_Start] ends_in_bindI [OF ends_in_Get]
    ends_in_bindI [OF ends_in_Heartbeat] ends_in_bindI [OF ends_in_set_status]
    ends_in_bindI [OF ends_in_consumer]
    simp: Service_GetCurrent_def set_status_instances)

text \<open>
  Every request ends, whatever the schedule and whatever the services answer: a thread
  that has had its budget of turns (eight for a start, five for a read, thirteen for a
  heartbeat, eighteen for a pause or a resume, ten for each turn of the consumer's loop) is
  done with a result, no matter what runs in between.
\<close>

lemma requests_end:
  assumes "i < length ts" and "ts ! i = (t, thread t)" and "budget t \<le> count_list cs (Turn i)"
  shows "\<exists>x. fst (play service_pool E cs (ts, m)) ! i = (t, Done x)"
  using play_finishes [OF assms(1,2) ends_in_thread assms(3)] .

lemma requests_end_witness:
  "\<exists>x. fst (play service_pool in_memory (concat (replicate 18 [Turn 0, Turn 1, Arrive (TCurrent ''u2'')]))
      ([(TPause ''u1'' ''d'', thread (TPause ''u1'' ''d'')), (TCurrent ''u1'', thread (TCurrent ''u1''))],
       boot all_up)) ! 0 = (TPause ''u1'' ''d'', Done x)"
  by (rule requests_end) (simp_all add: numeral_eq_Suc del: thread.simps)

end
