(* ===== verification/Discipline.thy ===== *)
theory Discipline
  imports Pool Consistency
begin

text \<open>
  What a thread may do with the shared state, and what follows for every pool of threads that
  keep to it: the stores stay in order, the users for whom no thread writes are spared, and
  what a thread has learned and done holds when it ends. The invariant of the shared state is
  that every row is a session under its user and every readable cache entry is a session of
  the user of its key.
\<close>

definition cache_ok :: "(string \<rightharpoonup> bytes) \<Rightarrow> bool" where
  "cache_ok kv \<longleftrightarrow> (\<forall>u data s. kv (cache_key u) = Some data \<longrightarrow> unmarshal_session data = Inr s \<longrightarrow>
     UserID s = utf8_fix u)"

lemma map_le_Some: "m \<subseteq>\<^sub>m n \<Longrightarrow> m k = Some v \<Longrightarrow> n k = Some v"
  by (metis domI map_le_def)

lemma map_le_entry: "m \<subseteq>\<^sub>m n \<Longrightarrow> m k \<in> {None, n k}"
  using map_le_Some [of m n k] by (cases "m k") auto

lemma cache_ok_forget: "cache_ok kv \<Longrightarrow> kv' \<subseteq>\<^sub>m kv \<Longrightarrow> cache_ok kv'"
  unfolding cache_ok_def using map_le_Some by fast

lemma cache_okD:
  "cache_ok kv \<Longrightarrow> kv (cache_key u) = Some data \<Longrightarrow> unmarshal_session data = Inr s \<Longrightarrow>
    UserID s = utf8_fix u"
  by (simp add: cache_ok_def)

lemma cache_key_eq [simp]: "cache_key u = cache_key v \<longleftrightarrow> u = v"
  by (simp add: cache_key_def)

text \<open>An encoded session comes back, if it does, as one of the same user.\<close>

lemma marshal_session_user:
  assumes "marshal_session s = Inr data" "unmarshal_session data = Inr s'"
  shows "UserID s' = utf8_fix (UserID s)"
proof -
  obtain t0 where t0: "format_time (UpdatedAt s) = Some t0"
      "marshal_time (UpdatedAt s) = Some (quote_char # t0 @ [quote_char])"
    using assms(1) by (cases "format_time (UpdatedAt s)") (auto simp: marshal_session_def marshal_time_def)
  have "escape t0 = t0"
    using format_time_chars [OF t0(1)] time_char_plain by (intro escape_plain_ascii) blast
  then have data: "data = write_object (session_members s t0)"
    using assms(1) t0(2) by (simp add: marshal_session_def session_members_def json_quote_def)
  have "read_doc (write_object (session_members s t0))
      = Some (DObject (map (\<lambda>(k, v). (utf8_fix k, v)) (session_members s t0)))"
    using session_members_ok [of s t0 1] by (intro read_doc_write_object) auto
  with assms(2) data show ?thesis
    by (auto simp: unmarshal_session_def unmarshal_struct_def session_members_def utf8_fix_names
        store_session_def key_is_def fold_key_names stored_def stored_by_method_def
        zero_session_def simp del: fold_key.simps split: option.splits)
qed

subsection \<open>What a thread knows\<close>

text \<open>
  A thread owns the session structs that it has allocated and knows what is in them; of other
  structs that it can read it knows the user; and it knows the calls it has made.
\<close>

record knowledge =
  users :: "addr \<rightharpoonup> string"
  owned :: "addr \<rightharpoonup> PlaybackSession"
  did :: "event set"

definition nothing :: knowledge where
  "nothing = \<lparr>users = Map.empty, owned = Map.empty, did = {}\<rparr>"

definition known :: "'w machine \<Rightarrow> knowledge \<Rightarrow> bool" where
  "known m K \<longleftrightarrow>
    (\<forall>a u. users K a = Some u \<longrightarrow> a < fresh m \<and> UserID (heap m a) = u) \<and>
    (\<forall>a s. owned K a = Some s \<longrightarrow> a < fresh m \<and> heap m a = s) \<and> did K \<subseteq> set (history m)"

definition disjoint :: "knowledge \<Rightarrow> knowledge \<Rightarrow> bool" where
  "disjoint K L \<longleftrightarrow> dom (owned K) \<inter> dom (owned L) = {}"

definition own :: "addr \<Rightarrow> PlaybackSession \<Rightarrow> knowledge \<Rightarrow> knowledge" where
  "own a s K = K\<lparr>owned := (owned K)(a \<mapsto> s)\<rparr>"

definition have_done :: "event \<Rightarrow> knowledge \<Rightarrow> knowledge" where
  "have_done e K = K\<lparr>did := insert e (did K)\<rparr>"

lemma knowledge_simps [simp]:
  "users (own a s K) = users K" "owned (own a s K) = (owned K)(a \<mapsto> s)" "did (own a s K) = did K"
  "users (have_done e K) = users K" "owned (have_done e K) = owned K"
  "did (have_done e K) = insert e (did K)"
  "users nothing = Map.empty" "owned nothing = Map.empty" "did nothing = {}"
  by (simp_all add: own_def have_done_def nothing_def)

definition reads :: "knowledge \<Rightarrow> addr \<Rightarrow> PlaybackSession \<Rightarrow> bool" where
  "reads K a s \<longleftrightarrow> (case owned K a of Some s' \<Rightarrow> s = s' | None \<Rightarrow> users K a = Some (UserID s))"

definition readable :: "knowledge \<Rightarrow> addr \<Rightarrow> bool" where
  "readable K a \<longleftrightarrow> owned K a \<noteq> None \<or> users K a \<noteq> None"

text \<open>
  A program is disciplined for the users \<open>W\<close> if it only reads through pointers it knows,
  changes only structs it owns and never their user, writes rows and cache entries of users
  in \<open>W\<close> only and only through the two statements of the repository, starts goroutines on
  sessions of users in \<open>W\<close> only, and leaves a result and knowledge with \<open>Q\<close>; it may rely on
  what the cache and the table promise of their answers.
\<close>

primrec disciplined ::
  "string set \<Rightarrow> ('a \<Rightarrow> knowledge \<Rightarrow> bool) \<Rightarrow> 'a prog \<Rightarrow> knowledge \<Rightarrow> bool" where
  "disciplined W Q (Done x) = (\<lambda>K. Q x K)"
| "disciplined W Q (RedisGet k c) = (\<lambda>K. \<forall>r.
    (\<forall>u data s. k = cache_key u \<longrightarrow> r = Inr data \<longrightarrow> unmarshal_session data = Inr s \<longrightarrow>
      UserID s = utf8_fix u) \<longrightarrow> disciplined W Q (c r) K)"
| "disciplined W Q (RedisSet k v t c) = (\<lambda>K.
    (\<exists>u \<in> W. k = cache_key u \<and> (\<forall>s. unmarshal_session v = Inr s \<longrightarrow> UserID s = utf8_fix u)) \<and>
    (\<forall>r. disciplined W Q (c r) K))"
| "disciplined W Q (PgQueryRow q k c) = (\<lambda>K. q = select_session \<and> (\<forall>r.
    (\<forall>vals s. r = Inr vals \<longrightarrow> scan_session vals = Inr s \<longrightarrow> UserID s = k) \<longrightarrow> disciplined W Q (c r) K))"
| "disciplined W Q (PgExec q a c) = (\<lambda>K.
    q = upsert_session \<and> (\<exists>s. a = row_args s \<and> UserID s \<in> W) \<and>
    (\<forall>r. disciplined W Q (c r) (have_done (Did_exec a (ok r)) K)))"
| "disciplined W Q (WriteMessages g c) =
    (\<lambda>K. \<forall>r. disciplined W Q (c r) (have_done (Did_write g (ok r)) K))"
| "disciplined W Q (FetchMessage c) = (\<lambda>K. \<forall>r. disciplined W Q (c r) K)"
| "disciplined W Q (CommitMessages g c) = (\<lambda>K. \<forall>r. disciplined W Q (c r) K)"
| "disciplined W Q (TraceInject c) = (\<lambda>K. \<forall>r. disciplined W Q (c r) K)"
| "disciplined W Q (TraceExtract h p) = disciplined W Q p"
| "disciplined W Q (SpanCall op p) = disciplined W Q p"
| "disciplined W Q (SpanRecording c) = (\<lambda>K. \<forall>r. disciplined W Q (c r) K)"
| "disciplined W Q (SpanTraceID c) = (\<lambda>K. \<forall>r. disciplined W Q (c r) K)"
| "disciplined W Q (Metric x p) = disciplined W Q p"
| "disciplined W Q (RandRead n c) = (\<lambda>K. \<forall>r. disciplined W Q (c r) K)"
| "disciplined W Q (Now c) = (\<lambda>K. \<forall>r. disciplined W Q (c r) K)"
| "disciplined W Q (New s c) = (\<lambda>K. \<forall>a. disciplined W Q (c a) (own a s K))"
| "disciplined W Q (Load a c) = (\<lambda>K.
    readable K a \<and> (\<forall>s. reads K a s \<longrightarrow> disciplined W Q (c s) K))"
| "disciplined W Q (Store a s p) = (\<lambda>K.
    (\<exists>s0. owned K a = Some s0 \<and> UserID s = UserID s0) \<and> disciplined W Q p (own a s K))"
| "disciplined W Q (Go g p) = (\<lambda>K.
    (case g of WarmCache a _ \<Rightarrow> \<exists>s. owned K a = Some s \<and> UserID s \<in> W) \<and> disciplined W Q p K)"
| "disciplined W Q (Log l t a p) = disciplined W Q p"

lemma disciplined_bind:
  "disciplined W Q (bind p f) K \<longleftrightarrow> disciplined W (\<lambda>x. disciplined W Q (f x)) p K"
  by (induction p arbitrary: K) (simp_all split: closure.split)

lemma disciplined_mono:
  "disciplined W P p K \<Longrightarrow> (\<And>x L. P x L \<Longrightarrow> Q x L) \<Longrightarrow> disciplined W Q p K"
  by (induction p arbitrary: K) (simp_all; blast)+

lemma disciplined_bindI:
  "disciplined W P p K \<Longrightarrow> (\<And>x L. P x L \<Longrightarrow> disciplined W Q (f x) L) \<Longrightarrow> disciplined W Q (bind p f) K"
  unfolding disciplined_bind by (rule disciplined_mono)

subsection \<open>The shared state\<close>

definition shared_ok ::
  "string set \<Rightarrow> ('w \<Rightarrow> table) \<Rightarrow> ('w \<Rightarrow> (string \<rightharpoonup> bytes)) \<Rightarrow> 'w machine \<Rightarrow> bool" where
  "shared_ok W tab kv m \<longleftrightarrow> table_ok (tab (world m)) \<and> cache_ok (kv (world m)) \<and>
     (\<forall>a u. WarmCache a u \<in> set (spawned m) \<longrightarrow> a < fresh m \<and> UserID (heap m a) \<in> W)"

text \<open>What a change of the stores leaves of the users outside \<open>W\<close>.\<close>

definition spares :: "string set \<Rightarrow> ('w \<Rightarrow> table) \<Rightarrow> ('w \<Rightarrow> (string \<rightharpoonup> bytes)) \<Rightarrow> 'w \<Rightarrow> 'w \<Rightarrow> bool" where
  "spares W tab kv w w' \<longleftrightarrow> (\<forall>u. u \<notin> W \<longrightarrow> tab w' u = tab w u \<and>
     kv w' (cache_key u) \<in> {None, kv w (cache_key u)})"

lemma spares_refl: "spares W tab kv w w"
  by (simp add: spares_def)

lemma spares_trans: "spares W tab kv w w' \<Longrightarrow> spares W tab kv w' w'' \<Longrightarrow> spares W tab kv w w''"
  by (force simp: spares_def)

lemma spares_forget: "tab w' = tab w \<Longrightarrow> kv w' \<subseteq>\<^sub>m kv w \<Longrightarrow> spares W tab kv w w'"
  using map_le_entry [of "kv w'" "kv w"] by (simp add: spares_def)

text \<open>The calls to other services leave the table alone and at most forget cache entries.\<close>

lemma other_calls:
  assumes "postgres_laws pg tab E" "redis_laws kv E"
  shows "tab (snd (kafka_write E g w)) = tab w" "kv (snd (kafka_write E g w)) \<subseteq>\<^sub>m kv w"
    "tab (snd (kafka_fetch E w)) = tab w" "kv (snd (kafka_fetch E w)) \<subseteq>\<^sub>m kv w"
    "tab (snd (kafka_commit E g w)) = tab w" "kv (snd (kafka_commit E g w)) \<subseteq>\<^sub>m kv w"
    "tab (snd (trace_inject E w)) = tab w" "kv (snd (trace_inject E w)) \<subseteq>\<^sub>m kv w"
    "tab (span_call E op w) = tab w" "kv (span_call E op w) \<subseteq>\<^sub>m kv w"
    "tab (snd (span_recording E w)) = tab w" "kv (snd (span_recording E w)) \<subseteq>\<^sub>m kv w"
    "tab (snd (span_trace_id E w)) = tab w" "kv (snd (span_trace_id E w)) \<subseteq>\<^sub>m kv w"
    "tab (snd (rand_read E n w)) = tab w" "kv (snd (rand_read E n w)) \<subseteq>\<^sub>m kv w"
    "tab (snd (clock E w)) = tab w" "kv (snd (clock E w)) \<subseteq>\<^sub>m kv w"
  using assms
  by (simp_all add: postgres_laws_def redis_laws_def calls_outside_postgres_def calls_outside_redis_def)

text \<open>
  A call of a disciplined program keeps the shared state, spares the users outside \<open>W\<close>, keeps
  what every other thread knows, and leaves the program disciplined with what it has learned.
\<close>

definition kept :: "string set \<Rightarrow> ('w \<Rightarrow> table) \<Rightarrow> ('w \<Rightarrow> (string \<rightharpoonup> bytes)) \<Rightarrow>
    ('a \<Rightarrow> knowledge \<Rightarrow> bool) \<Rightarrow> 'w machine \<Rightarrow> knowledge \<Rightarrow> 'a prog \<times> 'w machine \<Rightarrow> bool" where
  "kept W tab kv Q m K = (\<lambda>(p', m'). shared_ok W tab kv m' \<and> spares W tab kv (world m) (world m') \<and>
     (\<exists>K'. known m' K' \<and> disciplined W Q p' K' \<and>
       (\<forall>L. known m L \<and> disjoint K L \<longrightarrow> known m' L \<and> disjoint K' L)))"

lemma keptI:
  "shared_ok W tab kv m' \<Longrightarrow> spares W tab kv (world m) (world m') \<Longrightarrow> known m' K' \<Longrightarrow>
    disciplined W Q p' K' \<Longrightarrow> (\<And>L. known m L \<Longrightarrow> disjoint K L \<Longrightarrow> known m' L \<and> disjoint K' L) \<Longrightarrow>
    kept W tab kv Q m K (p', m')"
  unfolding kept_def by blast

lemma known_more:
  assumes "heap m' = heap m" "fresh m' = fresh m" "set (history m) \<subseteq> set (history m')"
  shows "known m L \<Longrightarrow> known m' L"
  using assms by (auto simp: known_def)

lemma shared_world:
  assumes "shared_ok W tab kv m" "heap m' = heap m" "fresh m' = fresh m" "spawned m' = spawned m"
    and "tab (world m') = tab (world m)" "kv (world m') \<subseteq>\<^sub>m kv (world m)"
  shows "shared_ok W tab kv m'"
  using assms cache_ok_forget by (auto simp: shared_ok_def)

text \<open>A call that only asks: nothing but the world and the history moves.\<close>

lemma kept_world:
  assumes "shared_ok W tab kv m" "known m K" "disciplined W Q p' K"
    and "heap m' = heap m" "fresh m' = fresh m" "spawned m' = spawned m"
    and "set (history m) \<subseteq> set (history m')"
    and "tab (world m') = tab (world m)" "kv (world m') \<subseteq>\<^sub>m kv (world m)"
  shows "kept W tab kv Q m K (p', m')"
  using assms by (intro keptI [of _ _ _ _ _ K]) (auto intro: shared_world known_more spares_forget)

lemma kept_write:
  assumes "shared_ok W tab kv m'" "spares W tab kv (world m) (world m')"
    and "known m K" "disciplined W Q p' (have_done e K)"
    and "heap m' = heap m" "fresh m' = fresh m" "history m' = history m @ [e]"
  shows "kept W tab kv Q m K (p', m')"
proof (rule keptI [of _ _ _ _ _ "have_done e K"])
  show "known m' (have_done e K)"
    using assms(3,5,6,7) by (auto simp: known_def)
next
  fix L assume "known m L" "disjoint K L"
  with assms(5,6,7) show "known m' L \<and> disjoint (have_done e K) L"
    by (auto simp: known_def disjoint_def)
qed (use assms in auto)

lemma set_law_cache_ok:
  assumes "set_law kv (r, w') (cache_key u) v w" "cache_ok (kv w)"
    and "\<forall>s. unmarshal_session v = Inr s \<longrightarrow> UserID s = utf8_fix u"
  shows "cache_ok (kv w')"
  unfolding cache_ok_def
proof (intro allI impI)
  fix u' data s
  assume data: "kv w' (cache_key u') = Some data" "unmarshal_session data = Inr s"
  show "UserID s = utf8_fix u'"
  proof (cases "u' = u")
    case True
    have "kv w' (cache_key u) \<in> {None, Some v, kv w (cache_key u)}"
      using assms(1) by (auto simp: set_law_def)
    with True assms(3) data cache_okD [OF assms(2), of u data s] show ?thesis by auto
  next
    case False
    then have "kv w' (cache_key u') \<in> {None, kv w (cache_key u')}"
      using assms(1) by (simp add: set_law_def)
    with data cache_okD [OF assms(2), of u' data s] show ?thesis by auto
  qed
qed

lemma disciplined_step:
  assumes laws: "postgres_laws pg tab E" "redis_laws kv E"
    and ok: "shared_ok W tab kv m" "known m K" and p: "disciplined W Q p K"
  shows "kept W tab kv Q m K (step E p m)"
proof (cases p)
  case (RedisGet k c)
  obtain r w where g: "redis_get E k (world m) = (r, w)" by fastforce
  have "UserID s = utf8_fix u" if "k = cache_key u" "r = Inr data" "unmarshal_session data = Inr s"
    for u data s
    using cache_okD [of "kv (world m)" u data s] get_laws(3) [OF laws g, of data] ok(1) that
    by (simp add: shared_ok_def)
  then have "disciplined W Q (c r) K" using p RedisGet by simp
  with RedisGet g get_laws(1,2) [OF laws g] ok show ?thesis by (auto intro!: kept_world)
next
  case (RedisSet k v t c)
  obtain r w where g: "redis_set E k v t (world m) = (r, w)" by fastforce
  obtain u where u: "u \<in> W" "k = cache_key u" "\<forall>s. unmarshal_session v = Inr s \<longrightarrow> UserID s = utf8_fix u"
    using p RedisSet by auto
  have law: "set_law kv (r, w) (cache_key u) v (world m)" "tab w = tab (world m)"
    using set_laws [OF laws g] u(2) by simp_all
  have "kv w (cache_key v') \<in> {None, kv (world m) (cache_key v')}" if "v' \<notin> W" for v'
  proof -
    have "cache_key v' \<noteq> cache_key u" using that u(1) by auto
    with law(1) show ?thesis by (simp add: set_law_def)
  qed
  then have "spares W tab kv (world m) w" using law(2) by (simp add: spares_def)
  moreover have "cache_ok (kv w)"
    using set_law_cache_ok [OF law(1) _ u(3)] ok(1) by (simp add: shared_ok_def)
  ultimately show ?thesis
    using p RedisSet g law(2) ok
    by (auto intro!: keptI [of _ _ _ _ _ K] simp: shared_ok_def known_def)
next
  case (PgQueryRow q k c)
  obtain r w where g: "pg_query_row E q k (world m) = (r, w)" by fastforce
  have "UserID s = k" if "r = Inr vals" "scan_session vals = Inr s" for vals s
  proof -
    have "sessions (tab (world m)) k = Some s"
      using that query_laws(1) [OF laws g] p PgQueryRow by (simp add: query_law_def sessions_def)
    then obtain row where "tab (world m) k = Some row" "sessions (tab (world m)) k = Some s"
      by (auto simp: sessions_def select_row_def split: option.splits)
    with ok(1) show ?thesis unfolding shared_ok_def table_ok_def by (metis option.inject)
  qed
  then have "disciplined W Q (c r) K" using p PgQueryRow by auto
  moreover have "tab w = tab (world m)" using query_laws(1) [OF laws g] by (simp add: query_law_def)
  ultimately show ?thesis using PgQueryRow g query_laws(2) [OF laws g] ok by (auto intro!: kept_world)
next
  case (PgExec q a c)
  obtain r w where g: "pg_exec E q a (world m) = (r, w)" by fastforce
  obtain s where s: "q = upsert_session" "a = row_args s" "UserID s \<in> W" using p PgExec by auto
  have row: "tab w = tab (world m) \<or> tab w = (tab (world m))(UserID s \<mapsto> row_of pg s)"
    using exec_laws(1) [OF laws g] ok(1) apply_upsert_session by (auto simp: s shared_ok_def)
  have "shared_ok W tab kv (called m w (Did_exec a (ok r)))"
    using row exec_laws(2) [OF laws g] ok(1) cache_ok_forget table_ok_upd
    by (auto simp: shared_ok_def)
  moreover have "spares W tab kv (world m) w"
    using row s(3) map_le_entry [OF exec_laws(2) [OF laws g]] by (auto simp: spares_def)
  ultimately show ?thesis
    using p PgExec g ok by (auto intro!: kept_write [where e = "Did_exec a (ok r)"])
next
  case (WriteMessages g c)
  obtain r w where w: "kafka_write E g (world m) = (r, w)" by fastforce
  have "tab w = tab (world m)" "kv w \<subseteq>\<^sub>m kv (world m)"
    using other_calls(1,2) [OF laws, of g "world m"] w by simp_all
  with p WriteMessages w ok show ?thesis
    by (auto intro!: kept_write [where e = "Did_write g (ok r)"] shared_world [of _ _ _ m] spares_forget)
next
  case (New s c)
  let ?m = "m\<lparr>heap := (heap m)(fresh m := s), fresh := Suc (fresh m)\<rparr>"
  have "known ?m (own (fresh m) s K)" "shared_ok W tab kv ?m"
    using ok by (auto simp: known_def shared_ok_def less_Suc_eq)
  moreover have "known ?m L \<and> disjoint (own (fresh m) s K) L" if "known m L" "disjoint K L" for L
    using that by (auto simp: known_def disjoint_def less_Suc_eq)
  ultimately show ?thesis
    using p New by (auto intro!: keptI [of _ _ _ _ _ "own (fresh m) s K"] spares_refl)
next
  case (Load a c)
  then have "readable K a" using p by simp
  with ok(2) have "reads K a (heap m a)"
    by (cases "owned K a") (auto simp: known_def reads_def readable_def)
  with p Load have "disciplined W Q (c (heap m a)) K" by simp
  with Load ok show ?thesis by (auto intro!: kept_world)
next
  case (Store a s p')
  then obtain s0 where s0: "owned K a = Some s0" "UserID s = UserID s0" using p by auto
  with ok(2) have a: "a < fresh m" "heap m a = s0" by (auto simp: known_def)
  let ?m = "m\<lparr>heap := (heap m)(a := s)\<rparr>"
  have "known ?m (own a s K)" using ok(2) s0 a by (auto simp: known_def)
  moreover have "shared_ok W tab kv ?m" using ok(1) s0 a by (auto simp: shared_ok_def)
  moreover have "known ?m L \<and> disjoint (own a s K) L" if "known m L" "disjoint K L" for L
    using that s0 a by (auto simp: known_def disjoint_def)
  ultimately show ?thesis
    using p Store by (auto intro!: keptI [of _ _ _ _ _ "own a s K"] spares_refl)
next
  case (Go g p')
  obtain a u where g: "g = WarmCache a u" by (cases g)
  with p Go obtain s where "owned K a = Some s" "UserID s \<in> W" by auto
  with ok have "shared_ok W tab kv (m\<lparr>spawned := spawned m @ [g]\<rparr>)"
    by (auto simp: g known_def shared_ok_def)
  with p Go ok show ?thesis
    by (auto intro!: keptI [of _ _ _ _ _ K] spares_refl simp: known_def)
qed (use p ok in \<open>auto simp: case_prod_unfold other_calls [OF laws] intro!: kept_world\<close>)

subsection \<open>The pool\<close>

text \<open>
  Every thread keeps to the discipline with what it knows, ends as its label says, and owns
  structs that no other thread owns.
\<close>

definition pool_ok ::
  "string set \<Rightarrow> ('w \<Rightarrow> table) \<Rightarrow> ('w \<Rightarrow> (string \<rightharpoonup> bytes)) \<Rightarrow> ('l \<Rightarrow> 'a \<Rightarrow> knowledge \<Rightarrow> bool) \<Rightarrow>
   ('l \<times> 'a prog) list \<times> 'w machine \<Rightarrow> bool" where
  "pool_ok W tab kv Q = (\<lambda>(ts, m). shared_ok W tab kv m \<and> (\<exists>Ks.
     (\<forall>i < length ts. known m (Ks i) \<and> disciplined W (Q (fst (ts ! i))) (snd (ts ! i)) (Ks i)) \<and>
     (\<forall>i < length ts. \<forall>j < length ts. i \<noteq> j \<longrightarrow> disjoint (Ks i) (Ks j))))"

lemma pool_ok_start: "shared_ok W tab kv m \<Longrightarrow> pool_ok W tab kv Q ([], m)"
  by (simp add: pool_ok_def)

lemma pool_ok_finished:
  assumes "pool_ok W tab kv Q (ts, m)" "(t, Done x) \<in> set ts"
  shows "\<exists>K. known m K \<and> Q t x K"
proof -
  obtain i where "i < length ts" "ts ! i = (t, Done x)" using assms(2) by (metis in_set_conv_nth)
  with assms(1) show ?thesis by (force simp: pool_ok_def)
qed

text \<open>A new thread joins with its own knowledge.\<close>

lemma pool_ok_join:
  assumes ok: "pool_ok W tab kv Q (ts, m)"
    and m': "shared_ok W tab kv m'" "\<forall>L. known m L \<longrightarrow> known m' L"
    and K: "known m' K" "owned K = Map.empty" "disciplined W (Q t) p K"
  shows "pool_ok W tab kv Q (ts @ [(t, p)], m')"
proof -
  obtain Ks where Ks: "\<forall>i < length ts. known m (Ks i) \<and>
        disciplined W (Q (fst (ts ! i))) (snd (ts ! i)) (Ks i)"
      "\<forall>i < length ts. \<forall>j < length ts. i \<noteq> j \<longrightarrow> disjoint (Ks i) (Ks j)"
    using ok by (auto simp: pool_ok_def)
  have "disjoint K L" "disjoint L K" for L using K(2) by (simp_all add: disjoint_def)
  with Ks m' K show ?thesis
    by (auto simp: pool_ok_def nth_append less_Suc_eq intro!: exI [of _ "Ks(length ts := K)"])
qed

text \<open>A thread that makes a call goes on with what it has learned.\<close>

lemma pool_ok_call:
  assumes laws: "postgres_laws pg tab E" "redis_laws kv E" and ok: "pool_ok W tab kv Q (ts, m)"
    and call: "i < length ts" "ts ! i = (t, p)" "step E p m = (p', m')"
  shows "pool_ok W tab kv Q (ts[i := (t, p')], m') \<and> spares W tab kv (world m) (world m')"
proof -
  obtain Ks where Ks: "\<forall>j < length ts. known m (Ks j) \<and>
        disciplined W (Q (fst (ts ! j))) (snd (ts ! j)) (Ks j)"
      "\<forall>j < length ts. \<forall>k < length ts. j \<noteq> k \<longrightarrow> disjoint (Ks j) (Ks k)" and sh: "shared_ok W tab kv m"
    using ok by (auto simp: pool_ok_def)
  have "known m (Ks i)" "disciplined W (Q t) p (Ks i)" using Ks(1) call by force+
  from disciplined_step [OF laws sh this] call(3)
  obtain K' where K': "shared_ok W tab kv m'" "spares W tab kv (world m) (world m')" "known m' K'"
      "disciplined W (Q t) p' K'"
      and others: "\<And>L. known m L \<Longrightarrow> disjoint (Ks i) L \<Longrightarrow> known m' L \<and> disjoint K' L"
    by (auto simp: kept_def)
  let ?Ks = "Ks(i := K')"
  have sym: "disjoint K L \<longleftrightarrow> disjoint L K" for K L by (auto simp: disjoint_def)
  have "\<forall>j < length ts. j \<noteq> i \<longrightarrow> known m' (Ks j) \<and> disjoint K' (Ks j)"
    using Ks others call(1) by blast
  then have "\<forall>j < length ts. known m' (?Ks j) \<and>
        disciplined W (Q (fst (ts[i := (t, p')] ! j))) (snd (ts[i := (t, p')] ! j)) (?Ks j)"
      "\<forall>j < length ts. \<forall>k < length ts. j \<noteq> k \<longrightarrow> disjoint (?Ks j) (?Ks k)"
    using Ks K' sym by (auto simp: nth_list_update)
  with K'(1,2) show ?thesis unfolding pool_ok_def by auto
qed

text \<open>
  The interface of a pool: its threads keep to the discipline, for the users that they are
  labelled to write for.
\<close>

locale guarded_pool =
  fixes P :: "('l, 'a) pool" and writes :: "'l \<Rightarrow> string set" and Q :: "'l \<Rightarrow> 'a \<Rightarrow> knowledge \<Rightarrow> bool"
  assumes arriving: "arrives P t \<Longrightarrow> writes t \<subseteq> W \<Longrightarrow> disciplined W (Q t) (program P t) K"
    and warming: "users K a = Some v \<Longrightarrow> owned K a = None \<Longrightarrow> v \<in> W \<Longrightarrow> g = WarmCache a u \<Longrightarrow>
      disciplined W (Q (goroutine P g)) (program P (goroutine P g)) K"
begin

lemma pool_ok_steps:
  assumes laws: "postgres_laws pg tab E" "redis_laws kv E"
    and steps: "steps P E (ts, m) (ts', m')" and ok: "pool_ok W tab kv Q (ts, m)"
    and within: "\<forall>t \<in> fst ` set ts'. writes t \<subseteq> W"
  shows "pool_ok W tab kv Q (ts', m') \<and> spares W tab kv (world m) (world m')"
proof (rule stepsE [OF steps])
  fix t assume t: "(ts', m') = (ts @ [(t, program P t)], m)" "arrives P t"
  have "shared_ok W tab kv m" using ok by (simp add: pool_ok_def)
  moreover have "disciplined W (Q t) (program P t) nothing" using arriving t within by auto
  moreover have "known m nothing" by (simp add: known_def)
  ultimately show ?thesis
    using t ok pool_ok_join [of W tab kv Q ts m m nothing t "program P t"] by (simp add: spares_refl)
next
  fix g gs
  assume t: "(ts', m') = (ts @ [(goroutine P g, program P (goroutine P g))], m\<lparr>spawned := gs\<rparr>)"
    "spawned m = g # gs"
  obtain a u where g: "g = WarmCache a u" by (cases g)
  have a: "a < fresh m" "UserID (heap m a) \<in> W" using ok t g by (auto simp: pool_ok_def shared_ok_def)
  let ?K = "nothing\<lparr>users := [a \<mapsto> UserID (heap m a)]\<rparr>"
  have ok': "shared_ok W tab kv (m\<lparr>spawned := gs\<rparr>)" "known (m\<lparr>spawned := gs\<rparr>) ?K"
    using ok t a by (auto simp: pool_ok_def shared_ok_def known_def nothing_def)
  have same: "\<forall>L. known m L \<longrightarrow> known (m\<lparr>spawned := gs\<rparr>) L" by (simp add: known_def)
  have "owned ?K = Map.empty" by (simp add: nothing_def)
  moreover have "disciplined W (Q (goroutine P g)) (program P (goroutine P g)) ?K"
    using a(2) g by (intro warming) (simp_all add: nothing_def)
  ultimately have "pool_ok W tab kv Q (ts @ [(goroutine P g, program P (goroutine P g))], m\<lparr>spawned := gs\<rparr>)"
    by (rule pool_ok_join [OF ok ok'(1) same ok'(2)])
  moreover have "spares W tab kv (world m) (world (m\<lparr>spawned := gs\<rparr>))" by (simp add: spares_refl)
  ultimately show ?thesis using t(1) by (metis Pair_inject)
next
  fix i t p p' m''
  assume "(ts', m') = (ts[i := (t, p')], m'')" "i < length ts" "ts ! i = (t, p)" "step E p m = (p', m'')"
  then show ?thesis using pool_ok_call [OF laws ok] by simp
qed

lemma pool_ok_reachable:
  assumes laws: "postgres_laws pg tab E" "redis_laws kv E" and start: "pool_ok W tab kv Q (ts, m)"
  shows "(steps P E)^** (ts, m) s \<Longrightarrow> \<forall>t \<in> fst ` set (fst s). writes t \<subseteq> W \<Longrightarrow>
    pool_ok W tab kv Q s \<and> spares W tab kv (world m) (world (snd s))"
proof (induction rule: rtranclp_induct)
  case base
  with start show ?case by (simp add: spares_refl)
next
  case (step s s')
  obtain ts1 m1 ts2 m2 where s: "s = (ts1, m1)" "s' = (ts2, m2)" by fastforce
  have within: "\<forall>t \<in> fst ` set ts2. writes t \<subseteq> W" using step.prems s by simp
  then have "\<forall>t \<in> fst ` set (fst s). writes t \<subseteq> W"
    using steps_labels [OF step.hyps(2)] s by fastforce
  with step.IH s have ok: "pool_ok W tab kv Q (ts1, m1)" "spares W tab kv (world m) (world m1)" by auto
  from pool_ok_steps [OF laws _ ok(1) within, of m2] step.hyps s ok(2) show ?case
    by (auto intro: spares_trans)
qed

text \<open>What is so of everything that can be reached from stores in order.\<close>

lemma reached:
  assumes "postgres_laws pg tab E" "redis_laws kv E"
    and "table_ok (tab (world m))" "cache_ok (kv (world m))" "spawned m = []"
    and "(steps P E)^** ([], m) (ts, m')" and "\<forall>t \<in> fst ` set ts. writes t \<subseteq> W"
  shows "table_ok (tab (world m'))" "cache_ok (kv (world m'))" "spares W tab kv (world m) (world m')"
    "(t, Done x) \<in> set ts \<Longrightarrow> \<exists>K. known m' K \<and> Q t x K"
proof -
  have "pool_ok W tab kv Q ([], m)" using assms(3-5) by (intro pool_ok_start) (simp add: shared_ok_def)
  from pool_ok_reachable [OF assms(1,2) this assms(6)] assms(7)
  have ok: "pool_ok W tab kv Q (ts, m')" "spares W tab kv (world m) (world m')" by simp_all
  then show "table_ok (tab (world m'))" "cache_ok (kv (world m'))" "spares W tab kv (world m) (world m')"
    by (simp_all add: pool_ok_def shared_ok_def)
  show "(t, Done x) \<in> set ts \<Longrightarrow> \<exists>K. known m' K \<and> Q t x K" using pool_ok_finished [OF ok(1)] .
qed

end

end
