(* ===== verification/Isolation.thy ===== *)
theory Isolation
  imports Concurrency Discipline
begin

text \<open>
  The programs of the service keep to the discipline. So users do not get at each other's
  sessions, and what is acknowledged is written, whatever runs at the same time.
\<close>

subsection \<open>The programs are disciplined\<close>

text \<open>
  A session for the user \<open>u\<close>: the cache's answer went through JSON, which replaces the bytes
  of \<open>u\<close> that are not UTF-8.
\<close>

definition for_user :: "string \<Rightarrow> string \<Rightarrow> bool" where
  "for_user u v \<longleftrightarrow> v = u \<or> v = utf8_fix u"

definition own_users :: "string \<Rightarrow> string set" where
  "own_users u = {u, utf8_fix u}"

lemma for_user_own: "own_users u \<subseteq> W \<Longrightarrow> for_user u v \<Longrightarrow> v \<in> W"
  by (auto simp: own_users_def for_user_def)

text \<open>The errors that the service answers with: application errors with a failing status.\<close>

definition failure :: "go_error \<Rightarrow> bool" where
  "failure e \<longleftrightarrow> (\<exists>a. e = App a \<and> 400 \<le> HTTPStatus a)"

lemma failure_App [simp]:
  "failure (App (NewInternal msg e))" "failure (App (NewNotFound msg))"
  by (simp_all add: failure_def NewInternal_def NewNotFound_def)

definition got :: "string \<Rightarrow> go_error + addr \<Rightarrow> knowledge \<Rightarrow> bool" where
  "got u r K \<longleftrightarrow> (case r of Inl e \<Rightarrow> failure e | Inr p \<Rightarrow> (\<exists>s. owned K p = Some s \<and> for_user u (UserID s)))"

lemma disciplined_Get: "own_users u \<subseteq> W \<Longrightarrow> disciplined W (got u) (Get u) K"
  by (auto simp: repo_bodies got_def for_user_def own_users_def cache_key_def split: sum.split)

lemma disciplined_SetCache:
  assumes "readable K p" "\<And>s. reads K p s \<Longrightarrow> UserID s \<in> W" "Q None K" "\<And>e. Q (Some e) K"
  shows "disciplined W Q (SetCache p) K"
proof -
  have result: "Q r K" for r using assms(3,4) by (cases r) auto
  have "disciplined W Q (case marshal_session s of
      Inl err \<Rightarrow> Done (Some (Errorf ''marshal session for cache'' err))
    | Inr data \<Rightarrow> Load p (\<lambda>s. RedisSet (cacheKeyPrefix @ UserID s) data cacheTTL Done)) K"
    if s: "reads K p s" for s
  proof (cases "marshal_session s")
    case (Inr data)
    have "\<exists>u \<in> W. cacheKeyPrefix @ UserID s' = cache_key u \<and>
        (\<forall>x. unmarshal_session data = Inr x \<longrightarrow> UserID x = utf8_fix u)" if s': "reads K p s'" for s'
    proof
      have "UserID s' = UserID s" using s s' by (auto simp: reads_def split: option.splits)
      with marshal_session_user [OF Inr]
      have "\<forall>x. unmarshal_session data = Inr x \<longrightarrow> UserID x = utf8_fix (UserID s')" by metis
      then show "cacheKeyPrefix @ UserID s' = cache_key (UserID s') \<and>
          (\<forall>x. unmarshal_session data = Inr x \<longrightarrow> UserID x = utf8_fix (UserID s'))"
        by (simp only: cache_key_def simp_thms)
    qed (rule assms(2) [OF s'])
    with Inr assms(1) result show ?thesis by simp
  qed (simp add: result)
  with assms(1) show ?thesis by (simp add: SetCache_def)
qed

lemma disciplined_Upsert:
  assumes "owned K p = Some s" "UserID s \<in> W"
    and "Q None (have_done (Did_exec (row_args s) True) K)"
    and "\<And>e. Q (Some e) (have_done (Did_exec (row_args s) False) K)"
  shows "disciplined W Q (Upsert p) K"
  using assms by (auto simp: Upsert_def readable_def reads_def split: option.split)

lemma disciplined_cached:
  assumes "owned K p = Some s" "UserID s \<in> W" "disciplined W Q k K"
  shows "disciplined W Q (bind (SetCache p) (\<lambda>r. case r of Some err \<Rightarrow> Log Warn wn (at err) k | None \<Rightarrow> k)) K"
  unfolding disciplined_bind using assms
  by (intro disciplined_SetCache) (auto simp: readable_def reads_def)

lemma disciplined_saved:
  assumes "owned K p = Some s" "UserID s \<in> W"
    and "Q (Inr p) (have_done (Did_exec (row_args s) True) K)" "\<And>err L. Q (Inl (App (NewInternal fl err))) L"
  shows "disciplined W Q (bind (Upsert p) (\<lambda>r. case r of
      Some err \<Rightarrow> Done (Inl (App (NewInternal fl err)))
    | None \<Rightarrow> bind (SetCache p) (\<lambda>r. case r of Some err \<Rightarrow> Log Warn wn (at err) (Done (Inr p)) | None \<Rightarrow> Done (Inr p)))) K"
  unfolding disciplined_bind [of _ _ "Upsert p"] using assms
  by (intro disciplined_Upsert) (auto intro!: disciplined_cached)

text \<open>What a request that changes the session has written when it answers with \<open>p\<close>.\<close>

definition wrote :: "(PlaybackSession \<Rightarrow> bool) \<Rightarrow> go_error + addr \<Rightarrow> knowledge \<Rightarrow> bool" where
  "wrote P r K \<longleftrightarrow> (case r of Inl e \<Rightarrow> failure e
    | Inr p \<Rightarrow> (\<exists>s. owned K p = Some s \<and> P s \<and> Did_exec (row_args s) True \<in> did K))"

lemma disciplined_set_status:
  assumes "own_users u \<subseteq> W"
  shows "disciplined W (wrote (\<lambda>s. for_user u (UserID s) \<and> Status s = st \<and> DeviceID s = d))
    (set_status NewService st fl wn u d) K"
  unfolding set_status_def cache_or_warn_def NewService_simps
  by (rule disciplined_bindI [OF disciplined_Get [OF assms]])
    (auto simp: got_def wrote_def reads_def readable_def for_user_own [OF assms]
      intro!: disciplined_saved split: sum.splits)

lemma disciplined_Start:
  assumes "own_users u \<subseteq> W"
  shows "disciplined W (wrote (\<lambda>s. \<exists>now. s = started_session u req now))
    (Service_Start NewService u req) K"
  using assms
  by (auto simp: Service_Start_def cache_or_warn_def wrote_def own_users_def started_session_def
      intro!: disciplined_saved)

text \<open>What a heartbeat has published or written when it answers without an error.\<close>

definition delivered :: "string \<Rightarrow> HeartbeatRequest \<Rightarrow> event set \<Rightarrow> bool" where
  "delivered u req evs \<longleftrightarrow> (\<exists>now.
    (\<exists>msg t. Did_write msg True \<in> evs \<and> msg_topic msg = heartbeatTopic \<and> msg_key msg = u \<and>
      heartbeat_event t (heartbeat_session u req now) = Inr (msg_value msg)) \<or>
    Did_exec (row_args (heartbeat_session u req now)) True \<in> evs)"

lemma delivered_mono: "delivered u req evs \<Longrightarrow> evs \<subseteq> evs' \<Longrightarrow> delivered u req evs'"
  unfolding delivered_def by blast

lemma delivered_write:
  "Did_write msg True \<in> evs \<Longrightarrow> msg_topic msg = heartbeatTopic \<Longrightarrow> msg_key msg = u \<Longrightarrow>
    heartbeat_event t (heartbeat_session u req now) = Inr (msg_value msg) \<Longrightarrow> delivered u req evs"
  unfolding delivered_def by blast

lemma delivered_exec:
  "Did_exec (row_args (heartbeat_session u req now)) True \<in> evs \<Longrightarrow> delivered u req evs"
  unfolding delivered_def by blast

definition answered :: "string \<Rightarrow> HeartbeatRequest \<Rightarrow> go_error option \<Rightarrow> knowledge \<Rightarrow> bool" where
  "answered u req r K \<longleftrightarrow> (case r of None \<Rightarrow> delivered u req (did K) | Some e \<Rightarrow> failure e)"

lemma disciplined_fallback:
  assumes "owned K p = Some (heartbeat_session u req now)" "u \<in> W"
  shows "disciplined W (answered u req) (bind (Upsert p) (\<lambda>r. case r of
      Some dbErr \<Rightarrow> Done (Some (App (NewInternal tx dbErr))) | None \<Rightarrow> Done None)) K"
  unfolding disciplined_bind using assms
  by (intro disciplined_Upsert [of _ _ "heartbeat_session u req now"])
    (auto simp: answered_def intro!: delivered_exec, simp add: heartbeat_session_def)

lemma disciplined_publish:
  assumes "owned K p = Some (heartbeat_session u req now)" "u \<in> W"
    and "heartbeat_event t (heartbeat_session u req now) = Inr v"
  shows "disciplined W (answered u req) (bind (Publish heartbeatTopic u v) (\<lambda>r. case r of
      Some pubErr \<Rightarrow> Log Error_level tx (at pubErr) (bind (Upsert p) (\<lambda>r. case r of
          Some dbErr \<Rightarrow> Done (Some (App (NewInternal ty dbErr))) | None \<Rightarrow> Done None))
    | None \<Rightarrow> Done None)) K"
  using assms
  by (auto simp: Publish_def injectTraceHeaders_def answered_def
      intro!: disciplined_fallback delivered_write [OF insertI1] split: option.split)

lemma heartbeat_eventI:
  "marshal_session s = Inr raw \<Longrightarrow> marshal_envelope \<lparr>env_Type = ''playback.heartbeat'', env_Version = 1,
      env_Timestamp = t, env_Payload = raw\<rparr> = Inr data \<Longrightarrow> heartbeat_event t s = Inr data"
  by (simp add: heartbeat_event_def)

lemma disciplined_Heartbeat:
  assumes "own_users u \<subseteq> W"
  shows "disciplined W (answered u req) (Service_Heartbeat NewService u req) K"
proof -
  have u: "u \<in> W" using assms by (auto simp: own_users_def)
  have send: "disciplined W (answered u req) (Load p (\<lambda>s.
      bind (NewEnvelope ''playback.heartbeat'' 1 (marshal_session s)) (\<lambda>r. case r of
        Inl err \<Rightarrow> Done (Some (App (NewInternal ''failed to encode heartbeat event'' err)))
      | Inr payload \<Rightarrow> bind (Publish heartbeatTopic u payload) (\<lambda>r. case r of
            Some pubErr \<Rightarrow> Log Error_level ''kafka publish failed, writing heartbeat directly to db''
              [(''user_id'', AText u), (''error'', AErr pubErr)] (bind (Upsert p) (\<lambda>r. case r of
                Some dbErr \<Rightarrow> Done (Some (App (NewInternal ''failed to persist heartbeat'' dbErr)))
              | None \<Rightarrow> Done None))
          | None \<Rightarrow> Done None)))) K"
    if p: "owned K p = Some (heartbeat_session u req now)" for p now K
    using p
    by (auto simp: NewEnvelope_def readable_def reads_def answered_def
        intro!: disciplined_publish [OF p u heartbeat_eventI] split: sum.split)
  show ?thesis
    unfolding Service_Heartbeat_def cache_or_warn_def NewService_simps
    by (auto simp: heartbeat_session_def [symmetric] u
        intro!: disciplined_cached [of _ _ "heartbeat_session u req _"] send)
      (simp_all add: heartbeat_session_def u)
qed

lemma disciplined_consumer:
  "disciplined UNIV (\<lambda>_ _. True) (consumer_goroutine n (NewHeartbeatConsumer cfg)) K"
proof -
  let ?h = "handle (NewHeartbeatConsumer cfg)"
  have "disciplined UNIV (\<lambda>_ _. True) (?h msg) K" for msg K
    by (auto simp: handle_def NewHeartbeatConsumer_def disciplined_bind readable_def
        intro!: disciplined_Upsert split: sum.split)
  then have turn: "disciplined UNIV (\<lambda>_ _. True) (consume_once ?h) K" for K
    by (auto simp: consume_once_def commit_def intro!: disciplined_bindI split: sum.split option.split)
  have "disciplined UNIV (\<lambda>_ _. True) (Run_loop n ?h) K" for K
  proof (induction n arbitrary: K)
    case (Suc n)
    then show ?case by (auto intro!: disciplined_bindI [OF turn] split: option.split)
  qed simp
  then have "disciplined UNIV (\<lambda>_ _. True) (Run c n ?h) K" for c by (simp add: Run_def)
  then show ?thesis
    unfolding consumer_goroutine_def by (rule disciplined_bindI) (auto split: option.split)
qed

subsection \<open>The pool\<close>

fun user_of :: "task \<Rightarrow> string option" where
  "user_of (TStart u _) = Some u"
| "user_of (TCurrent u) = Some u"
| "user_of (THeartbeat u _) = Some u"
| "user_of (TPause u _) = Some u"
| "user_of (TResume u _) = Some u"
| "user_of (TConsume _ _) = None"
| "user_of (Warming _) = None"

text \<open>The users a task writes for; the consumer writes for anyone.\<close>

fun writes_of :: "task \<Rightarrow> string set" where
  "writes_of (TConsume _ _) = UNIV"
| "writes_of t = (case user_of t of Some u \<Rightarrow> own_users u | None \<Rightarrow> {})"

fun result_ok :: "task \<Rightarrow> outcome \<Rightarrow> knowledge \<Rightarrow> bool" where
  "result_ok (TStart u req) (Session r) K = wrote (\<lambda>s. \<exists>now. s = started_session u req now) r K"
| "result_ok (TCurrent u) (Session r) K = got u r K"
| "result_ok (TPause u d) (Session r) K =
    wrote (\<lambda>s. for_user u (UserID s) \<and> Status s = StatusPaused \<and> DeviceID s = d) r K"
| "result_ok (TResume u d) (Session r) K =
    wrote (\<lambda>s. for_user u (UserID s) \<and> Status s = StatusPlaying \<and> DeviceID s = d) r K"
| "result_ok (THeartbeat u req) (Answer r) K = answered u req r K"
| "result_ok (THeartbeat u req) (Session r) K = False"
| "result_ok _ _ K = True"

lemma disciplined_thread:
  assumes "writes_of t \<subseteq> W" "\<forall>g. t \<noteq> Warming g"
  shows "disciplined W (result_ok t) (thread t) K"
  using assms
proof (cases t)
  case (TConsume n cfg)
  with assms disciplined_consumer show ?thesis by (simp add: disciplined_bind top.extremum_unique)
qed (auto simp: disciplined_bind Service_GetCurrent_def set_status_instances
    intro: disciplined_Start disciplined_Get disciplined_Heartbeat disciplined_set_status)

interpretation service_threads: guarded_pool service_pool writes_of result_ok
proof unfold_locales
  fix t W K
  assume "arrives service_pool t" "writes_of t \<subseteq> W"
  then show "disciplined W (result_ok t) (program service_pool t) K"
    using disciplined_thread by simp
next
  fix K :: knowledge and a v W g u
  assume "users K a = Some v" "owned K a = None" "v \<in> W" "g = WarmCache a u"
  then show "disciplined W (result_ok (goroutine service_pool g)) (program service_pool (goroutine service_pool g)) K"
    by (auto simp: disciplined_bind readable_def reads_def intro!: disciplined_SetCache)
qed

text \<open>
  C9. The stores stay in order, whatever runs at the same time: with the laws of the two
  stores, if every row of the table is a session under its user and every cache entry that
  can be read is a session of the user in its key, then that is so in every state that
  requests, the consumer and the warming goroutines can reach in any order of their calls.
\<close>

theorem stores_stay_consistent:
  assumes "postgres_laws pg tab E" "redis_laws kv E"
    and "table_ok (tab (world m))" "cache_ok (kv (world m))" "spawned m = []"
    and "(moves E)^** ([], m) (ts, m')"
  shows "table_ok (tab (world m')) \<and> cache_ok (kv (world m'))"
  using service_threads.reached(1,2) [OF assms] by blast

text \<open>A read of a session that is in the database only, from its arrival to its answer.\<close>

definition lone_session :: PlaybackSession where
  "lone_session = zero_session\<lparr>UserID := ''u1''\<rparr>"

lemma lone_read:
  "\<exists>m' p. (moves in_memory)^** ([], boot (with_session lone_session))
    ([(TCurrent ''u1'', Done (Session (Inr p)))], m')"
proof -
  let ?m = "boot (with_session lone_session)" and ?t = "TCurrent ''u1''"
  have "up (world ?m)" "sessions (sv_table (world ?m)) ''u1'' = Some lone_session"
    by (simp_all add: boot_def lone_session_def)
  then obtain p m1 where get: "run in_memory (Get ''u1'') ?m = (Inr p, m1)"
    using in_memory_Get by blast
  have "moves in_memory ([], ?m) ([(?t, thread ?t)], ?m)"
    using moves_arrive [of ?t in_memory "[]"] by simp
  moreover have "(moves in_memory)^** ([(?t, thread ?t)], ?m) ([(?t, Done (Session (Inr p)))], m1)"
    using reach_bind [where P = service_pool, of 0 "[(?t, thread ?t)]" ?t "Get ''u1''" "\<lambda>r. Done (Session r)", OF _ _ get]
    by (simp add: Service_GetCurrent_def)
  ultimately show ?thesis by (blast intro: converse_rtranclp_into_rtranclp)
qed

lemma lone_stores:
  "table_ok (sv_table (world (boot (with_session lone_session))))"
  "cache_ok (sv_cache (world (boot (with_session lone_session))))"
  "spawned (boot (with_session lone_session)) = []"
  by (simp_all add: boot_def cache_ok_def)

lemma stores_stay_consistent_witness:
  "\<exists>ts m'. (moves in_memory)^** ([], boot (with_session lone_session)) (ts, m') \<and> length ts = 1 \<and>
    table_ok (sv_table (world m'))"
proof -
  obtain m' p where r: "(moves in_memory)^** ([], boot (with_session lone_session))
      ([(TCurrent ''u1'', Done (Session (Inr p)))], m')" using lone_read by blast
  from stores_stay_consistent [OF in_memory_postgres in_memory_redis lone_stores r] r
  show ?thesis by (intro exI [of _ "[(TCurrent ''u1'', Done (Session (Inr p)))]"] exI [of _ m']) simp
qed

text \<open>
  No one gets another user's session: in every state that can be reached from one whose
  stores are in order, a request for a user that has been answered with a session points to a
  session of that user (up to the replacement of bytes that are not UTF-8, which the cache's
  JSON makes).
\<close>

lemma no_foreign_session:
  assumes "postgres_laws pg tab E" "redis_laws kv E"
    and "table_ok (tab (world m))" "cache_ok (kv (world m))" "spawned m = []"
    and "(moves E)^** ([], m) (ts, m')"
    and "(t, Done (Session (Inr p))) \<in> set ts" "user_of t = Some u"
  shows "UserID (heap m' p) = u \<or> UserID (heap m' p) = utf8_fix u"
proof -
  obtain K where "known m' K" "result_ok t (Session (Inr p)) K"
    using service_threads.reached(4) [OF assms(1-6) _ assms(7)] by blast
  with assms(8) show ?thesis
    by (cases t) (auto simp: known_def wrote_def got_def for_user_def started_session_def)
qed

lemma no_foreign_session_witness:
  "\<exists>ts m' p. (moves in_memory)^** ([], boot (with_session lone_session)) (ts, m') \<and>
    (TCurrent ''u1'', Done (Session (Inr p))) \<in> set ts \<and> UserID (heap m' p) = ''u1''"
proof -
  obtain m' p where r: "(moves in_memory)^** ([], boot (with_session lone_session))
      ([(TCurrent ''u1'', Done (Session (Inr p)))], m')" using lone_read by blast
  have "utf8_fix ''u1'' = ''u1''" by (simp add: byte_def)
  with no_foreign_session [OF in_memory_postgres in_memory_redis lone_stores r, of "TCurrent ''u1''" p "''u1''"] r
  show ?thesis
    by (intro exI [of _ "[(TCurrent ''u1'', Done (Session (Inr p)))]"] exI [of _ m'] exI [of _ p]) auto
qed

text \<open>What a task promises with its answer.\<close>

fun acknowledged :: "task \<Rightarrow> outcome \<Rightarrow> 'w machine \<Rightarrow> bool" where
  "acknowledged (TStart u req) (Session (Inr p)) m =
    ((\<exists>now. heap m p = started_session u req now) \<and>
     Did_exec (row_args (heap m p)) True \<in> set (history m))"
| "acknowledged (TPause u d) (Session (Inr p)) m =
    (Status (heap m p) = StatusPaused \<and> DeviceID (heap m p) = d \<and>
     Did_exec (row_args (heap m p)) True \<in> set (history m))"
| "acknowledged (TResume u d) (Session (Inr p)) m =
    (Status (heap m p) = StatusPlaying \<and> DeviceID (heap m p) = d \<and>
     Did_exec (row_args (heap m p)) True \<in> set (history m))"
| "acknowledged (THeartbeat u req) (Answer None) m = delivered u req (set (history m))"
| "acknowledged _ _ _ = True"

lemma result_ok_acknowledged: "known m K \<Longrightarrow> result_ok t x K \<Longrightarrow> acknowledged t x m"
  by (cases "(t, x, m)" rule: acknowledged.cases)
    (auto simp: known_def wrote_def answered_def intro: delivered_mono)

text \<open>
  C7. What is acknowledged is written, and stays what was written, whatever runs at the same
  time: when a start, a pause or a resume has been answered with a session, the database has
  executed the upsert of exactly the session that the answer points to, with the content that
  was asked for (no other request and no warming goroutine has changed it since); when a
  heartbeat has been answered without an error, its event was published under the user's key
  or its session was written to the database.
\<close>

theorem acknowledged_is_durable:
  assumes "postgres_laws pg tab E" "redis_laws kv E"
    and "table_ok (tab (world m))" "cache_ok (kv (world m))" "spawned m = []"
    and "(moves E)^** ([], m) (ts, m')"
    and "(t, Done x) \<in> set ts"
  shows "acknowledged t x m'"
  using service_threads.reached(4) [OF assms(1-6) _ assms(7)] result_ok_acknowledged by blast

lemma boot_all_up [simp]:
  "world (boot w) = w" "spawned (boot w) = []" "history (boot w) = []" "cache_ok Map.empty"
  by (simp_all add: boot_def cache_ok_def)

lemma lone_request:
  "run E (thread t) m = (x, m') \<Longrightarrow> \<forall>g. t \<noteq> Warming g \<Longrightarrow> (moves E)^** ([], m) ([(t, Done x)], m')"
  by (rule reach_alone) simp_all

definition lone_beat :: HeartbeatRequest where
  "lone_beat = \<lparr>hr_TrackID = ''t1'', hr_Position = 7, hr_DeviceID = ''d1''\<rparr>"

lemma acknowledged_is_durable_witness:
  "\<exists>m'. (moves in_memory)^** ([], boot all_up)
      ([(THeartbeat ''u1'' lone_beat, Done (Answer None))], m') \<and>
    delivered ''u1'' lone_beat (set (history m'))"
proof -
  let ?req = lone_beat
  obtain m' where "run in_memory (Service_Heartbeat NewService ''u1'' ?req) (boot all_up) = (None, m')"
    using in_memory_heartbeat [of "boot all_up" "''u1''" ?req] by (auto simp: all_up_def)
  then have r: "(moves in_memory)^** ([], boot all_up) ([(THeartbeat ''u1'' ?req, Done (Answer None))], m')"
    by (intro lone_request) (simp_all add: run_bind)
  have "acknowledged (THeartbeat ''u1'' ?req) (Answer None) m'"
    by (rule acknowledged_is_durable [OF in_memory_postgres in_memory_redis _ _ _ r])
      (simp_all add: all_up_def)
  with r show ?thesis by auto
qed

text \<open>
  The requests of other users do not touch a user's session: as long as no request is for
  \<open>u\<close> (nor for a user whose bytes become \<open>u\<close> when they are made UTF-8) and no consumer runs,
  the row of \<open>u\<close> stays as it is, and its cache entry is what it was or is gone, whatever the
  other requests and their goroutines do and whatever the services answer.
\<close>

lemma others_cannot_touch:
  assumes "postgres_laws pg tab E" "redis_laws kv E"
    and "table_ok (tab (world m))" "cache_ok (kv (world m))" "spawned m = []"
    and "(moves E)^** ([], m) (ts, m')"
    and "\<forall>t \<in> fst ` set ts. (\<exists>v. user_of t = Some v \<and> u \<noteq> v \<and> u \<noteq> utf8_fix v) \<or> (\<exists>g. t = Warming g)"
  shows "tab (world m') u = tab (world m) u \<and>
    kv (world m') (cache_key u) \<in> {None, kv (world m) (cache_key u)}"
proof -
  have "writes_of t \<subseteq> - {u}" if "t \<in> fst ` set ts" for t
  proof -
    have "(\<exists>v. user_of t = Some v \<and> u \<noteq> v \<and> u \<noteq> utf8_fix v) \<or> (\<exists>g. t = Warming g)"
      using assms(7) that by blast
    then show ?thesis by (cases t) (auto simp: own_users_def)
  qed
  then have "spares (- {u}) tab kv (world m) (world m')" using service_threads.reached(3) [OF assms(1-6)] by blast
  then show ?thesis by (simp add: spares_def)
qed

lemma others_cannot_touch_witness:
  "\<exists>x m'. (moves in_memory)^** ([], boot (with_session lone_session))
      ([(TStart ''u2'' \<lparr>sr_TrackID = ''t1'', sr_DeviceID = ''d1'', sr_Position = 7\<rparr>, Done x)], m') \<and>
    sessions (sv_table (world m')) ''u1'' = Some lone_session"
proof -
  let ?t = "TStart ''u2'' \<lparr>sr_TrackID = ''t1'', sr_DeviceID = ''d1'', sr_Position = 7\<rparr>"
  let ?m = "boot (with_session lone_session)"
  obtain x m' where "run in_memory (thread ?t) ?m = (x, m')" by fastforce
  then have r: "(moves in_memory)^** ([], ?m) ([(?t, Done x)], m')" by (rule lone_request) simp
  have "utf8_fix ''u2'' = ''u2''" by (simp add: byte_def)
  then have "sv_table (world m') ''u1'' = sv_table (world ?m) ''u1''"
    using others_cannot_touch [OF in_memory_postgres in_memory_redis lone_stores r, of "''u1''"] by simp
  then have "sessions (sv_table (world m')) ''u1'' = sessions (sv_table (world ?m)) ''u1''"
    by (simp only: sessions_def select_row_def)
  also have "... = Some lone_session" by (simp add: lone_session_def)
  finally show ?thesis using r by blast
qed

end
