(* ===== verification/Races.thy ===== *)
theory Races
  imports Isolation
begin

text \<open>
  Orders of events that lose an update although every service is up: the goroutine that warms
  the cache against a pause, and a heartbeat that the consumer handles late.
\<close>

subsection \<open>The cache is warmed with what was read before the pause\<close>

definition demo_session :: PlaybackSession where
  "demo_session = \<lparr>UserID = ''u1'', TrackID = ''t1'', Position = 42, Status = StatusPlaying,
     DeviceID = ''d1'', UpdatedAt = instant 0\<rparr>"

lemma demo_texts: "text_ok ''u1''" "text_ok ''t1''" "text_ok ''d1''" "text_ok ''d2''"
  "text_ok StatusPlaying" "text_ok StatusPaused" "char_count StatusPlaying \<le> 10" "char_count StatusPaused \<le> 10"
  by code_simp+

lemma demo_session_ok:
  "session_accepted demo_session" "session_accepted (restamp StatusPaused ''d2'' t demo_session)"
  "valid_session demo_session"
  using demo_texts
  by (simp_all add: session_accepted_iff demo_session_def restamp_def valid_session_def text_ok_def)

text \<open>What is left of a pause once it has its session.\<close>

definition pause_rest :: "string \<Rightarrow> string \<Rightarrow> go_error + addr \<Rightarrow> (go_error + addr) prog" where
  "pause_rest u d r = (case r of
      Inl err \<Rightarrow> Done (Inl err)
    | Inr p \<Rightarrow> Load p (\<lambda>s. Store p (s\<lparr>Status := StatusPaused\<rparr>) (
        Load p (\<lambda>s. Store p (s\<lparr>DeviceID := d\<rparr>) (
        Now (\<lambda>now. Load p (\<lambda>s. Store p (s\<lparr>UpdatedAt := now\<rparr>) (
        bind (Upsert p) (\<lambda>r. case r of
          Some err \<Rightarrow> Done (Inl (App (NewInternal ''failed to pause session'' err)))
        | None \<Rightarrow> bind (SetCache p) (\<lambda>r. case r of
            Some err \<Rightarrow> Log Warn ''failed to cache paused session''
              [(''user_id'', AText u), (''error'', AErr err)] (Done (Inr p))
          | None \<Rightarrow> Done (Inr p)))))))))))"

text \<open>The end of a pause, from the stores to its pointer on, when everything is up.\<close>

lemma run_in_memory_pause_rest:
  assumes "up (world m)" "session_accepted (restamp StatusPaused d (instant (sv_ticks (world m))) (heap m p))"
    and "marshal_session (restamp StatusPaused d (instant (sv_ticks (world m))) (heap m p)) = Inr data"
    and "table_ok (sv_table (world m))"
  shows "\<exists>m'. run in_memory (pause_rest u d (Inr p)) m = (Inr p, m') \<and>
      heap m' = (heap m)(p := restamp StatusPaused d (instant (sv_ticks (world m))) (heap m p)) \<and>
      fresh m' = fresh m \<and> spawned m' = spawned m \<and> up (world m') \<and>
      sessions (sv_table (world m')) = (sessions (sv_table (world m)))
        (UserID (heap m p) \<mapsto> restamp StatusPaused d (instant (sv_ticks (world m))) (heap m p)) \<and>
      sv_cache (world m') = (sv_cache (world m))(cache_key (UserID (heap m p)) \<mapsto> data)"
proof -
  let ?s = "restamp StatusPaused d (instant (sv_ticks (world m))) (heap m p)"
  have s: "(heap m p)\<lparr>Status := StatusPaused, DeviceID := d, UpdatedAt := instant (sv_ticks (world m))\<rparr> = ?s"
    by (simp add: restamp_def)
  have "UserID ?s = UserID (heap m p)" "stored_session id ?s = ?s" by (simp_all add: restamp_def stored_session_def)
  with assms s show ?thesis
    by (simp add: pause_rest_def run_bind run_Upsert run_SetCache in_memory_def up_def session_accepted_def
        apply_upsert_session cache_key_def)
qed

lemma thread_TPause:
  "thread (TPause u d) = bind (Get u) (\<lambda>r. bind (pause_rest u d r) (\<lambda>r. Done (Session r)))"
  unfolding thread.simps Service_Pause_def cache_or_warn_def NewService_simps bind_assoc pause_rest_def ..

text \<open>The warming goroutine after its first look at the session, which was \<open>s\<close>.\<close>

definition warm_rest :: "string \<Rightarrow> addr \<Rightarrow> bytes \<Rightarrow> outcome prog" where
  "warm_rest u p data = Load p (\<lambda>s. RedisSet (cacheKeyPrefix @ UserID s) data cacheTTL (\<lambda>r.
     bind (case r of
       Some err \<Rightarrow> Log Warn ''cache warm failed'' [(''user_id'', AText u), (''error'', AErr err)] (Done ())
     | None \<Rightarrow> Done ()) (\<lambda>_. Done Ended)))"

lemma thread_Warming:
  assumes "marshal_session (heap m p) = Inr data"
  shows "step E (thread (Warming (WarmCache p u))) m = (warm_rest u p data, m)"
  using assms by (simp add: SetCache_def warm_rest_def)

text \<open>
  The schedule of the race, over any services: the pause reads, the goroutine starts and
  encodes, the pause ends, the goroutine writes.
\<close>

lemma race_moves:
  assumes read: "run E (Get u) m0 = (Inr p, m1)" "spawned m1 = [WarmCache p u]"
    and encoded: "marshal_session (heap m1 p) = Inr old"
    and rest: "run E (pause_rest u d (Inr p)) (m1\<lparr>spawned := []\<rparr>) = (r, m3)"
    and warm: "run E (warm_rest u p old) m3 = (Ended, m4)"
  shows "(moves E)^** ([], m0) ([(TPause u d, Done (Session r)), (Warming (WarmCache p u), Done Ended)], m4)"
proof -
  let ?pause = "TPause u d" and ?warm = "Warming (WarmCache p u)"
  let ?k = "\<lambda>r. bind (pause_rest u d r) (\<lambda>r. Done (Session r))"
  let ?m2 = "m1\<lparr>spawned := []\<rparr>"
  let ?start = "[(?pause, bind (Get u) ?k)]"
  let ?got = "[(?pause, ?k (Inr p)), (?warm, thread ?warm)]"
  let ?encoded = "[(?pause, ?k (Inr p)), (?warm, warm_rest u p old)]"
  let ?answered = "[(?pause, Done (Session r)), (?warm, warm_rest u p old)]"
  have "moves E ([], m0) ([(?pause, thread ?pause)], m0)"
    using moves_arrive [of ?pause E "[]"] by simp
  then have s1: "(moves E)^** ([], m0) (?start, m0)" unfolding thread_TPause by blast
  have s2: "(moves E)^** (?start, m0) ([(?pause, ?k (Inr p))], m1)"
    using reach_bind [where P = service_pool, of 0 ?start ?pause "Get u" ?k, OF _ _ read(1)] by simp
  have s3: "(moves E)^** ([(?pause, ?k (Inr p))], m1) (?got, ?m2)"
    using moves_go [OF read(2), of E "[(?pause, ?k (Inr p))]"] by simp
  have "step E (thread ?warm) ?m2 = (warm_rest u p old, ?m2)"
    using encoded by (intro thread_Warming) simp
  moreover have "\<not> finished (thread ?warm)" by (simp add: SetCache_def)
  ultimately have s4: "(moves E)^** (?got, ?m2) (?encoded, ?m2)"
    using moves_call [of 1 ?got ?warm "thread ?warm" E ?m2 "warm_rest u p old" ?m2]
    by (simp del: thread.simps)
  have s5: "(moves E)^** (?encoded, ?m2) (?answered, m3)"
    using reach_bind [where P = service_pool, of 0 ?encoded ?pause _ "\<lambda>r. Done (Session r)", OF _ _ rest] by simp
  have s6: "(moves E)^** (?answered, m3) ([(?pause, Done (Session r)), (?warm, Done Ended)], m4)"
    using reach_end [where P = service_pool, of 1 ?answered ?warm, OF _ _ warm] by simp
  show ?thesis
    by (rule rtranclp_trans [OF s1 rtranclp_trans [OF s2 rtranclp_trans [OF s3 rtranclp_trans
      [OF s4 rtranclp_trans [OF s5 s6]]]]])
qed

lemma run_demo_Get:
  "\<exists>m1. run in_memory (Get ''u1'') (boot (with_session demo_session)) = (Inr 0, m1) \<and>
    world m1 = with_session demo_session \<and> heap m1 0 = demo_session \<and> spawned m1 = [WarmCache 0 ''u1'']"
proof -
  have "select_row select_session ''u1'' (sv_table (with_session demo_session)) = Some (row_args demo_session)"
    "scan_session (row_args demo_session) = Inr demo_session"
    by (simp_all add: with_session_def demo_session_def select_row_def select_session_def
        List.map_filter_def row_args_def scan_session_def)
  then show ?thesis
    by (simp add: repo_bodies in_memory_def boot_def with_session_def all_up_def)
qed

text \<open>
  C17. The warming race: with every service up and the session in the database only, a pause
  that misses the cache starts the goroutine that warms it; if the goroutine has encoded the
  session before the pause changes it and writes after the pause has written, then both end
  without an error, the database has the paused session, and the current session is the
  playing one that the cache now has for a day.
\<close>

theorem warm_cache_race:
  "\<exists>m' p q m''. (moves in_memory)^** ([], boot (with_session demo_session))
      ([(TPause ''u1'' ''d2'', Done (Session (Inr p))), (Warming (WarmCache p ''u1''), Done Ended)], m') \<and>
    spawned m' = [] \<and> up (world m') \<and> Status (heap m' p) = StatusPaused \<and>
    map_option Status (sessions (sv_table (world m')) ''u1'') = Some StatusPaused \<and>
    run in_memory (Service_GetCurrent NewService ''u1'') m' = (Inr q, m'') \<and>
    Status (heap m'' q) = StatusPlaying"
proof -
  let ?m0 = "boot (with_session demo_session)"
  obtain m1 where got: "run in_memory (Get ''u1'') ?m0 = (Inr 0, m1)" and m1:
      "world m1 = with_session demo_session" "heap m1 0 = demo_session" "spawned m1 = [WarmCache 0 ''u1'']"
    using run_demo_Get by blast
  obtain old where old: "marshal_session demo_session = Inr old" "unmarshal_session old = Inr demo_session"
    using unmarshal_marshal_session [of demo_session] demo_session_ok(3) sanitize_id
    by (auto simp: valid_session_def)
  let ?paused = "restamp StatusPaused ''d2'' (instant 0) demo_session"
  obtain new where new: "marshal_session ?paused = Inr new"
    using unmarshal_marshal_session [of ?paused] by (auto simp: restamp_def)
  let ?m2 = "m1\<lparr>spawned := []\<rparr>"
  have w: "up (world ?m2)" "heap ?m2 0 = demo_session" "table_ok (sv_table (world ?m2))"
      "sv_ticks (world ?m2) = 0" "UserID demo_session = ''u1''"
    by (simp_all add: m1 demo_session_def) (simp add: with_session_def all_up_def)
  obtain m3 where rest: "run in_memory (pause_rest ''u1'' ''d2'' (Inr 0)) ?m2 = (Inr 0, m3)"
      and m3: "heap m3 0 = ?paused" "spawned m3 = []" "up (world m3)"
        "sessions (sv_table (world m3)) ''u1'' = Some ?paused"
    using run_in_memory_pause_rest [of ?m2 "''d2''" 0 new "''u1''"] w new demo_session_ok(2)
    by auto
  let ?m4 = "called m3 ((world m3)\<lparr>sv_cache := (sv_cache (world m3))(cache_key ''u1'' \<mapsto> old)\<rparr>)
     (Did_set (cache_key ''u1'') old cacheTTL True)"
  have warm: "run in_memory (warm_rest ''u1'' 0 old) m3 = (Ended, ?m4)"
    using m3(1,3) by (simp add: warm_rest_def in_memory_def up_def cache_key_def restamp_def demo_session_def)
  have encoded: "marshal_session (heap m1 0) = Inr old" using m1(2) old(1) by simp
  note reached = race_moves [OF got m1(3) encoded rest warm]
  have "run in_memory (Service_GetCurrent NewService ''u1'') ?m4 = (Inr (fresh ?m4),
      (called ?m4 (world ?m4) (Did_get (cache_key ''u1'') True))
        \<lparr>heap := (heap ?m4)(fresh ?m4 := demo_session), fresh := Suc (fresh ?m4)\<rparr>)"
    using m3(3) old(2) by (simp add: Service_GetCurrent_def Get_def in_memory_def up_def cache_key_def)
  with reached m3 show ?thesis
    by (intro exI [of _ ?m4] exI [of _ 0] exI [of _ "fresh ?m4"] exI)
      (auto simp: restamp_def up_def, simp add: demo_session_def)
qed

subsection \<open>A late heartbeat overwrites what came after it\<close>

lemma run_handle_ok:
  assumes laws: "postgres_laws pg tab E" "redis_laws kv E" "table_ok (tab (world m))"
    and s: "session_of_message msg = Some s"
    and run: "run E (handle (NewHeartbeatConsumer cfg) msg) m = (None, m')"
  shows "sessions (tab (world m')) = (sessions (tab (world m)))(UserID s \<mapsto> stored_session pg s)"
proof -
  let ?m = "m\<lparr>heap := (heap m)(fresh m := s), fresh := Suc (fresh m)\<rparr>"
  obtain r m1 where up: "run E (Upsert (fresh m)) ?m = (r, m1)" by fastforce
  have "r = None" "world m' = world m1"
    using s run up
    by (auto simp: session_of_message_def handle_def NewHeartbeatConsumer_def run_bind
        split: sum.splits option.splits)
  with up run_Upsert_ok(2) [of pg tab E kv ?m "fresh m" m1] laws show ?thesis by simp
qed

text \<open>
  C18. The last message to be handled wins, however old its session is: when the consumer has
  handled the event of a heartbeat without an error, the database has that heartbeat's
  session for the user, whatever it had before. Nothing compares the times, so a heartbeat
  sent before a pause and handled after it turns the paused row back into the playing one.
\<close>

theorem late_heartbeat_wins:
  assumes laws: "postgres_laws pg tab E" "redis_laws kv E" "table_ok (tab (world m))"
    and event: "valid_time now" "valid_session old" "heartbeat_event now old = Inr (msg_value msg)"
    and run: "run E (handle (NewHeartbeatConsumer cfg) msg) m = (None, m')"
  shows "sessions (tab (world m')) = (sessions (tab (world m)))(UserID old \<mapsto> stored_session pg old)"
proof -
  have "valid_time (UpdatedAt old)" using event(2) by (simp add: valid_session_def)
  from heartbeat_event_read [OF event(1) this] event(2,3)
  have "session_of_message msg = Some old" by (auto simp: sanitize_id)
  from run_handle_ok [OF laws this run] show ?thesis .
qed

definition demo_consumer :: ConsumerConfig where
  "demo_consumer = \<lparr>cc_Brokers = [''localhost:9092''], cc_GroupID = ''playback-session'',
     cc_Topic = heartbeatTopic, cc_MinBytes = 0, cc_MaxBytes = 0, cc_MaxWait = 0\<rparr>"

lemma late_heartbeat_wins_witness:
  "\<exists>msg m'. run in_memory (handle (NewHeartbeatConsumer demo_consumer) msg)
      (boot (with_session (restamp StatusPaused ''d2'' (instant 7) demo_session))) = (None, m') \<and>
    map_option Status (sessions (sv_table (world m')) ''u1'') = Some StatusPlaying"
proof -
  let ?m = "boot (with_session (restamp StatusPaused ''d2'' (instant 7) demo_session))"
  have time: "valid_time (UpdatedAt demo_session)" by (simp add: demo_session_def)
  obtain v where v: "heartbeat_event (instant 0) demo_session = Inr v"
      "\<forall>msg. msg_value msg = v \<longrightarrow> session_of_message msg = Some (sanitize demo_session)"
    using heartbeat_event_read [OF valid_instant time] by blast
  let ?msg = "\<lparr>msg_topic = heartbeatTopic, msg_key = ''u1'', msg_value = v, msg_headers = [],
     msg_partition = 0, msg_offset = 0\<rparr>"
  have s: "session_of_message ?msg = Some demo_session"
    using v(2) demo_session_ok(3) by (simp add: sanitize_id)
  obtain m' where run: "run in_memory (handle (NewHeartbeatConsumer demo_consumer) ?msg) ?m = (None, m')"
    using s demo_session_ok(1)
    by (auto simp: session_of_message_def handle_def NewHeartbeatConsumer_def run_bind run_Upsert
        in_memory_def boot_def with_session_def all_up_def session_accepted_def split: sum.splits)
  have w: "table_ok (sv_table (world ?m))" by (simp add: boot_def)
  have "heartbeat_event (instant 0) demo_session = Inr (msg_value ?msg)" using v(1) by simp
  from late_heartbeat_wins [OF in_memory_postgres in_memory_redis w valid_instant demo_session_ok(3) this run]
  have "sessions (sv_table (world m')) ''u1'' = Some (stored_session id demo_session)"
    by (simp add: demo_session_def)
  with run show ?thesis
    by (intro exI [of _ ?msg] exI [of _ m']) (simp add: stored_session_def demo_session_def)
qed

end
