(* ===== verification/Formats.thy ===== *)
theory Formats
  imports Races Validator
begin

text \<open>
  What crosses the borders of the program: sessions and events as JSON, positions in their
  three widths (any JSON number, a 64-bit \<^verbatim>\<open>int\<close>, a 32-bit column), and the end of the
  consumer's loop.
\<close>

subsection \<open>Sessions and events\<close>

text \<open>
  C29. Sessions survive JSON: a session with a real time is encoded, and decoding gives it back
  with the ill-formed bytes of its texts replaced, so unchanged when its texts are UTF-8.
  Encoding fails for a time outside the years 0 to 9999 or with a zone of a day or more, and
  for nothing else.
\<close>

theorem session_json_roundtrip:
  assumes "valid_time (UpdatedAt s)"
  shows "(\<exists>data. marshal_session s = Inr data \<and> unmarshal_session data = Inr (sanitize s)) \<and>
    (sanitize s = s \<or> \<not> valid_session s) \<and>
    ((\<exists>e. marshal_session (s\<lparr>UpdatedAt := t\<rparr>) = Inl e) \<longleftrightarrow>
      \<not> (0 \<le> t_year t \<and> t_year t \<le> 9999 \<and> \<bar>t_zone t\<bar> < 24 * 60))"
proof -
  have "(\<exists>e. marshal_session (s\<lparr>UpdatedAt := t\<rparr>) = Inl e) \<longleftrightarrow> marshal_time t = None"
    by (simp add: marshal_session_def split: option.split)
  with unmarshal_marshal_session [OF assms] sanitize_id [of s] show ?thesis
    by (auto simp: marshal_time_None)
qed

lemma session_json_roundtrip_witness:
  "\<exists>data. marshal_session demo_session = Inr data \<and> unmarshal_session data = Inr demo_session"
  using session_json_roundtrip [of demo_session zero_time] demo_session_ok(3)
  by (auto simp: demo_session_def)

text \<open>
  C30. Envelopes keep their payload: what \<^verbatim>\<open>NewEnvelope\<close> makes of an encoded session is read
  back by \<^verbatim>\<open>ParseEnvelope\<close> with the version and, byte for byte, the payload it was given, and
  with the time at which it was made.
\<close>

theorem envelope_keeps_payload:
  assumes clock: "\<forall>w. valid_time (fst (clock E w))"
    and session: "valid_time (UpdatedAt s)" "marshal_session s = Inr raw"
    and run: "run E (NewEnvelope etype version (Inr raw)) m = (r, m')"
  shows "\<exists>data. r = Inr data \<and> ParseEnvelope data = Inr \<lparr>env_Type = utf8_fix etype, env_Version = version,
    env_Timestamp = fst (clock E (world m)), env_Payload = raw\<rparr>"
proof -
  obtain now w where now: "clock E (world m) = (now, w)" by fastforce
  then have valid: "valid_time now" using clock by (metis fst_conv)
  obtain t where raw: "raw = write_object (session_members s t)"
    using marshal_session_members [OF session(1)] session(2) by auto
  have "\<forall>(k, v) \<in> set (session_members s t). (\<forall>d. self_delimiting d v) \<and> compact_stable v"
    using session_members_ok by fast
  from ParseEnvelope_marshal [of "\<lparr>env_Type = etype, env_Version = version, env_Timestamp = now,
      env_Payload = raw\<rparr>", OF _ _ this] valid raw
  obtain data where data: "marshal_envelope \<lparr>env_Type = etype, env_Version = version, env_Timestamp = now,
      env_Payload = raw\<rparr> = Inr data"
    "ParseEnvelope data = Inr \<lparr>env_Type = utf8_fix etype, env_Version = version, env_Timestamp = now,
      env_Payload = raw\<rparr>" by auto
  have "r = Inr data" using run now by (simp add: NewEnvelope_def data(1))
  with data(2) now show ?thesis by simp
qed

lemma envelope_keeps_payload_witness:
  "\<exists>raw data env. marshal_session demo_session = Inr raw \<and>
    fst (run in_memory (NewEnvelope ''playback.heartbeat'' 1 (Inr raw)) (boot all_up)) = Inr data \<and>
    ParseEnvelope data = Inr env \<and> env_Payload env = raw"
proof -
  have time: "valid_time (UpdatedAt demo_session)" by (simp add: demo_session_def)
  obtain raw where raw: "marshal_session demo_session = Inr raw"
    using unmarshal_marshal_session [OF time] by blast
  obtain r m' where run: "run in_memory (NewEnvelope ''playback.heartbeat'' 1 (Inr raw)) (boot all_up) = (r, m')"
    by fastforce
  from envelope_keeps_payload [OF _ time raw run] obtain data where
    "r = Inr data" "\<exists>env. ParseEnvelope data = Inr env \<and> env_Payload env = raw" by auto
  with raw run show ?thesis by auto
qed

subsection \<open>Positions\<close>

lemma parse_int_dec_int:
  "parse_int (dec_int i) = (if in_int64 i then Some (word_of_int i) else None)"
  by (simp add: parse_int_def dec_int_def parse_digits_dec_nat expect_minus_dec_nat)

lemma sint_in_int64: "in_int64 i \<Longrightarrow> sint (word_of_int i :: go_int) = i"
  by (simp add: in_int64_def sint_sbintrunc' signed_take_bit_int_eq_self)

text \<open>
  C31. Positions never wrap: the decimal text of an integer in the body of a request becomes
  exactly that integer in the position of the struct, or, outside the range of \<^verbatim>\<open>int\<close>, an
  error that refuses the body; and an \<^verbatim>\<open>int\<close> is written back as the text it came from.
\<close>

theorem positions_do_not_wrap:
  "(case store_start ''position_sec'' (dec_int i) r of
      Stored r' \<Rightarrow> sint (sr_Position r') = i \<and> r' = r\<lparr>sr_Position := sr_Position r'\<rparr>
    | Mismatch \<Rightarrow> i < - (2 ^ 63) \<or> 2 ^ 63 \<le> i
    | Failed \<Rightarrow> False) \<and>
   (case store_heartbeat ''position_sec'' (dec_int i) h of
      Stored h' \<Rightarrow> sint (hr_Position h') = i \<and> h' = h\<lparr>hr_Position := hr_Position h'\<rparr>
    | Mismatch \<Rightarrow> i < - (2 ^ 63) \<or> 2 ^ 63 \<le> i
    | Failed \<Rightarrow> False) \<and>
   store_session ''position_sec'' (format_int w) s = Stored (s\<lparr>Position := w\<rparr>)"
  using sint_in_int64 [of i]
  by (auto simp: store_start_def store_heartbeat_def store_session_def key_is_def fold_key_names
      parse_int_dec_int in_int64_def stored_def decode_int_def [of "dec_int _"] simp del: fold_key.simps)

text \<open>
  C20. A position that does not fit the column is lost after it was accepted: a heartbeat whose
  position is at or above the limit of a 32-bit integer is valid and is published like any
  other, but when the consumer handles its event the statement is refused, the table keeps
  what it had, and the error goes to the log.
\<close>

theorem position_beyond_column:
  assumes laws: "postgres_laws pg tab E" "redis_laws kv E" "table_ok (tab (world m))"
    and V: "validation_laws V"
    and event: "valid_time now" "valid_session s" "heartbeat_event now s = Inr (msg_value msg)"
    and req: "s = heartbeat_session u req t" "hr_TrackID req \<noteq> []" "hr_DeviceID req \<noteq> []"
    and big: "2 ^ 31 \<le> sint (hr_Position req)"
    and run: "run E (handle (NewHeartbeatConsumer cfg) msg) m = (r, m')"
  shows "V (HeartbeatRequest_fields req) = Valid \<and> r \<noteq> None \<and> tab (world m') = tab (world m)"
proof -
  have valid: "V (HeartbeatRequest_fields req) = Valid"
    using req(2,3) big by (simp add: valid_requests(2) [OF V])
  have "valid_time (UpdatedAt s)" using event(2) by (simp add: valid_session_def)
  from heartbeat_event_read [OF event(1) this] event(2,3)
  have s: "session_of_message msg = Some s" by (auto simp: sanitize_id)
  let ?m = "m\<lparr>heap := (heap m)(fresh m := s), fresh := Suc (fresh m)\<rparr>"
  obtain q m1 where up: "run E (Upsert (fresh m)) ?m = (q, m1)" by fastforce
  have "\<not> session_accepted s" using big req(1) by (simp add: session_accepted_iff heartbeat_session_def)
  with run_Upsert_table(1) [of pg tab E kv ?m "fresh m" q m1] laws up
  have "q \<noteq> None" "tab (world m1) = tab (world m)" by simp_all
  moreover have "world m' = world m1" "r = None \<longleftrightarrow> q = None"
    using s run up
    by (auto simp: session_of_message_def handle_def NewHeartbeatConsumer_def run_bind
        split: sum.splits option.splits)
  ultimately show ?thesis using valid by simp
qed

definition far_heartbeat :: HeartbeatRequest where
  "far_heartbeat = \<lparr>hr_TrackID = ''t1'', hr_Position = word_of_int (2 ^ 31), hr_DeviceID = ''d1''\<rparr>"

lemma position_beyond_column_witness:
  "\<exists>msg r m'. run in_memory (handle (NewHeartbeatConsumer demo_consumer) msg) (boot all_up) = (r, m') \<and> r \<noteq> None \<and>
    documented_validation (HeartbeatRequest_fields far_heartbeat) = Valid"
proof -
  let ?s = "heartbeat_session ''u1'' far_heartbeat (instant 0)"
  have s: "valid_session ?s"
    by (simp add: heartbeat_session_def far_heartbeat_def valid_session_def StatusPlaying_def byte_def)
  then have "valid_time (UpdatedAt ?s)" by (simp add: valid_session_def)
  from heartbeat_event_read [OF valid_instant [of 1] this]
  obtain v where v: "heartbeat_event (instant 1) ?s = Inr v" by blast
  let ?msg = "\<lparr>msg_topic = heartbeatTopic, msg_key = ''u1'', msg_value = v, msg_headers = [],
     msg_partition = 0, msg_offset = 0\<rparr>"
  obtain r m' where run: "run in_memory (handle (NewHeartbeatConsumer demo_consumer) ?msg) (boot all_up) = (r, m')"
    by fastforce
  have "table_ok (sv_table (world (boot all_up)))" by (simp add: boot_def all_up_def)
  moreover have "validation_laws documented_validation" by (simp add: validation_laws_def)
  moreover have "heartbeat_event (instant 1) ?s = Inr (msg_value ?msg)" using v by simp
  moreover have "hr_TrackID far_heartbeat \<noteq> []" "hr_DeviceID far_heartbeat \<noteq> []"
      "2 ^ 31 \<le> sint (hr_Position far_heartbeat)"
    using sint_in_int64 [of "2 ^ 31"] by (simp_all add: far_heartbeat_def in_int64_def)
  ultimately show ?thesis
    using position_beyond_column [OF in_memory_postgres in_memory_redis _ _ valid_instant s _ refl _ _ _ run] run
    by (intro exI [of _ ?msg] exI [of _ r] exI [of _ m']) blast
qed

subsection \<open>The end of the loop\<close>

text \<open>Turns of the loop add up, and once it has returned, more fuel changes nothing.\<close>

lemma Run_loop_add:
  "run E (Run_loop (k + j) h) m = (case run E (Run_loop k h) m of
     (Some r, m') \<Rightarrow> (Some r, m') | (None, m') \<Rightarrow> run E (Run_loop j h) m')"
proof (induction k arbitrary: m)
  case (Suc k)
  show ?case
    using Suc.IH by (simp add: run_bind split: prod.split option.split)
qed simp

text \<open>
  C32. The consumer stops: if the fetch of some turn is told that the context is cancelled,
  then with any fuel beyond that turn the loop returns, without an error, and in the very
  state it was in when it was told, but for the log; so its result does not depend on the
  fuel.
\<close>

theorem consumer_stops:
  assumes "run E (Run_loop k h) m = (None, m')"
    and "kafka_fetch E (world m') = (Inl err, w)" "errors_Is err ContextCanceled" and "k < n"
  shows "run E (Run_loop n h) m =
    (Some None, logged Info ''kafka consumer stopped'' [] (called m' w (Did_fetch None)))"
proof -
  obtain j where n: "n = k + Suc j" using assms(4) less_imp_Suc_add by fastforce
  show ?thesis
    unfolding n Run_loop_add using assms(1-3) by (simp add: run_bind run_consume_once_error)
qed

lemma consumer_stops_witness:
  "fst (run in_memory (Run_loop 5 (handle (NewHeartbeatConsumer demo_consumer))) (boot all_up)) = Some None"
proof -
  let ?h = "handle (NewHeartbeatConsumer demo_consumer)"
  have "run in_memory (Run_loop 0 ?h) (boot all_up) = (None, boot all_up)" by simp
  moreover have "kafka_fetch in_memory (world (boot all_up)) = (Inl (Sentinel ContextCanceled), all_up)"
    by (simp add: in_memory_def boot_def all_up_def)
  ultimately show ?thesis
    using consumer_stops [of in_memory 0 ?h "boot all_up" "boot all_up" _ all_up 5] by simp
qed

end
