(* ===== verification/Last_Write.thy ===== *)
theory Last_Write
  imports Races
begin

text \<open>
  What the database holds. Whatever runs at the same time, the row of a user is the row of the
  last statement that was executed for that user, and an event is written whatever its
  envelope says it is.
\<close>

subsection \<open>The last statement for a user\<close>

definition exec_user :: "event \<Rightarrow> string option" where
  "exec_user e = (case e of Did_exec (SqlText u # _) _ \<Rightarrow> Some u | _ \<Rightarrow> None)"

definition last_exec :: "string \<Rightarrow> event list \<Rightarrow> event option" where
  "last_exec u evs = find (\<lambda>e. exec_user e = Some u) (rev evs)"

lemma exec_user_row_args [simp]: "exec_user (Did_exec (row_args s) b) = Some (UserID s)"
  by (simp add: exec_user_def row_args_def)

lemma last_exec_simps [simp]:
  "last_exec u [] = None"
  "last_exec u (evs @ [e]) = (if exec_user e = Some u then Some e else last_exec u evs)"
  by (simp_all add: last_exec_def)

lemma last_exec_effects: "last_exec u (effects evs) = last_exec u evs"
proof (induction evs rule: rev_induct)
  case (snoc e evs)
  have "durable e \<or> exec_user e = None" by (cases e) (auto simp: exec_user_def)
  with snoc show ?case by (auto simp: effects_def)
qed (simp add: effects_def)

text \<open>What the last statement for a user says of the row, which was \<open>r0\<close> before all of them.\<close>

definition explains ::
  "(go_time \<Rightarrow> go_time) \<Rightarrow> string \<Rightarrow> row option \<Rightarrow> event option \<Rightarrow> row option \<Rightarrow> bool" where
  "explains pg u r0 e r \<longleftrightarrow> (case e of
      None \<Rightarrow> r = r0
    | Some (Did_exec args True) \<Rightarrow> (\<exists>s. args = row_args s \<and> UserID s = u \<and> r = Some (row_of pg s))
    | Some _ \<Rightarrow> True)"

definition explained :: "(go_time \<Rightarrow> go_time) \<Rightarrow> ('w \<Rightarrow> table) \<Rightarrow> table \<Rightarrow> 'w machine \<Rightarrow> bool" where
  "explained pg tab t0 m \<longleftrightarrow>
    (\<forall>u. explains pg u (t0 u) (last_exec u (history m)) (tab (world m) u))"

lemma explained_other:
  assumes "explained pg tab t0 m" "tab (world m') = tab (world m)"
    and "history m' = history m \<or> (\<exists>e. history m' = history m @ [e] \<and> exec_user e = None)"
  shows "explained pg tab t0 m'"
proof -
  have "last_exec u (history m') = last_exec u (history m)" for u
    using assms(3) by auto
  with assms(1,2) show ?thesis by (simp add: explained_def)
qed

lemma explained_exec:
  assumes "explained pg tab t0 m" "history m' = history m @ [Did_exec (row_args s) b]"
    and "tab (world m') = (tab (world m))(UserID s \<mapsto> row_of pg s) \<or>
      \<not> b \<and> tab (world m') = tab (world m)"
  shows "explained pg tab t0 m'"
  unfolding explained_def
proof
  fix u
  show "explains pg u (t0 u) (last_exec u (history m')) (tab (world m') u)"
  proof (cases "UserID s = u")
    case True
    with assms(2,3) show ?thesis by (cases b) (auto simp: explains_def)
  next
    case False
    then have "tab (world m') u = tab (world m) u" "last_exec u (history m') = last_exec u (history m)"
      using assms(2,3) by auto
    with assms(1) show ?thesis by (simp add: explained_def)
  qed
qed

lemma explained_step:
  assumes laws: "postgres_laws pg tab E" "redis_laws kv E"
    and "table_ok (tab (world m))" "disciplined W Q p K" "explained pg tab t0 m"
    and "step E p m = (p', m')"
  shows "explained pg tab t0 m'"
proof (cases p)
  case (PgExec q a c)
  obtain r w where g: "pg_exec E q a (world m) = (r, w)" by fastforce
  obtain s where s: "q = upsert_session" "a = row_args s" using assms(4) PgExec by auto
  have "tab w = (tab (world m))(UserID s \<mapsto> row_of pg s) \<or> \<not> ok r \<and> tab w = tab (world m)"
    using exec_laws(1) [OF laws g] apply_upsert_session [OF assms(3)] s by auto
  with PgExec g s assms(6) show ?thesis
    by (intro explained_exec [OF assms(5), of m' s "ok r"]) auto
next
  case (RedisGet k c)
  then show ?thesis
    using assms(5,6) get_laws(1) [OF laws, of k "world m"]
    by (auto intro!: explained_other [of _ _ _ m] simp: exec_user_def split: prod.splits)
next
  case (RedisSet k v t c)
  then show ?thesis
    using assms(5,6) set_laws(1) [OF laws, of k v t "world m"]
    by (auto intro!: explained_other [of _ _ _ m] simp: exec_user_def split: prod.splits)
next
  case (PgQueryRow q k c)
  then show ?thesis
    using assms(5,6) query_laws(1) [OF laws, of q k "world m"]
    by (auto intro!: explained_other [of _ _ _ m] simp: exec_user_def query_law_def split: prod.splits)
qed (use assms(5,6) in \<open>auto intro!: explained_other [of _ _ _ m]
    simp: exec_user_def case_prod_unfold other_calls [OF laws]\<close>)

lemma explained_steps:
  assumes laws: "postgres_laws pg tab E" "redis_laws kv E"
    and steps: "steps P E (ts, m) (ts', m')" and ok: "pool_ok W tab kv Q (ts, m)"
    and "explained pg tab t0 m"
  shows "explained pg tab t0 m'"
proof (rule stepsE [OF steps])
  fix i t p p' m''
  assume c: "(ts', m') = (ts[i := (t, p')], m'')" "i < length ts" "ts ! i = (t, p)" "step E p m = (p', m'')"
  then obtain K where "disciplined W (Q t) p K" "table_ok (tab (world m))"
    using ok by (force simp: pool_ok_def shared_ok_def)
  with c assms(5) show ?thesis using explained_step [OF laws] by blast
qed (use assms(5) in \<open>simp_all add: explained_def\<close>)

text \<open>
  C8. The last write wins, and is there to stay: whatever runs at the same time, for every
  user for whom a statement was executed, if the last one succeeded, the session in the
  database is the one that it wrote; and the row of a user for whom none was executed is as it
  was. So an acknowledged change is lost only to a later statement for the same user.
\<close>

theorem last_write_wins:
  assumes laws: "postgres_laws pg tab E" "redis_laws kv E"
    and start: "table_ok (tab (world m))" "cache_ok (kv (world m))" "spawned m = []" "history m = []"
    and run: "(moves E)^** ([], m) (ts, m')"
  shows "case last_exec u (history m') of
      None \<Rightarrow> tab (world m') u = tab (world m) u
    | Some (Did_exec args True) \<Rightarrow> (\<exists>s. args = row_args s \<and> UserID s = u \<and>
        sessions (tab (world m')) u = Some (stored_session pg s))
    | Some _ \<Rightarrow> True"
proof -
  have ok: "pool_ok UNIV tab kv result_ok ([], m)"
    using start by (intro pool_ok_start) (simp add: shared_ok_def)
  have "explained pg tab (tab (world m)) (snd s)" if "(moves E)^** ([], m) s" for s
    using that
  proof (induction rule: rtranclp_induct)
    case base
    then show ?case using start(4) by (simp add: explained_def explains_def)
  next
    case (step s s')
    obtain ts1 m1 ts2 m2 where s: "s = (ts1, m1)" "s' = (ts2, m2)" by fastforce
    have "pool_ok UNIV tab kv result_ok (ts1, m1)"
      using service_threads.pool_ok_reachable [OF laws ok, of "(ts1, m1)"] step.hyps(1) s by simp
    from explained_steps [OF laws _ this] step s show ?case by simp
  qed
  from this [OF run] have "explained pg tab (tab (world m)) m'" by simp
  then have "explains pg u (tab (world m) u) (last_exec u (history m')) (tab (world m') u)"
    by (simp add: explained_def)
  moreover have "sessions tab' u = Some (stored_session pg s)" if "tab' u = Some (row_of pg s)" "UserID s = u"
    for tab' s
    using sessions_upd [of tab' u pg s] that by (metis fun_upd_same fun_upd_triv)
  ultimately show ?thesis
    unfolding explains_def by (auto split: option.splits event.splits bool.splits)
qed

definition lone_start :: StartRequest where
  "lone_start = \<lparr>sr_TrackID = ''t1'', sr_DeviceID = ''d1'', sr_Position = 7\<rparr>"

lemma last_write_wins_witness:
  "\<exists>x m' now. (moves in_memory)^** ([], boot all_up) ([(TStart ''u1'' lone_start, Done x)], m') \<and>
    sessions (sv_table (world m')) ''u1'' = Some (started_session ''u1'' lone_start now)"
proof -
  have "session_accepted (started_session ''u1'' lone_start t)" for t
    by (simp add: session_accepted_iff started_session_def text_ok_def StatusPlaying_def
        char_count_def byte_def lone_start_def)
  moreover have "up (world (boot all_up))" by (simp add: up_def all_up_def)
  ultimately obtain m' where start:
      "run in_memory (Service_Start NewService ''u1'' lone_start) (boot all_up) = (Inr 0, m')"
    using in_memory_start [of "boot all_up" "''u1''" lone_start] by (auto simp: boot_def)
  let ?t = "TStart ''u1'' lone_start" and ?x = "Session (Inr 0)"
  have r: "(moves in_memory)^** ([], boot all_up) ([(?t, Done ?x)], m')"
    using start by (intro lone_request) (simp_all add: run_bind)
  obtain now w where now: "clock in_memory (world (boot all_up)) = (now, w)" by fastforce
  let ?s = "started_session ''u1'' lone_start now"
  have "effects (history m') = [Did_exec (row_args ?s) True]"
    using svc.start_spec [OF start now] by (simp add: started_session_def effects_def)
  then have "last_exec ''u1'' (history m') = Some (Did_exec (row_args ?s) True)"
    using last_exec_effects [of "''u1''" "history m'"] last_exec_simps(2) [of "''u1''" "[]"]
    by (simp add: started_session_def)
  with last_write_wins [OF in_memory_postgres in_memory_redis _ _ _ _ r, of "''u1''"]
  obtain s where "row_args ?s = row_args s" "sessions (sv_table (world m')) ''u1'' = Some (stored_session id s)"
    by (auto simp: all_up_def)
  moreover from this(1) have "s = ?s" by (cases s) (simp add: row_args_def started_session_def)
  ultimately show ?thesis using r by (auto simp: stored_session_def)
qed

subsection \<open>Events that are not heartbeats\<close>

text \<open>
  C21. The consumer does not ask what an event is: whatever the type, the version and the
  timestamp of an envelope are, a payload of \<open>null\<close> is read as a session and written, under
  the user with the empty name.
\<close>

theorem null_event_is_written:
  assumes "ParseEnvelope (msg_value msg) = Inr env" and "env_Payload env = ''null''"
    and "run E (handle (NewHeartbeatConsumer cfg) msg) m = (r, m')"
  shows "effects (history m') = effects (history m) @ [Did_exec (row_args zero_session) (ok r)] \<and>
    UserID zero_session = []"
proof -
  have "unmarshal_session ''null'' = Inr zero_session" by code_simp
  with assms(1,2) have "session_of_message msg = Some zero_session"
    by (simp add: session_of_message_def)
  from consumer.handle_session [OF this assms(3)] show ?thesis by (simp add: zero_session_def)
qed

definition foreign_event :: message where
  "foreign_event = \<lparr>msg_topic = heartbeatTopic, msg_key = [],
     msg_value = ''{\"type\":\"other\",\"payload\":null}'',
     msg_headers = [], msg_partition = 0, msg_offset = 0\<rparr>"

lemma null_event_is_written_witness:
  "\<exists>r m'. run in_memory (handle (NewHeartbeatConsumer demo_consumer) foreign_event) (boot all_up) = (r, m') \<and>
    effects (history m') = [Did_exec (row_args zero_session) (ok r)]"
proof -
  obtain r m' where run: "run in_memory (handle (NewHeartbeatConsumer demo_consumer) foreign_event) (boot all_up) = (r, m')"
    by fastforce
  have "(case ParseEnvelope (msg_value foreign_event) of Inl _ \<Rightarrow> [] | Inr env \<Rightarrow> env_Payload env) = ''null''"
    by code_simp
  then obtain env where "ParseEnvelope (msg_value foreign_event) = Inr env" "env_Payload env = ''null''"
    by (auto split: sum.splits)
  from null_event_is_written [OF this run] run show ?thesis by (simp add: effects_def)
qed

end
