(* ===== verification/Consumption.thy ===== *)
theory Consumption
  imports Races
begin

text \<open>
  The consumer as the replay of its topic. However many turns the loop of ^**Run^** takes, the
  sessions in the database are the ones before with the sessions of the fetched messages
  written over them, in the order in which they were fetched.
\<close>

subsection \<open>A turn that fetched a message\<close>

text \<open>
  The message, whether its statement was acknowledged, and whether its row is in the table: a
  statement whose answer is an error may have been executed.
\<close>

record turn =
  t_msg :: message
  t_acked :: bool
  t_kept :: bool

definition turn_effects :: "turn \<Rightarrow> event list" where
  "turn_effects t = (case session_of_message (t_msg t) of
      None \<Rightarrow> []
    | Some s \<Rightarrow> [Did_exec (row_args s) (t_acked t)])"

definition apply_turn ::
  "(go_time \<Rightarrow> go_time) \<Rightarrow> turn \<Rightarrow> (string \<rightharpoonup> PlaybackSession) \<Rightarrow> (string \<rightharpoonup> PlaybackSession)" where
  "apply_turn pg t M = (case session_of_message (t_msg t) of
      None \<Rightarrow> M
    | Some s \<Rightarrow> if t_kept t then M(UserID s \<mapsto> stored_session pg s) else M)"

text \<open>What some turns have done between two machines.\<close>

definition consumed ::
  "(go_time \<Rightarrow> go_time) \<Rightarrow> ('w \<Rightarrow> table) \<Rightarrow> turn list \<Rightarrow> 'w machine \<Rightarrow> 'w machine \<Rightarrow> bool" where
  "consumed pg tab turns m m' \<longleftrightarrow>
    fetched_messages (history m') = fetched_messages (history m) @ map t_msg turns \<and>
    committed_messages (history m') = committed_messages (history m) @ map t_msg turns \<and>
    effects (history m') = effects (history m) @ concat (map turn_effects turns) \<and>
    sessions (tab (world m')) = fold (apply_turn pg) turns (sessions (tab (world m))) \<and>
    (\<forall>t \<in> set turns. t_acked t \<longrightarrow> t_kept t) \<and> table_ok (tab (world m'))"

lemma consumed_trans:
  "consumed pg tab ts m m1 \<Longrightarrow> consumed pg tab us m1 m2 \<Longrightarrow> consumed pg tab (ts @ us) m m2"
  by (auto simp: consumed_def)

lemma consumed_nothing:
  assumes "table_ok (tab (world m))" "tab (world m') = tab (world m)"
    and "history m' = history m @ evs" "fetched_messages evs = []" "committed_messages evs = []" "effects evs = []"
  shows "consumed pg tab [] m m'"
  using assms by (simp add: consumed_def)

lemma table_committed:
  assumes "postgres_laws pg tab E" "redis_laws kv E"
  shows "tab (world (committed E msg m)) = tab (world m)"
  using other_calls(5) [OF assms, of msg "world m"] by (auto simp: committed_def Let_def split: prod.split option.split)

text \<open>The handler, on a message it can read and on any other.\<close>

lemma handle_table:
  assumes laws: "postgres_laws pg tab E" "redis_laws kv E" "table_ok (tab (world m))"
    and run: "run E (handle (NewHeartbeatConsumer cfg) msg) m = (r, m')"
  shows "\<exists>t. t_msg t = msg \<and> (t_acked t \<longrightarrow> t_kept t) \<and>
    effects (history m') = effects (history m) @ turn_effects t \<and>
    sessions (tab (world m')) = apply_turn pg t (sessions (tab (world m))) \<and> table_ok (tab (world m'))"
proof (cases "session_of_message msg")
  case None
  with consumer.handle_unreadable [OF this run] laws(3) show ?thesis
    by (intro exI [of _ "\<lparr>t_msg = msg, t_acked = True, t_kept = True\<rparr>"])
      (simp add: turn_effects_def apply_turn_def)
next
  case (Some s)
  let ?m = "m\<lparr>heap := (heap m)(fresh m := s), fresh := Suc (fresh m)\<rparr>"
  obtain ur m1 where up: "run E (Upsert (fresh m)) ?m = (ur, m1)" by fastforce
  have r: "ok r = ok ur" "world m' = world m1"
    using Some run up
    by (auto simp: session_of_message_def handle_def NewHeartbeatConsumer_def run_bind ok_def
        split: sum.splits option.splits)
  let ?kept = "tab (world m1) = (tab (world m))(UserID s \<mapsto> row_of pg s)"
  have "?kept \<or> ur \<noteq> None \<and> tab (world m1) = tab (world m)" "table_ok (tab (world m1))"
    using run_Upsert_table(1,3) [OF laws(1,2) _ up] laws(3) by auto
  with consumer.handle_session [OF Some run] r Some show ?thesis
    by (intro exI [of _ "\<lparr>t_msg = msg, t_acked = ok r, t_kept = ?kept\<rparr>"])
      (auto simp: turn_effects_def apply_turn_def ok_def)
qed

lemma consume_once_consumed:
  assumes laws: "postgres_laws pg tab E" "redis_laws kv E" "table_ok (tab (world m))"
    and run: "run E (consume_once (handle (NewHeartbeatConsumer cfg))) m = (r, m')"
  shows "\<exists>turns. consumed pg tab turns m m'"
proof (cases "kafka_fetch E (world m)")
  case (Pair f w)
  have w: "tab w = tab (world m)" using other_calls(3) [OF laws(1,2), of "world m"] Pair by simp
  show ?thesis
  proof (cases f)
    case (Inl err)
    then have "consumed pg tab [] m m'"
      using run Pair w laws(3) by (auto simp: run_consume_once_error consumed_def split: if_splits)
    then show ?thesis ..
  next
    case (Inr msg)
    define m1 where "m1 = called m w (Did_fetch (Some msg))"
    let ?m1 = "m1\<lparr>history := history m1 @ [Did_extract (extractTraceContext (msg_headers msg))]\<rparr>"
    obtain hr m2 where h: "run E (handle (NewHeartbeatConsumer cfg) msg) ?m1 = (hr, m2)" by fastforce
    have m': "m' = committed E msg
        (case hr of None \<Rightarrow> m2 | Some err \<Rightarrow> handler_failure msg err m2)"
      using run_consume_once_fetched [where h = "handle (NewHeartbeatConsumer cfg)",
          OF Pair [unfolded Inr] m1_def h] run by simp
    have "table_ok (tab (world ?m1))" using laws(3) w by (simp add: m1_def)
    from handle_table [OF laws(1,2) this h] obtain t where t: "t_msg t = msg" "t_acked t \<longrightarrow> t_kept t"
        "effects (history m2) = effects (history m) @ turn_effects t"
        "sessions (tab (world m2)) = apply_turn pg t (sessions (tab (world m)))" "table_ok (tab (world m2))"
      by (auto simp: m1_def w)
    have "consumed pg tab [t] m m'"
      using t leaves_offsetsD [OF handle_leaves_offsets h]
      by (cases hr) (simp_all add: m' consumed_def table_committed [OF laws(1,2)] m1_def)
    then show ?thesis ..
  qed
qed

lemma Run_loop_consumed:
  assumes laws: "postgres_laws pg tab E" "redis_laws kv E"
  shows "table_ok (tab (world m)) \<Longrightarrow>
    \<exists>turns. consumed pg tab turns m (snd (run E (Run_loop n (handle (NewHeartbeatConsumer cfg))) m))"
proof (induction n arbitrary: m)
  case 0
  then have "consumed pg tab [] m m" by (simp add: consumed_def)
  then show ?case by auto
next
  case (Suc n)
  let ?h = "handle (NewHeartbeatConsumer cfg)"
  obtain r m1 where turn: "run E (consume_once ?h) m = (r, m1)" by fastforce
  obtain ts where ts: "consumed pg tab ts m m1" using consume_once_consumed [OF laws Suc.prems turn] ..
  show ?case
  proof (cases r)
    case None
    from ts have "table_ok (tab (world m1))" by (simp add: consumed_def)
    from Suc.IH [OF this] obtain us where "consumed pg tab us m1 (snd (run E (Run_loop n ?h) m1))" ..
    from consumed_trans [OF ts this] None turn show ?thesis by (auto simp: run_bind)
  next
    case (Some res)
    with ts turn show ?thesis by (auto simp: run_bind)
  qed
qed

text \<open>
  C5. The consumer replays the topic: any number of turns of its loop commit the messages they
  fetched, once and in that order, execute one statement for each of them that can be read,
  also in that order, and leave in the database the sessions that were there with the sessions
  of these messages written over them, the later over the earlier; only the session of a
  message whose statement failed may be missing. Nothing else is written.
\<close>

theorem consumer_replays_topic:
  assumes laws: "postgres_laws pg tab E" "redis_laws kv E" "table_ok (tab (world m))"
    and run: "run E (consumer_goroutine n (NewHeartbeatConsumer cfg)) m = ((), m')"
  shows "\<exists>turns.
    fetched_messages (history m') = fetched_messages (history m) @ map t_msg turns \<and>
    committed_messages (history m') = committed_messages (history m) @ map t_msg turns \<and>
    effects (history m') = effects (history m) @ concat (map turn_effects turns) \<and>
    sessions (tab (world m')) = fold (apply_turn pg) turns (sessions (tab (world m))) \<and>
    (\<forall>t \<in> set turns. t_acked t \<longrightarrow> t_kept t)"
proof -
  let ?h = "handle (NewHeartbeatConsumer cfg)" and ?m = "started_line (NewConsumer cfg) m"
  obtain r m1 where loop: "run E (Run_loop n ?h) ?m = (r, m1)" by fastforce
  have "m' = m1 \<or> (\<exists>at. m' = logged Error_level ''heartbeat consumer stopped with error'' at m1)"
    using run loop by (auto simp: consumer_goroutine_def run_Run NewHeartbeatConsumer_def run_bind split: option.splits)
  moreover obtain turns where "consumed pg tab turns ?m m1"
    using Run_loop_consumed [OF laws(1,2), of ?m n cfg] laws(3) loop by auto
  ultimately show ?thesis by (intro exI [of _ turns]) (auto simp: consumed_def)
qed

text \<open>Two heartbeats of one user on a topic that is up: the session of the second one stays.\<close>

lemma in_memory_turn:
  assumes "up (world m)" "sv_next (world m) < length (sv_topic (world m))"
    and "session_of_message (sv_topic (world m) ! sv_next (world m)) = Some s" "session_accepted s"
  shows "\<exists>m'. run in_memory (consume_once (handle (NewHeartbeatConsumer cfg))) m = (None, m') \<and>
    up (world m') \<and> sv_topic (world m') = sv_topic (world m) \<and> sv_next (world m') = Suc (sv_next (world m)) \<and>
    fetched_messages (history m') = fetched_messages (history m) @ [sv_topic (world m) ! sv_next (world m)] \<and>
    effects (history m') = effects (history m) @ [Did_exec (row_args s) True]"
  using assms
  by (auto simp: consume_once_def session_of_message_def handle_def NewHeartbeatConsumer_def run_bind run_Upsert
      in_memory_def up_def session_accepted_def run_commit committed_def split: sum.splits)

lemma in_memory_two_turns:
  assumes "session_of_message a = Some s" "session_accepted s" "session_of_message b = Some s'" "session_accepted s'"
  shows "\<exists>m'. run in_memory (consumer_goroutine 2 (NewHeartbeatConsumer cfg))
      (boot (all_up\<lparr>sv_topic := [a, b]\<rparr>)) = ((), m') \<and>
    fetched_messages (history m') = [a, b] \<and>
    effects (history m') = [Did_exec (row_args s) True, Did_exec (row_args s') True]"
proof -
  let ?m = "started_line (NewConsumer cfg) (boot (all_up\<lparr>sv_topic := [a, b]\<rparr>))"
  let ?turn = "consume_once (handle (NewHeartbeatConsumer cfg))"
  have "up (world ?m)" "sv_topic (world ?m) = [a, b]" "sv_next (world ?m) = 0"
      "fetched_messages (history ?m) = []" "effects (history ?m) = []"
    by (simp_all add: boot_def all_up_def up_def)
  with in_memory_turn [of ?m s cfg] assms(1,2) obtain m1 where m1: "run in_memory ?turn ?m = (None, m1)"
      "up (world m1)" "sv_topic (world m1) = [a, b]" "sv_next (world m1) = 1"
      "fetched_messages (history m1) = [a]" "effects (history m1) = [Did_exec (row_args s) True]" by auto
  with in_memory_turn [of m1 s' cfg] assms(3,4) obtain m2 where m2: "run in_memory ?turn m1 = (None, m2)"
      "fetched_messages (history m2) = [a, b]"
      "effects (history m2) = [Did_exec (row_args s) True, Did_exec (row_args s') True]" by auto
  with m1(1) show ?thesis by (simp add: consumer_goroutine_def run_Run NewHeartbeatConsumer_def run_bind numeral_2_eq_2)
qed

lemma consumer_replays_topic_witness:
  "\<exists>a b m'. run in_memory (consumer_goroutine 2 (NewHeartbeatConsumer demo_consumer))
      (boot (all_up\<lparr>sv_topic := [a, b]\<rparr>)) = ((), m') \<and>
    sessions (sv_table (world m')) = [''u1'' \<mapsto> restamp StatusPaused ''d2'' (instant 7) demo_session] \<and>
    committed_messages (history m') = [a, b]"
proof -
  let ?s = demo_session and ?s' = "restamp StatusPaused ''d2'' (instant 7) demo_session"
  have s: "UserID ?s = ''u1''" "UserID ?s' = ''u1''" "valid_time (UpdatedAt ?s)" "valid_time (UpdatedAt ?s')"
      "sanitize ?s = ?s" "sanitize ?s' = ?s'"
    using demo_session_ok(3) demo_texts sanitize_id [of ?s] sanitize_id [of ?s']
    by (simp_all add: demo_session_def restamp_def valid_session_def text_ok_def)
  obtain v v' where "\<forall>msg. msg_value msg = v \<longrightarrow> session_of_message msg = Some (sanitize ?s)"
      "\<forall>msg. msg_value msg = v' \<longrightarrow> session_of_message msg = Some (sanitize ?s')"
    using heartbeat_event_read [OF valid_instant s(3)] heartbeat_event_read [OF valid_instant s(4)] by metis
  then obtain a b where msgs: "session_of_message a = Some ?s" "session_of_message b = Some ?s'"
    unfolding s(5,6) by (metis message.select_convs(3))
  obtain m' where m': "run in_memory (consumer_goroutine 2 (NewHeartbeatConsumer demo_consumer))
        (boot (all_up\<lparr>sv_topic := [a, b]\<rparr>)) = ((), m')" "fetched_messages (history m') = [a, b]"
      "effects (history m') = [Did_exec (row_args ?s) True, Did_exec (row_args ?s') True]"
    using in_memory_two_turns [OF msgs(1) demo_session_ok(1) msgs(2) demo_session_ok(2)] by blast
  let ?m = "boot (all_up\<lparr>sv_topic := [a, b]\<rparr>)"
  have m: "table_ok (sv_table (world ?m))" "sessions (sv_table (world ?m)) = Map.empty" "history ?m = []"
      "fetched_messages [] = []" "committed_messages [] = []"
    by (simp_all add: boot_def all_up_def fetched_messages_def committed_messages_def List.map_filter_def)
  from consumer_replays_topic [OF in_memory_postgres in_memory_redis m(1) m'(1)] m'(2,3)
  obtain turns where turns: "map t_msg turns = [a, b]" "committed_messages (history m') = [a, b]"
      "concat (map turn_effects turns) = [Did_exec (row_args ?s) True, Did_exec (row_args ?s') True]"
      "sessions (sv_table (world m')) = fold (apply_turn id) turns Map.empty" "\<forall>t \<in> set turns. t_acked t \<longrightarrow> t_kept t"
    unfolding m by (metis append_Nil effects_simps(1))
  then obtain t t' where "turns = [t, t']" "t_msg t = a" "t_msg t' = b" by auto
  with turns msgs s have "sessions (sv_table (world m')) = [''u1'' \<mapsto> ?s']"
    by (simp add: turn_effects_def apply_turn_def stored_session_def)
  with m'(1) turns(2) show ?thesis by blast
qed

end
