(* ===== verification/Register.thy ===== *)
theory Register
  imports Concurrency
begin

text \<open>
  The abstract service: a register for every user, which a start, a heartbeat, a pause and a
  resume set and every read returns. With Redis, PostgreSQL and the clock in order, requests
  that are served one after the other are answered as the register answers them, although the
  session may be in the cache, in the database or in both, and although a heartbeat reaches
  the database later or not at all.
\<close>

subsection \<open>The register\<close>

datatype reply = Held PlaybackSession | NoSession | Accepted

fun register :: "task \<Rightarrow> go_time \<Rightarrow> (string \<rightharpoonup> PlaybackSession) \<Rightarrow> reply \<times> (string \<rightharpoonup> PlaybackSession)" where
  "register (TStart u req) now M =
    (Held (started_session u req now), M(u \<mapsto> started_session u req now))"
| "register (TCurrent u) now M = (case M u of None \<Rightarrow> NoSession | Some s \<Rightarrow> Held s, M)"
| "register (THeartbeat u req) now M = (Accepted, M(u \<mapsto> heartbeat_session u req now))"
| "register (TPause u d) now M =
    (case M u of
      None \<Rightarrow> (NoSession, M)
    | Some s \<Rightarrow> (Held (restamp StatusPaused d now s), M(u \<mapsto> restamp StatusPaused d now s)))"
| "register (TResume u d) now M =
    (case M u of
      None \<Rightarrow> (NoSession, M)
    | Some s \<Rightarrow> (Held (restamp StatusPlaying d now s), M(u \<mapsto> restamp StatusPlaying d now s)))"
| "register (TConsume _ _) now M = (Accepted, M)"
| "register (Warming _) now M = (Accepted, M)"

text \<open>The abstraction: the session that the cache has, or else the database.\<close>

definition current :: "table \<Rightarrow> (string \<rightharpoonup> bytes) \<Rightarrow> string \<rightharpoonup> PlaybackSession" where
  "current tab kv u =
    (case kv (cache_key u) of
      None \<Rightarrow> sessions tab u
    | Some data \<Rightarrow> (case unmarshal_session data of Inr s \<Rightarrow> Some s | Inl _ \<Rightarrow> sessions tab u))"

lemma current_set:
  assumes "unmarshal_session data = Inr s" "\<forall>v. v \<noteq> u \<longrightarrow> sessions tab' v = sessions tab v"
  shows "current tab' (kv(cache_key u \<mapsto> data)) = (current tab kv)(u \<mapsto> s)"
  using assms by (auto simp: fun_eq_iff current_def cache_key_def split: option.split sum.split)

definition held :: "('w \<Rightarrow> table) \<Rightarrow> ('w \<Rightarrow> (string \<rightharpoonup> bytes)) \<Rightarrow> 'w machine \<Rightarrow> string \<rightharpoonup> PlaybackSession" where
  "held tab kv m = current (tab (world m)) (kv (world m))"

text \<open>The request, then the goroutines that it has spawned.\<close>

definition settle :: "'w env \<Rightarrow> 'w machine \<Rightarrow> 'w machine" where
  "settle E m = fold (\<lambda>g m. snd (run E (run_closure g) m)) (spawned m) (m\<lparr>spawned := []\<rparr>)"

fun reply_of :: "outcome \<Rightarrow> 'w machine \<Rightarrow> reply option" where
  "reply_of (Session (Inr p)) m = Some (Held (heap m p))"
| "reply_of (Session (Inl e)) m =
    (if e = App (NewNotFound ''playback session not found'') then Some NoSession else None)"
| "reply_of (Answer None) m = Some Accepted"
| "reply_of _ m = None"

fun serve :: "'w env \<Rightarrow> task list \<Rightarrow> 'w machine \<Rightarrow> reply option list \<times> 'w machine" where
  "serve E [] m = ([], m)"
| "serve E (t # ts) m =
    (case run E (thread t) m of (out, m1) \<Rightarrow>
     case serve E ts (settle E m1) of (rs, m') \<Rightarrow> (reply_of out m1 # rs, m'))"

fun register_all :: "(task \<times> go_time) list \<Rightarrow> (string \<rightharpoonup> PlaybackSession) \<Rightarrow> reply list \<times> (string \<rightharpoonup> PlaybackSession)" where
  "register_all [] M = ([], M)"
| "register_all ((t, now) # ts) M =
    (case register t now M of (r, M1) \<Rightarrow> case register_all ts M1 of (rs, M') \<Rightarrow> (r # rs, M'))"

subsection \<open>Services in order\<close>

text \<open>
  As long as \<open>I\<close> holds of the world, and it goes on to hold, Redis answers and keeps what it
  was given, and PostgreSQL answers queries and executes what its columns accept. Nothing is
  asked of Kafka.
\<close>

definition in_order ::
  "('w \<Rightarrow> bool) \<Rightarrow> ('w \<Rightarrow> table) \<Rightarrow> ('w \<Rightarrow> (string \<rightharpoonup> bytes)) \<Rightarrow> 'w env \<Rightarrow> bool" where
  "in_order I tab kv E \<longleftrightarrow>
    (\<forall>k w. I w \<longrightarrow> kv (snd (redis_get E k w)) = kv w \<and> fst (redis_get E k w) =
      (case kv w k of None \<Rightarrow> Inl (Sentinel RedisNil) | Some v \<Rightarrow> Inr v)) \<and>
    (\<forall>k v t w. I w \<longrightarrow> fst (redis_set E k v t w) = None \<and>
      kv (snd (redis_set E k v t w)) = (kv w)(k \<mapsto> v)) \<and>
    (\<forall>q k w. I w \<longrightarrow> fst (pg_query_row E q k w) =
      (case select_row q k (tab w) of None \<Rightarrow> Inl (Sentinel PgNoRows) | Some vals \<Rightarrow> Inr vals)) \<and>
    (\<forall>q a w. I w \<longrightarrow> row_accepted (ins_columns q) a \<longrightarrow> fst (pg_exec E q a w) = None) \<and>
    calls_outside_redis (\<lambda>w w'. I w \<longrightarrow> I w' \<and> kv w' = kv w) E \<and>
    calls_outside_postgres (\<lambda>w w'. I w \<longrightarrow> I w') E"

text \<open>What the stores hold makes sense: rows under their users, sessions that can be stored.\<close>

definition good :: "(string \<rightharpoonup> PlaybackSession) \<Rightarrow> bool" where
  "good M \<longleftrightarrow> (\<forall>u s. M u = Some s \<longrightarrow> UserID s = u \<and> valid_session s \<and> session_accepted s)"

lemma good_upd: "good M \<Longrightarrow> UserID s = u \<Longrightarrow> valid_session s \<Longrightarrow> session_accepted s \<Longrightarrow> good (M(u \<mapsto> s))"
  by (simp add: good_def)

text \<open>A request whose session the columns accept.\<close>

fun acceptable :: "task \<Rightarrow> bool" where
  "acceptable (TStart u req) \<longleftrightarrow> (\<forall>now. session_accepted (started_session u req now))"
| "acceptable (TCurrent u) \<longleftrightarrow> True"
| "acceptable (THeartbeat u req) \<longleftrightarrow> (\<forall>now. session_accepted (heartbeat_session u req now))"
| "acceptable (TPause u d) \<longleftrightarrow> text_ok d"
| "acceptable (TResume u d) \<longleftrightarrow> text_ok d"
| "acceptable (TConsume _ _) \<longleftrightarrow> False"
| "acceptable (Warming _) \<longleftrightarrow> False"

lemma accepted_valid: "session_accepted s \<Longrightarrow> valid_time (UpdatedAt s) \<Longrightarrow> valid_session s"
  by (simp add: session_accepted_iff valid_session_def text_ok_def)

lemma accepted_restamp:
  "session_accepted s \<Longrightarrow> text_ok d \<Longrightarrow> st \<in> {StatusPlaying, StatusPaused} \<Longrightarrow>
    session_accepted (restamp st d now s)"
  by (auto simp: session_accepted_iff restamp_def text_ok_def StatusPlaying_def StatusPaused_def
      char_count_def byte_def)

text \<open>The machine after a request of which the register says \<open>reg\<close>, before it settles.\<close>

definition served ::
  "('w \<Rightarrow> bool) \<Rightarrow> ('w \<Rightarrow> table) \<Rightarrow> ('w \<Rightarrow> (string \<rightharpoonup> bytes)) \<Rightarrow> task \<Rightarrow> (string \<rightharpoonup> PlaybackSession) \<Rightarrow>
   go_time \<Rightarrow> outcome \<Rightarrow> 'w machine \<Rightarrow> bool" where
  "served I tab kv t M now out m \<longleftrightarrow> valid_time now \<and>
    reply_of out m = Some (fst (register t now M)) \<and> held tab kv m = snd (register t now M) \<and>
    I (world m) \<and> table_ok (tab (world m)) \<and> good (held tab kv m) \<and>
    (\<exists>p u. spawned m \<in> {[], [WarmCache p u]} \<and>
      (spawned m \<noteq> [] \<longrightarrow> held tab kv m (UserID (heap m p)) = Some (heap m p)))"

locale steady =
  fixes I :: "'w \<Rightarrow> bool" and pg :: "go_time \<Rightarrow> go_time" and tab :: "'w \<Rightarrow> table"
    and kv :: "'w \<Rightarrow> (string \<rightharpoonup> bytes)" and E :: "'w env"
  assumes laws: "postgres_laws pg tab E" "redis_laws kv E" "clock_ok E" and order: "in_order I tab kv E"
begin

lemma run_SetCache_steady:
  assumes "I (world m)" "valid_session (heap m p)"
  obtains m' where "run E (SetCache p) m = (None, m')" "heap m' = heap m" "fresh m' = fresh m"
    "spawned m' = spawned m" "I (world m')" "tab (world m') = tab (world m)"
    "held tab kv m' = (held tab kv m)(UserID (heap m p) \<mapsto> heap m p)"
    "\<exists>data. kv (world m') (cache_key (UserID (heap m p))) = Some data \<and> unmarshal_session data = Inr (heap m p)"
proof -
  let ?s = "heap m p"
  obtain data where data: "marshal_session ?s = Inr data" "unmarshal_session data = Inr ?s"
    using unmarshal_marshal_session [of ?s] sanitize_id [OF assms(2)] assms(2)
    by (auto simp: valid_session_def)
  obtain r w where set: "redis_set E (cache_key (UserID ?s)) data cacheTTL (world m) = (r, w)" by fastforce
  have w: "r = None" "kv w = (kv (world m))(cache_key (UserID ?s) \<mapsto> data)"
    using order assms(1) set unfolding in_order_def by (metis fst_conv snd_conv)+
  have "I w" using order assms(1) set unfolding in_order_def calls_outside_postgres_def by (metis snd_conv)
  moreover have "tab w = tab (world m)" using set_laws [OF laws(1,2) set] by simp
  ultimately show thesis
    using data set w current_set [OF data(2), of "UserID ?s" "tab w" "tab (world m)" "kv (world m)"]
    by (intro that [of "called m w (Did_set (cacheKeyPrefix @ UserID ?s) data cacheTTL True)"])
      (auto simp: run_SetCache cache_key_def held_def)
qed

lemma run_Upsert_steady:
  assumes "I (world m)" "table_ok (tab (world m))" "session_accepted (heap m p)"
  obtains m' where "run E (Upsert p) m = (None, m')" "heap m' = heap m" "fresh m' = fresh m"
    "spawned m' = spawned m" "I (world m')" "table_ok (tab (world m'))"
    "\<forall>v. v \<noteq> UserID (heap m p) \<longrightarrow> sessions (tab (world m')) v = sessions (tab (world m)) v"
    "kv (world m') = kv (world m)"
proof -
  let ?s = "heap m p"
  obtain r w where exec: "pg_exec E upsert_session (row_args ?s) (world m) = (r, w)" by fastforce
  have r: "r = None"
    using order assms(1,3) exec unfolding in_order_def session_accepted_def by (metis fst_conv)
  have w: "I w" "kv w = kv (world m)"
    using order assms(1) exec unfolding in_order_def calls_outside_redis_def by (metis snd_conv)+
  have "tab w = (tab (world m))(UserID ?s \<mapsto> row_of pg ?s)"
    using exec_laws(1) [OF laws(1,2) exec] r apply_upsert_session [OF assms(2)] by simp
  with exec r w show thesis
    by (intro that [of "called m w (Did_exec (row_args ?s) True)"])
      (simp_all add: run_Upsert table_ok_upd assms(2))
qed

text \<open>The end of a change: the database has the session, then the cache.\<close>

lemma run_save_steady:
  assumes "I (world m)" "table_ok (tab (world m))" "session_accepted (heap m p)"
    and "valid_time (UpdatedAt (heap m p))"
  obtains m' where "run E (save NewService u p fl wn) m = (Inr p, m')" "heap m' = heap m"
    "spawned m' = spawned m" "I (world m')" "table_ok (tab (world m'))"
    "held tab kv m' = (held tab kv m)(UserID (heap m p) \<mapsto> heap m p)"
proof -
  obtain m1 where up: "run E (Upsert p) m = (None, m1)" and m1: "heap m1 = heap m"
      "spawned m1 = spawned m" "I (world m1)" "table_ok (tab (world m1))"
      "\<forall>v. v \<noteq> UserID (heap m p) \<longrightarrow> sessions (tab (world m1)) v = sessions (tab (world m)) v"
      "kv (world m1) = kv (world m)"
    using run_Upsert_steady [OF assms(1-3)] by metis
  have "valid_session (heap m1 p)" using accepted_valid assms(3,4) m1(1) by simp
  from run_SetCache_steady [OF m1(3) this]
  obtain m2 where sc: "run E (SetCache p) m1 = (None, m2)" and m2: "heap m2 = heap m1"
      "spawned m2 = spawned m1" "I (world m2)" "tab (world m2) = tab (world m1)"
      "held tab kv m2 = (held tab kv m1)(UserID (heap m1 p) \<mapsto> heap m1 p)" by metis
  have "held tab kv m2 = (held tab kv m)(UserID (heap m p) \<mapsto> heap m p)"
    using m1 m2(5) by (auto simp: held_def fun_eq_iff current_def split: option.split sum.split)
  with up sc m1 m2 show thesis
    by (intro that [of m2]) (simp_all add: save_def NewService_def run_bind cache_or_warn_def)
qed

text \<open>Reading finds what is held, and may leave the goroutine that caches it.\<close>

lemma run_Get_steady:
  assumes "I (world m)" "table_ok (tab (world m))" and run: "run E (Get u) m = (r, m')"
  shows "I (world m') \<and> tab (world m') = tab (world m) \<and> kv (world m') = kv (world m) \<and>
    (case held tab kv m u of
      None \<Rightarrow> r = Inl (App (NewNotFound ''playback session not found'')) \<and> spawned m' = spawned m
    | Some s \<Rightarrow> \<exists>p. r = Inr p \<and> heap m' p = s \<and> spawned m' \<in> {spawned m, spawned m @ [WarmCache p u]})"
proof -
  obtain g w where get: "redis_get E (cache_key u) (world m) = (g, w)" by fastforce
  have g: "g = (case kv (world m) (cache_key u) of None \<Rightarrow> Inl (Sentinel RedisNil) | Some v \<Rightarrow> Inr v)"
      "kv w = kv (world m)"
    using order assms(1) get unfolding in_order_def by (metis fst_conv snd_conv)+
  have w: "I w" "tab w = tab (world m)"
    using order assms(1) get get_laws(1) [OF laws(1,2) get]
    unfolding in_order_def calls_outside_postgres_def by (metis snd_conv)+
  obtain q w' where query: "pg_query_row E select_session u w = (q, w')" by fastforce
  have q: "q = (case select_row select_session u (tab w) of None \<Rightarrow> Inl (Sentinel PgNoRows) | Some vals \<Rightarrow> Inr vals)"
      "tab w' = tab w"
    using order w(1) query query_laws(1) [OF laws(1,2) query]
    unfolding in_order_def query_law_def by (metis fst_conv snd_conv)+
  have w': "I w'" "kv w' = kv w"
    using order w(1) query unfolding in_order_def calls_outside_redis_def by (metis snd_conv)+
  have "scan_session vals \<noteq> Inl e" if row: "select_row select_session u (tab (world m)) = Some vals" for vals e
  proof -
    obtain x where "tab (world m) u = Some x" using row by (auto simp: select_row_def split: option.splits)
    with assms(2) have "sessions (tab (world m)) u \<noteq> None" unfolding table_ok_def by blast
    with row show ?thesis by (auto simp: sessions_def)
  qed
  then show ?thesis
    using run get query g q w w'
    by (auto simp: Get_def get_fallback_def run_bind run_getFromDB cache_key_def held_def current_def
        sessions_def Let_def split: option.splits sum.splits)
qed

text \<open>A goroutine that caches what is held changes nothing.\<close>

lemma settle_steady:
  assumes "I (world m)" "good (held tab kv m)" "spawned m \<in> {[], [WarmCache p u]}"
    and "spawned m \<noteq> [] \<Longrightarrow> held tab kv m (UserID (heap m p)) = Some (heap m p)"
  shows "I (world (settle E m)) \<and> tab (world (settle E m)) = tab (world m) \<and>
    held tab kv (settle E m) = held tab kv m \<and> heap (settle E m) = heap m \<and> spawned (settle E m) = []"
proof (cases "spawned m = []")
  case True
  then have "settle E m = m" by (simp add: settle_def)
  with assms(1) True show ?thesis by simp
next
  case False
  let ?m = "m\<lparr>spawned := []\<rparr>"
  have s: "held tab kv m (UserID (heap m p)) = Some (heap m p)" "spawned m = [WarmCache p u]"
    using assms(3,4) False by auto
  then have "valid_session (heap ?m p)" using assms(2) by (simp add: good_def)
  from run_SetCache_steady [of ?m p, OF _ this] assms(1)
  obtain m1 where "run E (SetCache p) ?m = (None, m1)" "heap m1 = heap m" "spawned m1 = []" "I (world m1)"
      "tab (world m1) = tab (world m)" "held tab kv m1 = (held tab kv ?m)(UserID (heap m p) \<mapsto> heap m p)"
    by auto
  moreover have "held tab kv ?m = held tab kv m" by (simp add: held_def)
  ultimately show ?thesis
    using s by (simp add: settle_def run_bind fun_upd_idem)
qed

subsection \<open>One request\<close>

lemma clock_steady:
  assumes "I w" "clock E w = (now, w')"
  shows "valid_time now \<and> I w' \<and> tab w' = tab w \<and> kv w' = kv w"
  using assms laws(3) order clock_laws(1) [OF laws(1,2) assms(2)]
  unfolding clock_ok_def in_order_def calls_outside_redis_def by (metis fst_conv snd_conv)

lemma served_start:
  assumes "I (world m)" "table_ok (tab (world m))" "good (held tab kv m)" "spawned m = []"
    and "acceptable (TStart u req)" "run E (thread (TStart u req)) m = (out, m')"
  shows "\<exists>now. served I tab kv (TStart u req) (held tab kv m) now out m'"
proof -
  obtain now w where now: "clock E (world m) = (now, w)" by fastforce
  let ?s = "started_session u req now"
  let ?m = "m\<lparr>world := w, heap := (heap m)(fresh m := ?s), fresh := Suc (fresh m)\<rparr>"
  have w: "valid_time now" "I w" "tab w = tab (world m)" "kv w = kv (world m)"
    using clock_steady [OF assms(1) now] by simp_all
  have s: "session_accepted ?s" "UserID ?s = u" "UpdatedAt ?s = now"
    using assms(5) by (simp_all add: started_session_def)
  obtain m1 where m1: "run E (save NewService u (fresh m) ''failed to start session''
        ''failed to cache new session'') ?m = (Inr (fresh m), m1)"
      "heap m1 = heap ?m" "spawned m1 = spawned ?m" "I (world m1)" "table_ok (tab (world m1))"
      "held tab kv m1 = (held tab kv ?m)(u \<mapsto> ?s)"
    using run_save_steady [of ?m "fresh m" u "''failed to start session''" "''failed to cache new session''"]
      w assms(2) s by auto
  have "held tab kv ?m = held tab kv m" using w by (simp add: held_def)
  moreover have "out = Session (Inr (fresh m))" "m' = m1"
    using assms(6) m1(1) now by (simp_all add: run_bind Service_Start_save)
  moreover have "valid_session ?s" using accepted_valid s w(1) by simp
  ultimately show ?thesis
    using m1 s assms(3,4) w(1) by (auto simp: served_def intro!: exI [of _ now] good_upd)
qed

lemma served_current:
  assumes "I (world m)" "table_ok (tab (world m))" "good (held tab kv m)" "spawned m = []"
    and "run E (thread (TCurrent u)) m = (out, m')"
  shows "valid_time now \<Longrightarrow> served I tab kv (TCurrent u) (held tab kv m) now out m'"
proof -
  assume time: "valid_time now"
  obtain r m1 where get: "run E (Get u) m = (r, m1)" by fastforce
  have out: "out = Session r" "m' = m1"
    using assms(5) get by (simp_all add: run_bind Service_GetCurrent_def)
  have same: "held tab kv m1 = held tab kv m"
    using run_Get_steady [OF assms(1,2) get] by (simp add: held_def)
  show ?thesis
  proof (cases "held tab kv m u")
    case None
    with run_Get_steady [OF assms(1,2) get] out same assms(2-4) time show ?thesis
      by (simp add: served_def)
  next
    case (Some s)
    with run_Get_steady [OF assms(1,2) get] obtain p where
      "r = Inr p" "heap m1 p = s" "spawned m1 \<in> {[], [WarmCache p u]}"
      using assms(4) by auto
    moreover have "UserID s = u" using assms(3) Some by (simp add: good_def)
    ultimately show ?thesis
      using run_Get_steady [OF assms(1,2) get] out same assms(2,3) Some time
      by (auto simp: served_def intro!: exI [of _ p] exI [of _ u])
  qed
qed

text \<open>Pausing and resuming: the session that is held, stamped anew.\<close>

lemma served_change:
  assumes "I (world m)" "table_ok (tab (world m))" "good (held tab kv m)" "spawned m = []"
    and "text_ok d" "st \<in> {StatusPlaying, StatusPaused}"
    and thread: "thread t = bind (set_status NewService st fl wn u d) (\<lambda>r. Done (Session r))"
    and spec: "\<And>now M. register t now M = (case M u of None \<Rightarrow> (NoSession, M)
      | Some s \<Rightarrow> (Held (restamp st d now s), M(u \<mapsto> restamp st d now s)))"
    and run: "run E (thread t) m = (out, m')"
  shows "\<exists>now. served I tab kv t (held tab kv m) now out m'"
proof -
  obtain r m1 where get: "run E (Get u) m = (r, m1)" by fastforce
  have "repo_Get NewService = Get" by (simp add: NewService_def)
  note body = thread set_status_save run_bind this get
  note got = run_Get_steady [OF assms(1,2) get]
  show ?thesis
  proof (cases "held tab kv m u")
    case None
    with got run have "out = Session (Inl (App (NewNotFound ''playback session not found'')))" "m' = m1"
      by (simp_all add: body)
    with None got assms(2-4) spec show ?thesis
      by (auto simp: served_def held_def intro: exI [of _ "instant 0"])
  next
    case (Some s)
    with got obtain p where p: "r = Inr p" "heap m1 p = s" "spawned m1 \<in> {[], [WarmCache p u]}"
      using assms(4) by auto
    obtain now w where now: "clock E (world m1) = (now, w)" by fastforce
    let ?s = "restamp st d now s"
    let ?m = "m1\<lparr>world := w, heap := (heap m1)(p := ?s)\<rparr>"
    have w: "valid_time now" "I w" "tab w = tab (world m)" "kv w = kv (world m)"
      using clock_steady [OF _ now] got by simp_all
    have s: "UserID s = u" "session_accepted s" using assms(3) Some by (auto simp: good_def)
    then have s': "UserID ?s = u" "session_accepted ?s" "UpdatedAt ?s = now"
      using accepted_restamp assms(5,6) by (simp_all add: restamp_def)
    obtain m2 where m2: "run E (save NewService u p fl wn) ?m = (Inr p, m2)" "heap m2 = heap ?m"
        "spawned m2 = spawned ?m" "I (world m2)" "table_ok (tab (world m2))"
        "held tab kv m2 = (held tab kv ?m)(u \<mapsto> ?s)"
      using run_save_steady [of ?m p u fl wn] w assms(2) s' by auto
    have "held tab kv ?m = held tab kv m" using w by (simp add: held_def)
    moreover have "out = Session (Inr p)" "m' = m2"
      using run p now m2(1) by (simp_all add: body restamp_def)
    moreover have "valid_session ?s" using accepted_valid s' w(1) by simp
    ultimately show ?thesis
      using m2 s' assms(3) p(3) Some spec w(1)
      by (auto simp: served_def intro!: exI [of _ now] exI [of _ p] exI [of _ u] good_upd)
  qed
qed

lemma run_NewEnvelope_steady:
  assumes "I (world m)" "valid_time (UpdatedAt s)"
  obtains v w where "run E (NewEnvelope ''playback.heartbeat'' 1 (marshal_session s)) m = (Inr v, m\<lparr>world := w\<rparr>)"
    "I w" "tab w = tab (world m)" "kv w = kv (world m)"
proof -
  obtain t w where now: "clock E (world m) = (t, w)" by fastforce
  have w: "valid_time t" "I w" "tab w = tab (world m)" "kv w = kv (world m)"
    using clock_steady [OF assms(1) now] by simp_all
  obtain raw where raw: "marshal_session s = Inr raw" using unmarshal_marshal_session [OF assms(2)] by blast
  obtain v where "heartbeat_event t s = Inr v" using heartbeat_event_read [OF w(1) assms(2)] by blast
  with raw have "marshal_envelope \<lparr>env_Type = ''playback.heartbeat'', env_Version = 1,
      env_Timestamp = t, env_Payload = raw\<rparr> = Inr v" by (simp add: heartbeat_event_def split: sum.splits)
  with now raw w show thesis by (intro that [of v w]) (simp_all add: NewEnvelope_def)
qed

lemma run_Publish_steady:
  assumes "I (world m)" "run E (Publish tp k v) m = (r, m')"
  shows "I (world m') \<and> tab (world m') = tab (world m) \<and> kv (world m') = kv (world m) \<and>
    heap m' = heap m \<and> spawned m' = spawned m"
proof -
  obtain c w where tr: "trace_inject E (world m) = (c, w)" by fastforce
  obtain msg q w' where wr: "kafka_write E msg w = (q, w')" "world m' = w'"
    and m': "heap m' = heap m" "spawned m' = spawned m"
    using assms(2) tr
    by (auto simp: Publish_def injectTraceHeaders_def split: prod.splits option.splits)
  have "I w" "kv w = kv (world m)"
    using order assms(1) tr unfolding in_order_def calls_outside_redis_def by (metis snd_conv)+
  moreover from this(1) have "I w'" "kv w' = kv w"
    using order wr unfolding in_order_def calls_outside_redis_def by (metis snd_conv)+
  moreover have "tab w = tab (world m)" "tab w' = tab w"
    using laws(1) wr tr unfolding postgres_laws_def calls_outside_postgres_def by (metis snd_conv)+
  ultimately show ?thesis using wr m' by simp
qed

text \<open>The fallback writes the session that the cache already has.\<close>

lemma run_fallback_steady:
  assumes "I (world m)" "table_ok (tab (world m))" "session_accepted (heap m p)"
    and cached: "kv (world m) (cache_key (UserID (heap m p))) = Some data" "unmarshal_session data = Inr (heap m p)"
  obtains m' where "run E (Upsert p) m = (None, m')" "I (world m')" "table_ok (tab (world m'))"
    "held tab kv m' = held tab kv m" "spawned m' = spawned m"
proof -
  obtain m' where m': "run E (Upsert p) m = (None, m')" "spawned m' = spawned m" "I (world m')"
      "table_ok (tab (world m'))" "kv (world m') = kv (world m)"
      "\<forall>v. v \<noteq> UserID (heap m p) \<longrightarrow> sessions (tab (world m')) v = sessions (tab (world m)) v"
    using run_Upsert_steady [OF assms(1-3)] by metis
  have "held tab kv m' u = held tab kv m u" for u
    using m'(5,6) cached
    by (cases "u = UserID (heap m p)") (simp_all add: held_def current_def split: option.split sum.split)
  then show thesis using that m' by blast
qed

lemma served_heartbeat:
  assumes "I (world m)" "table_ok (tab (world m))" "good (held tab kv m)" "spawned m = []"
    and "acceptable (THeartbeat u req)" "run E (thread (THeartbeat u req)) m = (out, m')"
  shows "\<exists>now. served I tab kv (THeartbeat u req) (held tab kv m) now out m'"
proof -
  obtain now w where now: "clock E (world m) = (now, w)" by fastforce
  let ?s = "heartbeat_session u req now" and ?p = "fresh m"
  let ?m = "m\<lparr>world := w, heap := (heap m)(?p := ?s), fresh := Suc ?p\<rparr>"
  have w: "valid_time now" "I w" "tab w = tab (world m)" "kv w = kv (world m)"
    using clock_steady [OF assms(1) now] by simp_all
  have s: "session_accepted ?s" "UserID ?s = u" "UpdatedAt ?s = now"
    using assms(5) by (simp_all add: heartbeat_session_def)
  then have valid: "valid_session ?s" using accepted_valid w(1) by simp
  have before: "I (world ?m)" "valid_session (heap ?m ?p)" using w valid by simp_all
  obtain m1 where set: "run E (SetCache ?p) ?m = (None, m1)" "heap m1 = heap ?m" "fresh m1 = fresh ?m"
      "spawned m1 = spawned ?m" "I (world m1)" "tab (world m1) = tab (world ?m)"
      "held tab kv m1 = (held tab kv ?m)(UserID (heap ?m ?p) \<mapsto> heap ?m ?p)"
      "\<exists>data. kv (world m1) (cache_key (UserID (heap ?m ?p))) = Some data \<and> unmarshal_session data = Inr (heap ?m ?p)"
    by (rule run_SetCache_steady [OF before])
  have m1: "run E (SetCache ?p) ?m = (None, m1)" "heap m1 = heap ?m" "spawned m1 = []"
      "I (world m1)" "tab (world m1) = tab (world m)" "held tab kv m1 = (held tab kv ?m)(u \<mapsto> ?s)"
      "\<exists>data. kv (world m1) (cache_key u) = Some data \<and> unmarshal_session data = Inr ?s"
    using set w(3) assms(4) s(2) by simp_all
  obtain v w2 where envelope: "run E (NewEnvelope ''playback.heartbeat'' 1 (marshal_session ?s)) m1
      = (Inr v, m1\<lparr>world := w2\<rparr>)" and w2: "I w2" "tab w2 = tab (world m)" "kv w2 = kv (world m1)"
    using run_NewEnvelope_steady [OF m1(4), of ?s] s(3) w(1) m1(5) by metis
  obtain r m3 where publish: "run E (Publish heartbeatTopic u v) (m1\<lparr>world := w2\<rparr>) = (r, m3)" by fastforce
  have m3: "I (world m3)" "tab (world m3) = tab (world m)" "kv (world m3) = kv (world m1)"
      "heap m3 ?p = ?s" "spawned m3 = []"
    using run_Publish_steady [OF _ publish] w2 m1(2,3) by simp_all
  have held3: "held tab kv m3 = (held tab kv m)(u \<mapsto> ?s)"
    using m1(5,6) m3(2,3) w(3,4) by (simp add: held_def)
  have body: "run E (Service_Heartbeat NewService u req) m =
      (case r of None \<Rightarrow> (None, m3) | Some e \<Rightarrow>
        run E (bind (Upsert ?p) (\<lambda>r. case r of
            Some dbErr \<Rightarrow> Done (Some (App (NewInternal ''failed to persist heartbeat'' dbErr)))
          | None \<Rightarrow> Done None)) (logged Error_level ''kafka publish failed, writing heartbeat directly to db''
            [(''user_id'', AText u), (''error'', AErr e)] m3))"
    using now m1(1,2) envelope publish
    by (simp add: Service_Heartbeat_def cache_or_warn_def run_bind heartbeat_session_def split: option.split)
  have ends: "\<exists>m4. run E (Service_Heartbeat NewService u req) m = (None, m4) \<and> I (world m4) \<and>
      table_ok (tab (world m4)) \<and> held tab kv m4 = (held tab kv m)(u \<mapsto> ?s) \<and> spawned m4 = []"
  proof (cases r)
    case None
    with body m3 held3 assms(2) show ?thesis by auto
  next
    case (Some e)
    let ?m3 = "logged Error_level ''kafka publish failed, writing heartbeat directly to db''
      [(''user_id'', AText u), (''error'', AErr e)] m3"
    obtain data where "kv (world ?m3) (cache_key (UserID (heap ?m3 ?p))) = Some data"
        "unmarshal_session data = Inr (heap ?m3 ?p)"
      using m1(7) m3(3,4) s(2) by auto
    from run_fallback_steady [OF _ _ _ this] m3 s(1) assms(2)
    obtain m4 where "run E (Upsert ?p) ?m3 = (None, m4)" "I (world m4)" "table_ok (tab (world m4))"
        "held tab kv m4 = held tab kv ?m3" "spawned m4 = spawned ?m3" by auto
    moreover have "held tab kv ?m3 = held tab kv m3" by (simp add: held_def)
    ultimately show ?thesis using body Some held3 m3(5) by (simp add: run_bind)
  qed
  from ends show ?thesis
    using assms(3,6) s(2) valid s(1) w(1)
    by (auto simp: run_bind served_def intro!: exI [of _ now] good_upd)
qed

lemma served_request:
  assumes "I (world m)" "table_ok (tab (world m))" "good (held tab kv m)" "spawned m = []"
    and "acceptable t" "run E (thread t) m = (out, m')"
  shows "\<exists>now. served I tab kv t (held tab kv m) now out m'"
proof (cases t)
  case (TStart u req)
  with served_start assms show ?thesis by blast
next
  case (TCurrent u)
  with served_current [OF assms(1-4) _ valid_instant] assms show ?thesis by blast
next
  case (THeartbeat u req)
  with served_heartbeat assms show ?thesis by blast
next
  case (TPause u d)
  with assms show ?thesis
    by (intro served_change [where u = u and d = d and st = StatusPaused and m = m])
      (auto simp: set_status_instances)
next
  case (TResume u d)
  with assms show ?thesis
    by (intro served_change [where u = u and d = d and st = StatusPlaying and m = m])
      (auto simp: set_status_instances)
qed (use assms in simp_all)

text \<open>A request and the goroutines after it.\<close>

lemma settle_served:
  assumes "served I tab kv t M now out m"
  shows "valid_time now" "reply_of out m = Some (fst (register t now M))"
    "held tab kv (settle E m) = snd (register t now M)"
    "I (world (settle E m))" "table_ok (tab (world (settle E m)))" "good (held tab kv (settle E m))"
    "spawned (settle E m) = []"
proof -
  from assms obtain p u where "spawned m \<in> {[], [WarmCache p u]}"
      "spawned m \<noteq> [] \<Longrightarrow> held tab kv m (UserID (heap m p)) = Some (heap m p)"
    by (auto simp: served_def)
  moreover have m: "I (world m)" "table_ok (tab (world m))" "good (held tab kv m)"
      "reply_of out m = Some (fst (register t now M))" "held tab kv m = snd (register t now M)"
    using assms unfolding served_def by blast+
  ultimately have "I (world (settle E m)) \<and> tab (world (settle E m)) = tab (world m) \<and>
      held tab kv (settle E m) = held tab kv m \<and> heap (settle E m) = heap m \<and> spawned (settle E m) = []"
    by (intro settle_steady)
  with m assms show "valid_time now" "reply_of out m = Some (fst (register t now M))"
    "held tab kv (settle E m) = snd (register t now M)"
    "I (world (settle E m))" "table_ok (tab (world (settle E m)))" "good (held tab kv (settle E m))"
    "spawned (settle E m) = []"
    unfolding served_def by simp_all
qed

lemma serve_register:
  assumes "I (world m)" "table_ok (tab (world m))" "good (held tab kv m)" "spawned m = []"
    and "\<forall>t \<in> set ts. acceptable t"
  shows "\<exists>nows. length nows = length ts \<and> (\<forall>now \<in> set nows. valid_time now) \<and>
    fst (serve E ts m) = map Some (fst (register_all (zip ts nows) (held tab kv m))) \<and>
    held tab kv (snd (serve E ts m)) = snd (register_all (zip ts nows) (held tab kv m))"
  using assms
proof (induction ts arbitrary: m)
  case (Cons t ts)
  obtain out m' where run: "run E (thread t) m = (out, m')" by fastforce
  have "acceptable t" using Cons.prems(5) by simp
  from served_request [OF Cons.prems(1-4) this run]
  obtain now where "served I tab kv t (held tab kv m) now out m'" ..
  note one = settle_served(1-3) [OF this] and idle = settle_served(4-7) [OF this]
  obtain nows where "length nows = length ts" "\<forall>now \<in> set nows. valid_time now"
    "fst (serve E ts (settle E m')) = map Some (fst (register_all (zip ts nows) (held tab kv (settle E m'))))"
    "held tab kv (snd (serve E ts (settle E m'))) = snd (register_all (zip ts nows) (held tab kv (settle E m')))"
    using Cons.IH [OF idle] Cons.prems(5) by auto
  with one run show ?case
    by (intro exI [of _ "now # nows"]) (simp add: case_prod_unfold del: thread.simps)
qed simp

end

text \<open>The services in memory are in order as long as they are up.\<close>

interpretation memory: steady up id sv_table sv_cache in_memory
proof
  show "postgres_laws id sv_table in_memory" by (rule in_memory_postgres)
  show "redis_laws sv_cache in_memory" by (rule in_memory_redis)
  show "clock_ok in_memory" by (simp add: clock_ok_def)
  show "in_order up sv_table sv_cache in_memory"
    by (auto simp: in_order_def calls_outside_redis_def calls_outside_postgres_def in_memory_def up_def
        split: option.split)
qed

text \<open>
  The service refines the register: with Redis, PostgreSQL and the clock in order, any
  sequence of requests whose sessions the columns accept, of any users, is answered as the
  register answers it, and leaves what the register leaves. Reads find the last session that
  was set whether the cache or only the database has it, heartbeats are seen by later reads
  whether Kafka took them or not, pausing and resuming change only status, device and time,
  and a user without a session is told so.
\<close>

lemma service_refines_register:
  assumes "postgres_laws pg tab E" "redis_laws kv E" "clock_ok E" "in_order I tab kv E"
    and "I (world m)" "table_ok (tab (world m))" "good (held tab kv m)" "spawned m = []"
    and "\<forall>t \<in> set ts. acceptable t"
  shows "\<exists>nows. length nows = length ts \<and> (\<forall>now \<in> set nows. valid_time now) \<and>
    fst (serve E ts m) = map Some (fst (register_all (zip ts nows) (held tab kv m))) \<and>
    held tab kv (snd (serve E ts m)) = snd (register_all (zip ts nows) (held tab kv m))"
  using steady.serve_register [OF steady.intro [OF assms(1-4)] assms(5-9)] .

definition some_requests :: "task list" where
  "some_requests =
    [TCurrent ''u1'', TStart ''u1'' \<lparr>sr_TrackID = ''t1'', sr_DeviceID = ''d1'', sr_Position = 7\<rparr>,
     THeartbeat ''u1'' \<lparr>hr_TrackID = ''t1'', hr_Position = 9, hr_DeviceID = ''d1''\<rparr>,
     TPause ''u1'' ''d2'', TCurrent ''u1'']"

lemma service_refines_register_witness:
  "\<exists>start beat pause.
    fst (serve in_memory some_requests (boot all_up)) = [Some NoSession,
      Some (Held (started_session ''u1'' \<lparr>sr_TrackID = ''t1'', sr_DeviceID = ''d1'', sr_Position = 7\<rparr> start)),
      Some Accepted,
      Some (Held (restamp StatusPaused ''d2'' pause
        (heartbeat_session ''u1'' \<lparr>hr_TrackID = ''t1'', hr_Position = 9, hr_DeviceID = ''d1''\<rparr> beat))),
      Some (Held (restamp StatusPaused ''d2'' pause
        (heartbeat_session ''u1'' \<lparr>hr_TrackID = ''t1'', hr_Position = 9, hr_DeviceID = ''d1''\<rparr> beat)))]"
proof -
  have ok: "\<forall>t \<in> set some_requests. acceptable t"
    by (simp add: some_requests_def session_accepted_iff started_session_def heartbeat_session_def
        text_ok_def StatusPlaying_def char_count_def byte_def)
  have empty: "held sv_table sv_cache (boot all_up) = Map.empty"
    by (simp add: fun_eq_iff held_def current_def boot_def all_up_def)
  have "up (world (boot all_up))" "table_ok (sv_table (world (boot all_up)))"
    "good (held sv_table sv_cache (boot all_up))" "spawned (boot all_up) = []"
    by (simp_all add: empty good_def) (simp_all add: boot_def all_up_def up_def)
  then obtain nows where nows: "length nows = length some_requests"
      "fst (serve in_memory some_requests (boot all_up)) =
        map Some (fst (register_all (zip some_requests nows) Map.empty))"
    using service_refines_register [OF in_memory_postgres in_memory_redis memory.laws(3) memory.order _ _ _ _ ok,
        of "boot all_up", unfolded empty] by (auto simp: empty)
  from nows(1) obtain n1 n2 n3 n4 n5 where "nows = [n1, n2, n3, n4, n5]"
    by (auto simp: some_requests_def numeral_eq_Suc length_Suc_conv)
  then have "fst (register_all (zip some_requests nows) Map.empty) = [NoSession,
      Held (started_session ''u1'' \<lparr>sr_TrackID = ''t1'', sr_DeviceID = ''d1'', sr_Position = 7\<rparr> n2), Accepted,
      Held (restamp StatusPaused ''d2'' n4
        (heartbeat_session ''u1'' \<lparr>hr_TrackID = ''t1'', hr_Position = 9, hr_DeviceID = ''d1''\<rparr> n3)),
      Held (restamp StatusPaused ''d2'' n4
        (heartbeat_session ''u1'' \<lparr>hr_TrackID = ''t1'', hr_Position = 9, hr_DeviceID = ''d1''\<rparr> n3))]"
    by (simp add: some_requests_def)
  with nows(2) show ?thesis by auto
qed

end
