(* ===== verification/Api.thy ===== *)
theory Api
  imports Session_Handler In_Memory
begin

text \<open>
  What the endpoints promise their clients, over any HTTP library that keeps its laws: which
  requests are turned away and with what, the statuses the API documents, what an internal
  error lets out, and what a success means.
\<close>

text \<open>The requests of the examples.\<close>

definition api_request :: "string \<Rightarrow> bytes \<Rightarrow> exchange" where
  "api_request user body = fresh_exchange ''POST'' ''/api/v1/sessions''
     (\<lambda>k. if k = ''X-User-ID'' then user else []) body"

definition no_text :: "sentinel + json_error \<Rightarrow> string" where
  "no_text e = []"

text \<open>
  C22. A request without a user or with a body that cannot be decoded or fails validation is
  answered 401 or 400 with the error as JSON, before any call is made: the machine is left
  as it was.
\<close>

theorem rejected_requests_touch_nothing:
  assumes F: "fasthttp_laws ex F"
    and rejected: "ex_headers (ex ctx) ''X-User-ID'' = [] \<or> refusal lt V e (ex_body (ex ctx)) \<noteq> None"
    and run: "run E (endpoint_handler lt V F (NewHandler NewService) e ctx) m = (ctx', m')"
  shows "m' = m \<and> (\<exists>a. ex ctx' = error_exchange a (ex ctx) \<and>
    (if ex_headers (ex ctx) ''X-User-ID'' = []
     then HTTPStatus a = 401 \<and> Code a = ''UNAUTHORIZED''
     else HTTPStatus a = 400 \<and> Code a = ''VALIDATION_ERROR''))"
  by (rule endpoint_outcomes [OF F run]; use rejected in auto)

lemma rejected_requests_touch_nothing_witness:
  "\<exists>ctx' m'. run in_memory (endpoint_handler no_text documented_validation plain_http
      (NewHandler NewService) EStart (api_request ''u1'' [])) (boot all_up) = (ctx', m') \<and>
    m' = boot all_up \<and> ex_status ctx' = 400"
proof -
  let ?ctx = "api_request ''u1'' []"
  obtain ctx' m' where run: "run in_memory (endpoint_handler no_text documented_validation
      plain_http (NewHandler NewService) EStart ?ctx) (boot all_up) = (ctx', m')"
    by fastforce
  have "ex_headers (id ?ctx) ''X-User-ID'' = [] \<or>
      refusal no_text documented_validation EStart (ex_body (id ?ctx)) \<noteq> None"
    by (simp add: api_request_def fresh_exchange_def BindJSON_def)
  from rejected_requests_touch_nothing [OF plain_http_laws(1) this run] run show ?thesis
    by (auto simp: error_exchange_def api_request_def fresh_exchange_def)
qed

text \<open>
  C23. Every response of an endpoint has a status that the API documents for it.
\<close>

theorem endpoint_statuses_documented:
  assumes F: "fasthttp_laws ex F"
  shows "ex_status (ex (fst (run E (endpoint_handler lt V F (NewHandler NewService) e ctx) m)))
    \<in> documented_statuses e"
  by (rule endpoint_frame(1) [OF F, of E lt V e ctx m _
      "snd (run E (endpoint_handler lt V F (NewHandler NewService) e ctx) m)"]) simp

lemma endpoint_statuses_documented_witness:
  "ex_status (fst (run in_memory (endpoint_handler no_text documented_validation plain_http
      (NewHandler NewService) EGetCurrent (api_request ''u1'' [])) (boot all_up)))
    \<in> {200, 401, 404, 500}"
  using endpoint_statuses_documented [OF plain_http_laws(2), of in_memory no_text
      documented_validation EGetCurrent "api_request ''u1'' []" "boot all_up"]
  by (simp add: documented_statuses_def)

text \<open>
  C24. An internal error lets nothing of its cause out: whatever failed behind an endpoint,
  the body of a response with status 500 is one of a few fixed texts of the endpoint.
\<close>

theorem internal_errors_do_not_leak:
  assumes F: "fasthttp_laws ex F"
    and run: "run E (endpoint_handler lt V F (NewHandler NewService) e ctx) m = (ctx', m')"
    and status: "ex_status (ex ctx') = 500"
  shows "ex_response (ex ctx') = encode_failure \<or>
    (\<exists>msg \<in> internal_texts e. ex_response (ex ctx') = ex_response (ex ctx) @
      marshal_response \<lparr>resp_error = Some \<lparr>body_code = ''INTERNAL_ERROR'', body_message = msg\<rparr>\<rparr> @
      [newline])"
  by (rule endpoint_outcomes [OF F run])
    (use status in \<open>auto simp: service_error_def error_exchange_def session_exchange_def
      success_code_def ToResponse_def split: sum.splits endpoint.splits\<close>)

lemma internal_errors_do_not_leak_witness:
  "\<exists>ctx' m'. run in_memory (endpoint_handler no_text documented_validation plain_http
      (NewHandler NewService) EGetCurrent (api_request ''u1'' []))
      (boot (all_up\<lparr>sv_postgres_up := False\<rparr>)) = (ctx', m') \<and> ex_status ctx' = 500 \<and>
    (ex_response ctx' = encode_failure \<or> ex_response ctx' = marshal_response
      \<lparr>resp_error = Some \<lparr>body_code = ''INTERNAL_ERROR'', body_message = ''db query failed''\<rparr>\<rparr> @ [newline])"
proof -
  let ?m = "boot (all_up\<lparr>sv_postgres_up := False\<rparr>)"
  obtain ctx' m' where run: "run in_memory (endpoint_handler no_text documented_validation
      plain_http (NewHandler NewService) EGetCurrent (api_request ''u1'' [])) ?m = (ctx', m')"
    "ex_status (id ctx') = 500"
    by (simp add: Handler_GetCurrent_def Handler_userID_cases [OF plain_http_laws(1)] NewHandler_def
        Service_GetCurrent_def NewService_def Get_def get_fallback_def run_bind run_getFromDB
        in_memory_def boot_def all_up_def api_request_def fresh_exchange_def writeServiceError_def
        refused_def db_failure_def)
      (simp add: plain_http_def WriteError_def WriteJSON_def NewInternal_def)
  from internal_errors_do_not_leak [OF plain_http_laws(1) run] run show ?thesis
    by (auto simp: internal_texts_def api_request_def fresh_exchange_def)
qed

text \<open>
  C26. What a body has to be: it is accepted when it is not empty, decodes, and has its
  required fields; a heartbeat also needs a position that is not negative, which a start does
  not.
\<close>

theorem accepted_bodies:
  assumes "validation_laws V"
  shows "(BindJSON lt V unmarshal_start StartRequest_fields body = Inr a \<longleftrightarrow>
      body \<noteq> [] \<and> unmarshal_start body = Inr a \<and> sr_TrackID a \<noteq> [] \<and> sr_DeviceID a \<noteq> []) \<and>
    (BindJSON lt V unmarshal_heartbeat HeartbeatRequest_fields body = Inr b \<longleftrightarrow>
      body \<noteq> [] \<and> unmarshal_heartbeat body = Inr b \<and> hr_TrackID b \<noteq> [] \<and> hr_DeviceID b \<noteq> [] \<and>
      0 \<le> sint (hr_Position b)) \<and>
    (BindJSON lt V unmarshal_pause_resume PauseResumeRequest_fields body = Inr c \<longleftrightarrow>
      body \<noteq> [] \<and> unmarshal_pause_resume body = Inr c \<and> pr_DeviceID c \<noteq> [])"
  by (simp_all add: BindJSON_Inr valid_requests [OF assms])

definition negative_start :: bytes where
  "negative_start = ''{\"track_id\":\"t\",\"device_id\":\"d\",\"position_sec\":-5}''"

lemma documented_validation_laws: "validation_laws documented_validation"
  by (simp add: validation_laws_def)

lemma unmarshal_negative_start:
  "unmarshal_start negative_start = Inr \<lparr>sr_TrackID = ''t'', sr_DeviceID = ''d'', sr_Position = -5\<rparr>"
  by code_simp

lemma accepted_bodies_witness:
  "BindJSON no_text documented_validation unmarshal_start StartRequest_fields negative_start =
    Inr \<lparr>sr_TrackID = ''t'', sr_DeviceID = ''d'', sr_Position = -5\<rparr> \<and>
   \<not> (\<exists>b. BindJSON no_text documented_validation unmarshal_heartbeat HeartbeatRequest_fields
     negative_start = Inr b)"
proof -
  have "unmarshal_heartbeat negative_start = Inr \<lparr>hr_TrackID = ''t'', hr_Position = -5, hr_DeviceID = ''d''\<rparr>"
    by code_simp
  moreover have "negative_start \<noteq> []" by (simp add: negative_start_def)
  ultimately show ?thesis
    using accepted_bodies [OF documented_validation_laws, of no_text negative_start]
      unmarshal_negative_start by auto
qed

text \<open>
  A started session in a response is in the database: when starting answers 201 the body
  of the request was a complete start request, exactly one statement was executed and it
  succeeded, and the response carries the session of that statement as JSON.
\<close>

lemma created_session_is_stored:
  assumes F: "fasthttp_laws ex F" and V: "validation_laws V" and time: "clock_ok E"
    and run: "run E (endpoint_handler lt V F (NewHandler NewService) EStart ctx) m = (ctx', m')"
    and created: "ex_status (ex ctx') = 201"
  shows "\<exists>req now data. unmarshal_start (ex_body (ex ctx)) = Inr req \<and>
    sr_TrackID req \<noteq> [] \<and> sr_DeviceID req \<noteq> [] \<and>
    effects (history m') = effects (history m) @
      [Did_exec (row_args (started_session (ex_headers (ex ctx) ''X-User-ID'') req now)) True] \<and>
    ex_response (ex ctx') = ex_response (ex ctx) @ data @ [newline] \<and>
    unmarshal_session data =
      Inr (sanitize (started_session (ex_headers (ex ctx) ''X-User-ID'') req now))"
proof -
  let ?u = "ex_headers (ex ctx) ''X-User-ID''"
  obtain now w where now: "clock E (world m) = (now, w)" by fastforce
  have ok: "?u \<noteq> []" "refusal lt V EStart (ex_body (ex ctx)) = None"
    using created by (cases rule: endpoint_outcomes [OF F run]; simp add: error_exchange_def)+
  then obtain req where req: "BindJSON lt V unmarshal_start StartRequest_fields (ex_body (ex ctx)) = Inr req"
    by (auto split: sum.splits)
  obtain r m1 where call: "run E (Service_Start NewService ?u req) m = (r, m1)" by fastforce
  let ?s = "started_session ?u req now"
  note start = svc.start_spec [OF call now, folded started_session_def]
  have h: "run E (endpoint_handler lt V F (NewHandler NewService) EStart ctx) m =
      run E (answer_session F EStart ctx r) m1"
    using req call ok(1) by (cases r) (simp_all add: Handler_Start_def Handler_userID_cases [OF F]
        fasthttp_simps [OF F] NewHandler_def run_bind answer_session_def success_code_def)
  obtain p where r: "r = Inr p"
  proof (cases r)
    case (Inl x)
    with start h run created show thesis
      by (auto simp: answer_session_def writeServiceError_def WriteError_exchange [OF F] error_exchange_def
          NewInternal_def)
  qed (rule that)
  have heap: "heap m1 p = ?s" and eff: "effects (history m1) = effects (history m) @
      [Did_exec (row_args ?s) True]"
    using start r by auto
  have "m' = m1" "ex ctx' = session_exchange 201 ?s (ex ctx)"
    using h run r heap run_write_session [OF F, of E 201 p ctx m1]
    by (auto simp: answer_session_def success_code_def)
  moreover have "valid_time (UpdatedAt ?s)"
    using time now by (auto simp: clock_ok_def started_session_def dest: spec [of _ "world m"])
  moreover obtain data where "marshal_session ?s = Inr data" "unmarshal_session data = Inr (sanitize ?s)"
    using unmarshal_marshal_session [OF calculation(3)] by blast
  ultimately show ?thesis
    using req eff by (auto simp: session_exchange_def BindJSON_Inr valid_requests [OF V])
qed

lemma created_session_is_stored_witness:
  "\<exists>ctx' m' now. run in_memory (endpoint_handler no_text documented_validation plain_http
      (NewHandler NewService) EStart (api_request ''u1'' negative_start)) (boot all_up) = (ctx', m') \<and>
    ex_status ctx' = 201 \<and>
    effects (history m') = [Did_exec (row_args (started_session ''u1''
      \<lparr>sr_TrackID = ''t'', sr_DeviceID = ''d'', sr_Position = -5\<rparr> now)) True]"
proof -
  let ?req = "\<lparr>sr_TrackID = ''t'', sr_DeviceID = ''d'', sr_Position = -5\<rparr> :: StartRequest"
  let ?ctx = "api_request ''u1'' negative_start"
  have bound: "BindJSON no_text documented_validation unmarshal_start StartRequest_fields negative_start
      = Inr ?req"
    by (simp add: BindJSON_Inr unmarshal_negative_start valid_requests [OF documented_validation_laws])
      (simp add: negative_start_def)
  have "session_accepted (started_session ''u1'' ?req t)" for t
    by (simp add: session_accepted_iff started_session_def text_ok_def StatusPlaying_def
        char_count_def byte_def)
  moreover have "up (world (boot all_up))" by (simp add: up_def boot_def all_up_def)
  ultimately obtain m1 where start: "run in_memory (Service_Start NewService ''u1'' ?req) (boot all_up)
      = (Inr 0, m1)"
    using in_memory_start [of "boot all_up" "''u1''" ?req] by (auto simp: boot_def)
  have user: "ex_headers (id ?ctx) ''X-User-ID'' = ''u1''" and body: "ex_body (id ?ctx) = negative_start"
    by (simp_all add: api_request_def fresh_exchange_def)
  have "run in_memory (endpoint_handler no_text documented_validation plain_http
      (NewHandler NewService) EStart ?ctx) (boot all_up) =
      run in_memory (write_session plain_http 201 0 ?ctx) m1"
    using bound start user body
    by (simp add: Handler_Start_def Handler_userID_cases [OF plain_http_laws(1)]
        fasthttp_simps [OF plain_http_laws(1)] NewHandler_def run_bind)
  moreover obtain now w where now: "clock in_memory (world (boot all_up)) = (now, w)" by fastforce
  moreover have "valid_time now" using now by auto
  moreover have "heap m1 0 = started_session ''u1'' ?req now"
    using svc.start_spec [OF start now] by (simp add: started_session_def boot_def)
  moreover obtain data where "marshal_session (started_session ''u1'' ?req now) = Inr data"
    using unmarshal_marshal_session [of "started_session ''u1'' ?req now"] calculation(3)
    by (auto simp: started_session_def)
  ultimately have run: "run in_memory (endpoint_handler no_text documented_validation plain_http
      (NewHandler NewService) EStart ?ctx) (boot all_up) =
      (fst (run in_memory (write_session plain_http 201 0 ?ctx) m1), m1)"
      "ex_status (id (fst (run in_memory (write_session plain_http 201 0 ?ctx) m1))) = 201"
    using run_write_session [OF plain_http_laws(1), of in_memory 201 0 ?ctx m1]
    by (simp_all add: session_exchange_def prod_eq_iff)
  have "clock_ok in_memory" by (simp add: clock_ok_def)
  from created_session_is_stored [OF plain_http_laws(1) documented_validation_laws this run]
    run user body unmarshal_negative_start
  show ?thesis by (auto simp: boot_def)
qed

text \<open>
  An accepted heartbeat is kept: when the endpoint answers 204 the body was a complete
  heartbeat at a position that is not negative, and its session was published, or the
  publication failed and it was written to the database; the response has no body.
\<close>

lemma accepted_heartbeat_is_kept:
  assumes F: "fasthttp_laws ex F" and V: "validation_laws V"
    and run: "run E (endpoint_handler lt V F (NewHandler NewService) EHeartbeat ctx) m = (ctx', m')"
    and status: "ex_status (ex ctx') = 204"
  shows "\<exists>req now msg published. unmarshal_heartbeat (ex_body (ex ctx)) = Inr req \<and>
    hr_TrackID req \<noteq> [] \<and> hr_DeviceID req \<noteq> [] \<and> 0 \<le> sint (hr_Position req) \<and>
    msg_key msg = ex_headers (ex ctx) ''X-User-ID'' \<and>
    effects (history m') = effects (history m) @ Did_write msg published #
      (if published then []
       else [Did_exec (row_args (heartbeat_session (ex_headers (ex ctx) ''X-User-ID'') req now)) True]) \<and>
    ex_response (ex ctx') = ex_response (ex ctx)"
proof -
  let ?u = "ex_headers (ex ctx) ''X-User-ID''"
  obtain now w where now: "clock E (world m) = (now, w)" by fastforce
  have ok: "?u \<noteq> []" "refusal lt V EHeartbeat (ex_body (ex ctx)) = None"
      "ex ctx' = (ex ctx)\<lparr>ex_status := 204\<rparr>"
    using status by (cases rule: endpoint_outcomes [OF F run];
      auto simp: error_exchange_def service_error_def can_be_missing_def)+
  then obtain req where
    req: "BindJSON lt V unmarshal_heartbeat HeartbeatRequest_fields (ex_body (ex ctx)) = Inr req"
    by (auto split: sum.splits)
  obtain r m1 where call: "run E (Service_Heartbeat NewService ?u req) m = (r, m1)" by fastforce
  have "r = None"
  proof (cases r)
    case (Some x)
    with service_errors(3) call obtain a where a: "x = App a" "service_error EHeartbeat a" by blast
    have "(ctx', m') = run E (writeServiceError F (App a) ctx) m1"
      using run call accepted_heartbeat_call [OF F ok(1) req] Some a(1) by (simp add: run_bind)
    then have "ex ctx' = error_exchange a (ex ctx)"
      using run_writeServiceError(1) [OF F, of E a ctx m1] by (metis fst_conv)
    with a(2) status show ?thesis
      by (auto simp: error_exchange_def service_error_def can_be_missing_def)
  qed
  then have m': "m' = m1"
    using run call accepted_heartbeat_call [OF F ok(1) req] by (simp add: run_bind)
  note body = req [unfolded BindJSON_Inr valid_requests [OF V]]
  show ?thesis
  proof (cases rule: svc.heartbeat_spec [OF call now, case_names unencoded published written])
    case unencoded
    with \<open>r = None\<close> show ?thesis by simp
  next
    case (published t v msg)
    with m' body ok(3) show ?thesis by (intro exI [of _ req] exI [of _ msg] exI) auto
  next
    case (written t v msg)
    with m' body ok(3) \<open>r = None\<close> show ?thesis
      by (intro exI [of _ req] exI [of _ now] exI [of _ msg] exI [of _ False]) auto
  qed
qed

definition heartbeat_body :: bytes where
  "heartbeat_body = ''{\"track_id\":\"t\",\"device_id\":\"d\",\"position_sec\":5}''"

lemma unmarshal_heartbeat_body:
  "unmarshal_heartbeat heartbeat_body = Inr \<lparr>hr_TrackID = ''t'', hr_Position = 5, hr_DeviceID = ''d''\<rparr>"
  by code_simp

lemma accepted_heartbeat_is_kept_witness:
  "\<exists>ctx' m' now msg published. run in_memory (endpoint_handler no_text documented_validation plain_http
      (NewHandler NewService) EHeartbeat (api_request ''u1'' heartbeat_body)) (boot all_up) = (ctx', m') \<and>
    ex_status ctx' = 204 \<and> msg_key msg = ''u1'' \<and>
    effects (history m') = Did_write msg published # (if published then []
      else [Did_exec (row_args (heartbeat_session ''u1''
        \<lparr>hr_TrackID = ''t'', hr_Position = 5, hr_DeviceID = ''d''\<rparr> now)) True])"
proof -
  let ?req = "\<lparr>hr_TrackID = ''t'', hr_Position = 5, hr_DeviceID = ''d''\<rparr> :: HeartbeatRequest"
  let ?ctx = "api_request ''u1'' heartbeat_body"
  note decoded = unmarshal_heartbeat_body
  have user: "ex_headers (id ?ctx) ''X-User-ID'' = ''u1''" and body: "ex_body (id ?ctx) = heartbeat_body"
    by (simp_all add: api_request_def fresh_exchange_def)
  have bound: "BindJSON no_text documented_validation unmarshal_heartbeat HeartbeatRequest_fields
      (ex_body (id ?ctx)) = Inr ?req"
    unfolding BindJSON_Inr valid_requests [OF documented_validation_laws] body decoded
    by (simp add: heartbeat_body_def)
  have uid: "ex_headers (id ?ctx) ''X-User-ID'' \<noteq> []"
    by (simp add: api_request_def fresh_exchange_def)
  have up: "sv_redis_up (world (boot all_up))" "\<not> sv_redis_full (world (boot all_up))"
      "sv_kafka_up (world (boot all_up))"
    by (simp_all add: boot_def all_up_def)
  obtain m1 where "run in_memory (Service_Heartbeat NewService ''u1'' ?req) (boot all_up) = (None, m1)"
    using in_memory_heartbeat [OF up] by blast
  then have run: "run in_memory (endpoint_handler no_text documented_validation plain_http
      (NewHandler NewService) EHeartbeat ?ctx) (boot all_up) = (SetStatusCode plain_http 204 ?ctx, m1)"
    using accepted_heartbeat_call [OF plain_http_laws(1) uid bound] user by (simp add: run_bind)
  have status: "ex_status (id (SetStatusCode plain_http 204 ?ctx)) = 204" by (simp add: plain_http_def)
  have empty: "effects (history (boot all_up)) = []" by (simp add: boot_def)
  from accepted_heartbeat_is_kept [OF plain_http_laws(1) documented_validation_laws run status]
  obtain now msg published where "msg_key msg = ''u1''"
    "effects (history m1) = Did_write msg published # (if published then []
      else [Did_exec (row_args (heartbeat_session ''u1'' ?req now)) True])"
    unfolding user body decoded empty by auto
  with run status show ?thesis
    by (intro exI [of _ "SetStatusCode plain_http 204 ?ctx"] exI [of _ m1] exI [of _ now]
        exI [of _ msg] exI [of _ published]) simp
qed

end
