(* ===== verification/Serving.thy ===== *)
theory Serving
  imports Server Api
begin

text \<open>
  What the server promises around the endpoints: the chain of middlewares contains panics and
  accounts for every request, a routed request is answered by its endpoint with its identifier,
  and a stopping server says that it is not ready.
\<close>

text \<open>The documentation of OpenTelemetry: a span that has ended is not recording.\<close>

definition tracer_laws :: "'w env \<Rightarrow> bool" where
  "tracer_laws E \<longleftrightarrow> (\<forall>w. \<not> fst (span_recording E (span_call E SpanEnd w)))"

text \<open>
  C27. Panics are contained, and what they cost: around any handler the chain returns. After a
  return it has logged and counted the request and ended the span; after a panic the response
  is a plain 500 without any of the headers set before, the panic is logged with the path and
  the identifier of the request, and the span is ended but neither marked as failed nor is the
  request logged as completed or counted.
\<close>

theorem panics_are_contained:
  assumes F: "fasthttp_laws ex F" and tracer: "tracer_laws E"
    and run: "run E (chain F h ctx) m = ((r, ctx'), m')"
  shows "r = None \<and> (\<exists>m1 p c m2.
    run E (h (entered F (fst (request_id E F ctx (world m))) ctx)) m1 = ((p, c), m2) \<and>
    (case p of
      None \<Rightarrow> ctx' = c \<and> (\<exists>evs. completed F c evs \<and> history m' = history m2 @ evs)
    | Some rec \<Rightarrow>
        ex_status (ex ctx') = 500 \<and> ex_response (ex ctx') = ''Internal Server Error'' \<and>
        ex_response_headers (ex ctx') = Map.empty \<and>
        history m' = history m2 @ [Did_span SpanEnd, panic_line F rec c]))"
proof -
  obtain rid w where rid: "request_id E F ctx (world m) = (rid, w)" by fastforce
  show ?thesis
  proof (rule run_chain [OF rid, of h])
    fix m1 p c m2 recording
    assume inner: "run E (h (entered F rid ctx)) m1 = ((p, c), m2)"
      and none: "p = None \<Longrightarrow> fst (run E (chain F h ctx) m) = (None, c) \<and>
        (\<exists>evs. completed F c evs \<and> history (snd (run E (chain F h ctx) m)) = history m2 @ evs)"
      and some: "\<And>rec. p = Some rec \<Longrightarrow> fst (run E (chain F h ctx) m) =
          (None, ctx_Error F ''Internal Server Error'' 500 c) \<and>
        history (snd (run E (chain F h ctx) m)) = history m2 @ panic_events F recording rec c \<and>
        (recording \<longrightarrow> fst (span_recording E (span_call E SpanEnd (world m2))))"
    show ?thesis
    proof (cases p)
      case None
      with none run inner rid show ?thesis by (intro conjI exI [of _ m1] exI [of _ p]) auto
    next
      case (Some rec)
      with some [OF Some] run tracer inner rid show ?thesis
        by (intro conjI exI [of _ m1] exI [of _ p])
          (auto simp: tracer_laws_def panic_events_def fasthttp_simps [OF F])
    qed
  qed
qed

definition panicking :: "exchange request_handler" where
  "panicking ctx = Done (Some ''boom'', ctx)"

lemma panics_are_contained_witness:
  "\<exists>ctx' m' evs c. run in_memory (chain plain_http panicking (api_request ''u1'' [])) (boot all_up)
      = ((None, ctx'), m') \<and> ex_status ctx' = 500 \<and> ex_response_headers ctx' = Map.empty \<and>
    history m' = evs @ [Did_span SpanEnd, panic_line plain_http ''boom'' c]"
proof -
  have "tracer_laws in_memory" by (simp add: tracer_laws_def in_memory_def)
  moreover obtain r ctx' m' where run: "run in_memory (chain plain_http panicking (api_request ''u1'' []))
      (boot all_up) = ((r, ctx'), m')" by (metis prod.exhaust)
  ultimately show ?thesis
    using panics_are_contained [OF plain_http_laws(1), of in_memory panicking "api_request ''u1'' []"
        "boot all_up" r ctx' m']
    by (auto simp: panicking_def)
qed


text \<open>A router that goes through the routes in their order, for paths without parameters.\<close>

definition list_router :: "exchange route list \<Rightarrow> exchange request_handler" where
  "list_router rs ctx =
    (case find (\<lambda>r. fst r = ex_method ctx \<and> fst (snd r) = ex_path ctx) rs of
      Some r \<Rightarrow> snd (snd r) ctx
    | None \<Rightarrow> Done (None, ctx\<lparr>ex_status := 404\<rparr>))"

lemma find_route:
  fixes h :: "exchange request_handler"
  assumes "(v, p, h) \<in> set rs" "distinct (map (\<lambda>(verb, path, h). (verb, path)) rs)"
  shows "find (\<lambda>r. fst r = v \<and> fst (snd r) = p) rs = Some (v, p, h)"
  using assms by (induction rs) (auto simp: image_iff split: prod.splits)

lemma list_router_laws: "router_laws id list_router"
  unfolding router_laws_def list_router_def
  by (intro allI impI) (simp add: find_route)

definition served_request :: exchange where
  "served_request = fresh_exchange ''GET'' ''/api/v1/sessions/current''
     (\<lambda>k. if k = ''X-User-ID'' then ''u1'' else if k = ''X-Request-Id'' then ''r7'' else []) []"


text \<open>
  Chaining is composition, first outermost: the loop over the middlewares from the last to
  the first applies them as a fold from the right, and chaining two lists one after the other
  is chaining their concatenation.
\<close>

lemma chain_is_composition:
  "Chain mws next = foldr (\<lambda>mw n. mw n) mws next \<and> Chain (xs @ ys) next = Chain xs (Chain ys next)"
  using Chain_foldr Chain_simps(3) by blast

text \<open>
  A generated identifier has thirty-two characters and tells any two draws of the random
  generator apart.
\<close>

lemma generated_ids_are_faithful:
  assumes "Header_Peek F ctx RequestIDHeader = []" and "\<And>w. length (fst (rand_read E 16 w)) = 16"
  shows "length (fst (request_id E F ctx w)) = 32 \<and>
    (fst (request_id E F ctx w) = fst (request_id E F ctx w') \<longleftrightarrow>
      fst (rand_read E 16 w) = fst (rand_read E 16 w'))"
  using assms by (simp_all add: request_id_def case_prod_unfold length_hex hex_inj)

lemma generated_ids_are_faithful_witness:
  "length (fst (request_id in_memory plain_http (api_request ''u1'' []) all_up)) = 32"
proof -
  have peek: "Header_Peek plain_http (api_request ''u1'' []) RequestIDHeader = []"
    by (simp add: plain_http_def api_request_def fresh_exchange_def RequestIDHeader_def)
  have "length (fst (rand_read in_memory 16 w)) = 16" for w
    by (simp add: in_memory_def)
  from generated_ids_are_faithful [OF peek this, of all_up all_up] show ?thesis by (rule conjunct1)
qed

text \<open>
  A stopping server is not ready: the stop hook clears the flag before it waits for the
  shutdown, so whichever way the wait ends the readiness endpoint answers 503 from then on,
  while it answered 200 from the start.
\<close>

lemma stopping_is_not_ready:
  assumes F: "fasthttp_laws ex F"
  shows "ex_status (ex (Readyz F (snd (server_OnStop s h)) ctx)) = 503 \<and>
    ex_status (ex (Readyz F New_Infra ctx)) = 200 \<and>
    (fst (server_OnStop s h) = None \<longleftrightarrow> s = ShutdownReturned None)"
  by (auto simp: Readyz_def server_OnStop_def New_Infra_def SetReady_def Let_def
      WriteJSON_exchange [OF F] split: shutdown.split)

lemma stopping_is_not_ready_witness:
  "ex_status (Readyz plain_http (snd (server_OnStop (StopInterrupted (Opaque ''deadline'')) New_Infra))
    (api_request [] [])) = 503"
  using stopping_is_not_ready [OF plain_http_laws(2)] by blast

end
