(* ===== verification/Http_Pool.thy ===== *)
theory Http_Pool
  imports Isolation Serving
begin

text \<open>
  The whole server at once: HTTP requests for the endpoints go through the router and the
  chain of middlewares, any number of them beside each other, beside consumers of the topic
  and beside the goroutines that warm the cache. What a request is answered with is a promise
  about the database and the topic.
\<close>

subsection \<open>The threads of the server\<close>

datatype 'c job =
    Serves endpoint 'c
  | Consumes nat ConsumerConfig
  | Warms closure

fun job_program :: "'c request_handler \<Rightarrow> 'c job \<Rightarrow> 'c option prog" where
  "job_program H (Serves e ctx) = bind (H ctx) (\<lambda>(panic, ctx'). Done (Some ctx'))"
| "job_program H (Consumes n cfg) =
    bind (consumer_goroutine n (NewHeartbeatConsumer cfg)) (\<lambda>_. Done None)"
| "job_program H (Warms g) = bind (run_closure g) (\<lambda>_. Done None)"

text \<open>A request is labelled with the endpoint that its method and path name.\<close>

definition server_pool :: "('c \<Rightarrow> exchange) \<Rightarrow> 'c request_handler \<Rightarrow> ('c job, 'c option) pool" where
  "server_pool ex H = \<lparr>
     arrives = (\<lambda>j. case j of
        Serves e ctx \<Rightarrow> endpoint_route e = (ex_method (ex ctx), ex_path (ex ctx))
      | Consumes n cfg \<Rightarrow> True
      | Warms g \<Rightarrow> False),
     program = job_program H, goroutine = Warms\<rparr>"

lemma server_pool_simps [simp]:
  "arrives (server_pool ex H) (Serves e ctx) \<longleftrightarrow>
    endpoint_route e = (ex_method (ex ctx), ex_path (ex ctx))"
  "arrives (server_pool ex H) (Consumes n cfg)" "\<not> arrives (server_pool ex H) (Warms g)"
  "program (server_pool ex H) = job_program H" "goroutine (server_pool ex H) = Warms"
  by (simp_all add: server_pool_def)

subsection \<open>What an answer promises\<close>

text \<open>The sessions that a request of the user \<open>u\<close> may be answered with.\<close>

fun asked ::
  "(sentinel + json_error \<Rightarrow> string) \<Rightarrow> validation \<Rightarrow> endpoint \<Rightarrow> string \<Rightarrow> bytes \<Rightarrow> PlaybackSession \<Rightarrow> bool"
where
  "asked lt V EStart u body s \<longleftrightarrow>
    (\<exists>req now. BindJSON lt V unmarshal_start StartRequest_fields body = Inr req \<and>
      s = started_session u req now)"
| "asked lt V EGetCurrent u body s \<longleftrightarrow> for_user u (UserID s)"
| "asked lt V EHeartbeat u body s \<longleftrightarrow> False"
| "asked lt V EPause u body s \<longleftrightarrow>
    (\<exists>req. BindJSON lt V unmarshal_pause_resume PauseResumeRequest_fields body = Inr req \<and>
      for_user u (UserID s) \<and> Status s = StatusPaused \<and> DeviceID s = pr_DeviceID req)"
| "asked lt V EResume u body s \<longleftrightarrow>
    (\<exists>req. BindJSON lt V unmarshal_pause_resume PauseResumeRequest_fields body = Inr req \<and>
      for_user u (UserID s) \<and> Status s = StatusPlaying \<and> DeviceID s = pr_DeviceID req)"

text \<open>
  The request \<open>x\<close> was answered with \<open>y\<close>, given the calls that have been made: with an error
  status, or with the status of success, the encoding of a session that was asked for and, if
  it was to be changed, written to the database; a heartbeat was published or written.
\<close>

definition promise_kept ::
  "(sentinel + json_error \<Rightarrow> string) \<Rightarrow> validation \<Rightarrow> endpoint \<Rightarrow> exchange \<Rightarrow> exchange \<Rightarrow> event set \<Rightarrow> bool"
where
  "promise_kept lt V e x y evs \<longleftrightarrow> 400 \<le> ex_status y \<or>
    ex_status y = success_code e \<and>
    (let u = ex_headers x ''X-User-ID'' in
     if e = EHeartbeat
     then \<exists>req. BindJSON lt V unmarshal_heartbeat HeartbeatRequest_fields (ex_body x) = Inr req \<and>
       delivered u req evs
     else \<exists>s data. marshal_session s = Inr data \<and>
       ex_response y = ex_response x @ data @ [newline] \<and> asked lt V e u (ex_body x) s \<and>
       (e \<noteq> EGetCurrent \<longrightarrow> Did_exec (row_args s) True \<in> evs))"

lemma promise_kept_mono: "promise_kept lt V e x y evs \<Longrightarrow> evs \<subseteq> evs' \<Longrightarrow> promise_kept lt V e x y evs'"
  unfolding promise_kept_def Let_def using delivered_mono by (auto split: if_splits)

lemma promise_kept_error:
  assumes "fasthttp_laws ex F" "400 \<le> HTTPStatus a"
  shows "promise_kept lt V e x (ex (WriteError F a ctx)) evs"
  using assms by (simp add: promise_kept_def WriteError_exchange error_exchange_def)

lemma disciplined_refused:
  assumes "fasthttp_laws ex F" "400 \<le> HTTPStatus a"
  shows "disciplined W (\<lambda>c K. promise_kept lt V e x (ex c) (did K)) (Done (WriteError F a ctx)) K"
  using promise_kept_error [OF assms] by simp

lemma disciplined_writeServiceError:
  assumes "fasthttp_laws ex F" "failure err"
  shows "disciplined W (\<lambda>c K. promise_kept lt V e x (ex c) (did K)) (writeServiceError F err ctx) K"
  using assms by (auto simp: writeServiceError_def failure_def intro: promise_kept_error)

lemma disciplined_write_session:
  assumes F: "fasthttp_laws ex F" and e: "e \<noteq> EHeartbeat" "code = success_code e"
    and p: "owned K p = Some s" "asked lt V e (ex_headers (ex ctx) ''X-User-ID'') (ex_body (ex ctx)) s"
      "e \<noteq> EGetCurrent \<Longrightarrow> Did_exec (row_args s) True \<in> did K"
  shows "disciplined W (\<lambda>c K. promise_kept lt V e (ex ctx) (ex c) (did K))
    (write_session F code p ctx) K"
  using p e
  by (auto simp: write_session_def readable_def reads_def promise_kept_def Let_def
      WriteJSON_exchange [OF F] split: sum.split)

text \<open>One call of the service, then the answer.\<close>

lemma disciplined_changed:
  assumes F: "fasthttp_laws ex F" and e: "e \<notin> {EHeartbeat, EGetCurrent}" "code = success_code e"
    and call: "disciplined W (wrote P) call K"
    and P: "\<And>s. P s \<Longrightarrow> asked lt V e (ex_headers (ex ctx) ''X-User-ID'') (ex_body (ex ctx)) s"
  shows "disciplined W (\<lambda>c K. promise_kept lt V e (ex ctx) (ex c) (did K))
    (bind call (\<lambda>r. case r of Inl err \<Rightarrow> writeServiceError F err ctx
      | Inr sess \<Rightarrow> write_session F code sess ctx)) K"
proof (rule disciplined_bindI [OF call])
  fix r L
  assume r: "wrote P r L"
  show "disciplined W (\<lambda>c K. promise_kept lt V e (ex ctx) (ex c) (did K))
      (case r of Inl err \<Rightarrow> writeServiceError F err ctx | Inr sess \<Rightarrow> write_session F code sess ctx) L"
  proof (cases r)
    case (Inl err)
    with r show ?thesis by (simp add: wrote_def disciplined_writeServiceError [OF F])
  next
    case (Inr p)
    with r obtain s where s: "owned L p = Some s" "P s" "Did_exec (row_args s) True \<in> did L"
      by (auto simp: wrote_def)
    with e P [OF s(2)] Inr show ?thesis by (simp add: disciplined_write_session [OF F _ _ s(1)])
  qed
qed

lemma promise_kept_heartbeat:
  assumes "BindJSON lt V unmarshal_heartbeat HeartbeatRequest_fields (ex_body x) = Inr req"
    and "delivered (ex_headers x ''X-User-ID'') req evs" "ex_status y = 204"
  shows "promise_kept lt V EHeartbeat x y evs"
  using assms by (simp add: promise_kept_def success_code_def)

lemma disciplined_endpoint:
  assumes F: "fasthttp_laws ex F" and W: "own_users (ex_headers (ex ctx) ''X-User-ID'') \<subseteq> W"
  shows "disciplined W (\<lambda>c K. promise_kept lt V e (ex ctx) (ex c) (did K))
    (endpoint_handler lt V F (NewHandler NewService) e ctx) K"
proof -
  let ?u = "ex_headers (ex ctx) ''X-User-ID''"
  let ?Q = "\<lambda>c K. promise_kept lt V e (ex ctx) (ex c) (did K)"
  consider (none) "?u = []" | (refused) a where "?u \<noteq> []" "refusal lt V e (ex_body (ex ctx)) = Some a"
    | (accepted) "?u \<noteq> []" "refusal lt V e (ex_body (ex ctx)) = None" by (cases "?u = []") auto
  then show ?thesis
  proof cases
    case none
    then show ?thesis
      using promise_kept_error [OF F] endpoint_unauthorized [OF F] by (simp add: NewUnauthorized_def)
  next
    case refused
    then show ?thesis
      using endpoint_refused [OF F refused] refusal_validation [OF refused(2)] promise_kept_error [OF F]
      by (auto simp: NewValidation_def)
  next
    case accepted
    note defs = handler_defs Handler_userID_cases [OF F] fasthttp_simps [OF F] NewHandler_def
    show ?thesis
    proof (cases e)
      case EStart
      with accepted obtain req where
        "BindJSON lt V unmarshal_start StartRequest_fields (ex_body (ex ctx)) = Inr req"
        by (auto split: sum.splits)
      with EStart accepted show ?thesis
        by (auto simp: defs intro!: disciplined_changed [OF F _ _ disciplined_Start [OF W]]
            simp: success_code_def)
    next
      case EPause
      with accepted obtain req where
        "BindJSON lt V unmarshal_pause_resume PauseResumeRequest_fields (ex_body (ex ctx)) = Inr req"
        by (auto split: sum.splits)
      with EPause accepted show ?thesis
        by (auto simp: defs set_status_instances success_code_def
            intro!: disciplined_changed [OF F _ _ disciplined_set_status [OF W]])
    next
      case EResume
      with accepted obtain req where
        "BindJSON lt V unmarshal_pause_resume PauseResumeRequest_fields (ex_body (ex ctx)) = Inr req"
        by (auto split: sum.splits)
      with EResume accepted show ?thesis
        by (auto simp: defs set_status_instances success_code_def
            intro!: disciplined_changed [OF F _ _ disciplined_set_status [OF W]])
    next
      case EGetCurrent
      have "disciplined W ?Q (bind (Get ?u) (\<lambda>r. case r of Inl err \<Rightarrow> writeServiceError F err ctx
          | Inr sess \<Rightarrow> write_session F 200 sess ctx)) K"
        using EGetCurrent
        by (intro disciplined_bindI [OF disciplined_Get [OF W]])
          (auto simp: got_def success_code_def intro!: disciplined_writeServiceError [OF F]
            disciplined_write_session [OF F] split: sum.splits)
      with EGetCurrent accepted show ?thesis by (simp add: defs Service_GetCurrent_def)
    next
      case EHeartbeat
      with accepted obtain req where
        req: "BindJSON lt V unmarshal_heartbeat HeartbeatRequest_fields (ex_body (ex ctx)) = Inr req"
        by (auto split: sum.splits)
      have "disciplined W ?Q (bind (Service_Heartbeat NewService ?u req) (\<lambda>r. case r of
          Some err \<Rightarrow> writeServiceError F err ctx | None \<Rightarrow> Done (SetStatusCode F 204 ctx))) K"
        using EHeartbeat req
        by (intro disciplined_bindI [OF disciplined_Heartbeat [OF W]])
          (auto simp: answered_def fasthttp_simps [OF F] intro!: disciplined_writeServiceError [OF F]
            promise_kept_heartbeat [OF req] split: option.splits)
      with EHeartbeat accepted req show ?thesis by (simp add: defs)
    qed
  qed
qed

subsection \<open>The chain is disciplined\<close>

text \<open>A request handler that returns, with a result as \<open>Q\<close> says.\<close>

definition returns :: "('c \<Rightarrow> knowledge \<Rightarrow> bool) \<Rightarrow> bytes option \<times> 'c \<Rightarrow> knowledge \<Rightarrow> bool" where
  "returns Q = (\<lambda>(panic, c) K. panic = None \<and> Q c K)"

lemma returnsI: "Q c K \<Longrightarrow> returns Q (None, c) K"
  by (simp add: returns_def)

lemma disciplined_around:
  assumes "disciplined W (returns Q) p K" "\<And>c L. Q c L \<Longrightarrow> disciplined W (returns Q) (f (None, c)) L"
  shows "disciplined W (returns Q) (bind p f) K"
  by (rule disciplined_bindI [OF assms(1)]) (auto simp: returns_def intro: assms(2) [unfolded returns_def])

lemma disciplined_quiet: "disciplined W Q (h ctx) K \<Longrightarrow> disciplined W (returns Q) (quiet h ctx) K"
  by (auto simp: quiet_def returns_def intro: disciplined_bindI)

lemma disciplined_chain:
  assumes "\<And>rid. disciplined W (returns Q) (h (entered F rid ctx)) K"
  shows "disciplined W (returns Q) (chain F h ctx) K"
proof -
  have around: "disciplined W (returns Q) (Tracing F (Metrics F (Logger F h)) c) K"
    if "disciplined W (returns Q) (h (SetUserValue F otelCtxKey USpanContext c)) K" for c
    using that
    by (auto simp: Tracing_def Metrics_def Logger_def Let_def intro!: disciplined_around returnsI
        split: option.split)
  then have "disciplined W (returns Q) (RequestID F (Tracing F (Metrics F (Logger F h))) ctx) K"
    using assms by (simp add: RequestID_def generateID_def Let_def entered_def)
  then show ?thesis
    unfolding chain_def Chain_simps Recoverer_def by (auto intro!: disciplined_around returnsI)
qed

lemma promise_kept_cong:
  assumes "ex_headers x = ex_headers x'" "ex_body x = ex_body x'" "ex_response x = ex_response x'"
  shows "promise_kept lt V e x y evs \<longleftrightarrow> promise_kept lt V e x' y evs"
  by (simp add: promise_kept_def assms)

lemma disciplined_server:
  assumes F: "fasthttp_laws ex F" and R: "router_laws ex R"
    and route: "endpoint_route e = (ex_method (ex ctx), ex_path (ex ctx))"
    and W: "own_users (ex_headers (ex ctx) ''X-User-ID'') \<subseteq> W"
  shows "disciplined W (returns (\<lambda>c K. promise_kept lt V e (ex ctx) (ex c) (did K)))
    (server_handler R lt V F promhttp swagger h (NewHandler NewService) ctx) K"
  unfolding server_handler_def
proof (rule disciplined_chain)
  fix rid
  let ?c = "SetUserValue F RoutePatternKey (UString (snd (endpoint_route e))) (entered F rid ctx)"
  have c: "ex_headers (ex ?c) = ex_headers (ex ctx)" "ex_body (ex ?c) = ex_body (ex ctx)"
      "ex_response (ex ?c) = ex_response (ex ctx)"
    by (simp_all add: entered_def fasthttp_simps [OF F])
  with promise_kept_cong [OF c] disciplined_endpoint [OF F, of ?c W lt V e K] W c(1)
  have "disciplined W (returns (\<lambda>c K. promise_kept lt V e (ex ctx) (ex c) (did K)))
      (quiet (endpoint_handler lt V F (NewHandler NewService) e) ?c) K"
    by (intro disciplined_quiet) simp
  moreover have "endpoint_route e = (ex_method (ex (entered F rid ctx)), ex_path (ex (entered F rid ctx)))"
    using route by (simp add: entered_def fasthttp_simps [OF F])
  ultimately show "disciplined W (returns (\<lambda>c K. promise_kept lt V e (ex ctx) (ex c) (did K)))
      (R (routes lt V F promhttp swagger h (NewHandler NewService)) (entered F rid ctx)) K"
    by (simp add: routed_endpoint [OF R] withRoute_def)
qed

subsection \<open>The pool of the server keeps to the discipline\<close>

text \<open>The users a job writes for, and what it has done when it ends.\<close>

fun job_writes :: "('c \<Rightarrow> exchange) \<Rightarrow> 'c job \<Rightarrow> string set" where
  "job_writes ex (Serves e ctx) = own_users (ex_headers (ex ctx) ''X-User-ID'')"
| "job_writes ex (Consumes n cfg) = UNIV"
| "job_writes ex (Warms g) = {}"

fun job_ok ::
  "(sentinel + json_error \<Rightarrow> string) \<Rightarrow> validation \<Rightarrow> ('c \<Rightarrow> exchange) \<Rightarrow> 'c job \<Rightarrow> 'c option \<Rightarrow> knowledge \<Rightarrow> bool"
where
  "job_ok lt V ex (Serves e ctx) (Some ctx') K = promise_kept lt V e (ex ctx) (ex ctx') (did K)"
| "job_ok lt V ex (Serves e ctx) None K = False"
| "job_ok lt V ex _ _ K = True"

lemma guarded_server:
  assumes F: "fasthttp_laws ex F" and R: "router_laws ex R"
  shows "guarded_pool (server_pool ex (server_handler R lt V F promhttp swagger h (NewHandler NewService)))
    (job_writes ex) (job_ok lt V ex)" (is "guarded_pool (server_pool ex ?H) _ _")
proof
  fix j W K
  assume j: "arrives (server_pool ex ?H) j" "job_writes ex j \<subseteq> W"
  show "disciplined W (job_ok lt V ex j) (program (server_pool ex ?H) j) K"
  proof (cases j)
    case (Serves e ctx)
    with j have "disciplined W (returns (\<lambda>c K. promise_kept lt V e (ex ctx) (ex c) (did K))) (?H ctx) K"
      by (intro disciplined_server [OF F R]) simp_all
    with Serves show ?thesis
      by (auto simp: returns_def intro!: disciplined_bindI)
  next
    case (Consumes n cfg)
    with j have "W = UNIV" by auto
    with Consumes show ?thesis
      by (auto intro!: disciplined_bindI [OF disciplined_consumer])
  qed (use j in simp)
next
  fix K :: knowledge and a v W g u
  assume "users K a = Some v" "owned K a = None" "v \<in> W" "g = WarmCache a u"
  then show "disciplined W (job_ok lt V ex (goroutine (server_pool ex ?H) g))
      (program (server_pool ex ?H) (goroutine (server_pool ex ?H) g)) K"
    by (auto simp: disciplined_bind readable_def reads_def intro!: disciplined_SetCache)
qed

text \<open>
  C1. The server keeps its promises, whatever runs at the same time: in every state that any
  interleaving of requests, consumers and warming goroutines can reach, a request for an
  endpoint that has been answered was answered with an error status, or with the one status
  of success of its endpoint. Then the body is the encoding of a session of the requesting
  user with the content that the request asked for, and for a start, a pause or a resume the
  database has executed the upsert of exactly that session; an acknowledged heartbeat was
  published under the user's key or written to the database.
\<close>

theorem promises_are_kept:
  assumes F: "fasthttp_laws ex F" and R: "router_laws ex R"
    and laws: "postgres_laws pg tab E" "redis_laws kv E"
    and start: "table_ok (tab (world m))" "cache_ok (kv (world m))" "spawned m = []"
    and run: "(steps (server_pool ex (server_handler R lt V F promhttp swagger h (NewHandler NewService))) E)^**
      ([], m) (ts, m')"
    and answered: "(Serves e ctx, Done r) \<in> set ts"
  shows "\<exists>ctx'. r = Some ctx' \<and> promise_kept lt V e (ex ctx) (ex ctx') (set (history m'))"
proof -
  obtain K where K: "known m' K" "job_ok lt V ex (Serves e ctx) r K"
    using guarded_pool.reached(4) [OF guarded_server [OF F R], where W = UNIV, OF laws start run _ answered] by auto
  then show ?thesis by (cases r) (auto simp: known_def intro: promise_kept_mono)
qed

text \<open>A server of which everything that is an argument is concrete.\<close>

abbreviation plain_server :: "exchange request_handler" where
  "plain_server \<equiv> server_handler list_router no_text documented_validation plain_http
     panicking panicking New_Infra (NewHandler NewService)"

lemma served_alone:
  assumes "endpoint_route e = (ex_method x, ex_path x)"
  shows "\<exists>r m'. (steps (server_pool id plain_server) in_memory)^** ([], m) ([(Serves e x, Done r)], m')"
proof -
  obtain r m' where "run in_memory (job_program plain_server (Serves e x)) m = (r, m')" by fastforce
  with assms have "(steps (server_pool id plain_server) in_memory)^** ([], m) ([(Serves e x, Done r)], m')"
    by (intro reach_alone) simp_all
  then show ?thesis by blast
qed

lemma served_route: "endpoint_route EGetCurrent = (ex_method served_request, ex_path served_request)"
  by (simp add: served_request_def fresh_exchange_def)

lemma promises_are_kept_witness:
  "\<exists>x m'. (steps (server_pool id plain_server) in_memory)^** ([], boot (with_session lone_session))
      ([(Serves EGetCurrent served_request, Done (Some x))], m') \<and>
    promise_kept no_text documented_validation EGetCurrent served_request x (set (history m'))"
proof -
  obtain r m' where run: "(steps (server_pool id plain_server) in_memory)^**
      ([], boot (with_session lone_session)) ([(Serves EGetCurrent served_request, Done r)], m')"
    using served_alone [OF served_route] by blast
  from promises_are_kept [OF plain_http_laws(1) list_router_laws in_memory_postgres in_memory_redis
      lone_stores run] run
  show ?thesis by auto
qed

text \<open>
  C6. Requests of other users do not touch a user's session: as long as no request carries
  the user's name in its header (nor one whose bytes become that name when they are made
  UTF-8) and no consumer runs, the user's row stays as it is and the cache entry is the old
  one or gone, whatever the other requests of the server and their goroutines do and whatever
  the services answer.
\<close>

theorem users_are_separate:
  assumes F: "fasthttp_laws ex F" and R: "router_laws ex R"
    and laws: "postgres_laws pg tab E" "redis_laws kv E"
    and start: "table_ok (tab (world m))" "cache_ok (kv (world m))" "spawned m = []"
    and run: "(steps (server_pool ex (server_handler R lt V F promhttp swagger h (NewHandler NewService))) E)^**
      ([], m) (ts, m')"
    and others: "\<forall>j \<in> fst ` set ts. case j of
        Serves e ctx \<Rightarrow> u \<noteq> ex_headers (ex ctx) ''X-User-ID'' \<and> u \<noteq> utf8_fix (ex_headers (ex ctx) ''X-User-ID'')
      | Consumes n cfg \<Rightarrow> False
      | Warms g \<Rightarrow> True"
  shows "tab (world m') u = tab (world m) u \<and>
    kv (world m') (cache_key u) \<in> {None, kv (world m) (cache_key u)}"
proof -
  have "job_writes ex j \<subseteq> - {u}" if "j \<in> fst ` set ts" for j
    using bspec [OF others that] by (cases j) (auto simp: own_users_def)
  then have "spares (- {u}) tab kv (world m) (world m')"
    using guarded_pool.reached(3) [OF guarded_server [OF F R] laws start run] by blast
  then show ?thesis by (simp add: spares_def)
qed

definition other_request :: exchange where
  "other_request = fresh_exchange ''POST'' ''/api/v1/sessions''
     (\<lambda>k. if k = ''X-User-ID'' then ''u2'' else []) negative_start"

lemma users_are_separate_witness:
  "\<exists>r m'. (steps (server_pool id plain_server) in_memory)^** ([], boot (with_session lone_session))
      ([(Serves EStart other_request, Done r)], m') \<and>
    sessions (sv_table (world m')) ''u1'' = Some lone_session"
proof -
  have "endpoint_route EStart = (ex_method other_request, ex_path other_request)"
    by (simp add: other_request_def fresh_exchange_def)
  from served_alone [OF this] obtain r m' where run: "(steps (server_pool id plain_server) in_memory)^**
      ([], boot (with_session lone_session)) ([(Serves EStart other_request, Done r)], m')" by blast
  have "utf8_fix ''u2'' = ''u2''" by (simp add: byte_def)
  then have "sv_table (world m') ''u1'' = sv_table (world (boot (with_session lone_session))) ''u1''"
    using users_are_separate [OF plain_http_laws(1) list_router_laws in_memory_postgres in_memory_redis
        lone_stores run, of "''u1''"] by (simp add: other_request_def fresh_exchange_def)
  then have "sessions (sv_table (world m')) ''u1'' = sessions (sv_table (world (boot (with_session lone_session)))) ''u1''"
    by (simp only: sessions_def select_row_def)
  also have "... = Some lone_session" by (simp add: lone_session_def)
  finally show ?thesis using run by blast
qed

subsection \<open>Every request is answered\<close>

fun endpoint_budget :: "endpoint \<Rightarrow> nat" where
  "endpoint_budget EStart = 9"
| "endpoint_budget EGetCurrent = 6"
| "endpoint_budget EHeartbeat = 14"
| "endpoint_budget EPause = 19"
| "endpoint_budget EResume = 19"

lemma ends_in_write_session: "ends_in (write_session F code p ctx) (Suc 0)"
  by (simp add: write_session_def)

lemma ends_in_writeServiceError: "ends_in (writeServiceError F err ctx) (Suc 0)"
  by (simp add: writeServiceError_def split: option.split)

lemma ends_in_endpoint: "ends_in (endpoint_handler lt V F (NewHandler NewService) e ctx) (endpoint_budget e)"
proof -
  have answer: "ends_in (bind p (\<lambda>r. case r of Inl err \<Rightarrow> writeServiceError F err ctx
      | Inr sess \<Rightarrow> write_session F code sess ctx)) (Suc n)" if "ends_in p n" for p n code
    by (rule ends_in_bindI [OF that])
      (auto simp: ends_in_write_session ends_in_writeServiceError split: sum.split)
  have "ends_in (bind p (\<lambda>r. case r of Some err \<Rightarrow> writeServiceError F err ctx
      | None \<Rightarrow> Done (SetStatusCode F 204 ctx))) (Suc n)" if "ends_in p n" for p n
    by (rule ends_in_bindI [OF that]) (auto simp: ends_in_writeServiceError split: option.split)
  note answers = this [OF ends_in_Heartbeat] answer [OF ends_in_Start] answer [OF ends_in_Get]
    answer [OF ends_in_set_status]
  show ?thesis
    by (cases e) (use answers in \<open>auto simp: handler_defs NewHandler_def Service_GetCurrent_def
      set_status_instances split: sum.split\<close>)
qed

lemma ends_in_chain:
  assumes h: "\<And>rid. ends_in (h (entered F rid ctx)) n"
  shows "ends_in (chain F h ctx) (17 + n)"
proof -
  have logger: "ends_in (Logger F h c) (4 + n)" if "ends_in (h c) n" for c
    by (auto simp: Logger_def Let_def intro!: ends_in_bindI [OF that] split: option.split)
  have metrics: "ends_in (Metrics F (Logger F h) c) (8 + n)" if "ends_in (h c) n" for c
    by (auto simp: Metrics_def Let_def intro!: ends_in_bindI [OF logger [OF that]] split: option.split)
  have tracing: "ends_in (Tracing F (Metrics F (Logger F h)) c) (13 + n)"
    if "ends_in (h (SetUserValue F otelCtxKey USpanContext c)) n" for c
    by (auto simp: Tracing_def intro!: ends_in_bindI [OF metrics [OF that]] split: option.split)
  have "ends_in (RequestID F (Tracing F (Metrics F (Logger F h))) ctx) (14 + n)"
    using tracing h ends_in_mono [OF tracing, of _ "14 + n"]
    by (auto simp: RequestID_def generateID_def Let_def entered_def)
  then show ?thesis
    by (auto simp: chain_def Recoverer_def Let_def intro!: ends_in_bindI split: option.split)
qed

lemma ends_in_server:
  assumes F: "fasthttp_laws ex F" and R: "router_laws ex R"
    and route: "endpoint_route e = (ex_method (ex ctx), ex_path (ex ctx))"
  shows "ends_in (server_handler R lt V F promhttp swagger h (NewHandler NewService) ctx) (17 + endpoint_budget e)"
  unfolding server_handler_def
proof (rule ends_in_chain)
  fix rid
  let ?c = "SetUserValue F RoutePatternKey (UString (snd (endpoint_route e))) (entered F rid ctx)"
  have "endpoint_route e = (ex_method (ex (entered F rid ctx)), ex_path (ex (entered F rid ctx)))"
    using route by (simp add: entered_def fasthttp_simps [OF F])
  moreover have "ends_in (quiet (endpoint_handler lt V F (NewHandler NewService) e) ?c) (endpoint_budget e)"
    unfolding quiet_def by (rule ends_in_bindI [OF ends_in_endpoint]) auto
  ultimately show "ends_in (R (routes lt V F promhttp swagger h (NewHandler NewService)) (entered F rid ctx))
      (endpoint_budget e)"
    by (simp add: routed_endpoint [OF R] withRoute_def)
qed

text \<open>
  C10. Every request is answered, whatever the schedule and whatever the services answer: a
  request for an endpoint that has had its number of turns (the seventeen of the middlewares and
  nine for a start, six for a read, fourteen for a heartbeat, nineteen for a pause or a
  resume) is done with a response, no matter what runs in between.
\<close>

theorem served_requests_end:
  assumes "fasthttp_laws ex F" and "router_laws ex R"
    and "i < length ts"
    and "ts ! i = (Serves e ctx,
      program (server_pool ex (server_handler R lt V F promhttp swagger h (NewHandler NewService))) (Serves e ctx))"
    and "endpoint_route e = (ex_method (ex ctx), ex_path (ex ctx))"
    and "17 + endpoint_budget e \<le> count_list cs (Turn i)"
  shows "\<exists>r. fst (play (server_pool ex (server_handler R lt V F promhttp swagger h (NewHandler NewService)))
    E cs (ts, m)) ! i = (Serves e ctx, Done r)"
proof (rule play_finishes [OF assms(3,4) _ assms(6)])
  show "ends_in (program (server_pool ex (server_handler R lt V F promhttp swagger h (NewHandler NewService)))
      (Serves e ctx)) (17 + endpoint_budget e)"
    unfolding server_pool_simps job_program.simps
    by (rule ends_in_bindI [OF ends_in_server [OF assms(1,2,5)] order_refl]) (simp add: split_def)
qed

lemma served_requests_end_witness:
  "\<exists>r. fst (play (server_pool id plain_server) in_memory
      (concat (replicate 23 [Turn 0, Arrive (Serves EStart other_request), Spawn, Turn 1]))
      ([(Serves EGetCurrent served_request,
         program (server_pool id plain_server) (Serves EGetCurrent served_request))], boot all_up)) ! 0
    = (Serves EGetCurrent served_request, Done r)"
  by (rule served_requests_end [OF plain_http_laws(1) list_router_laws])
    (simp_all add: numeral_eq_Suc served_request_def fresh_exchange_def del: job_program.simps)

end
