(* ===== verification/Web_Register.thy ===== *)
theory Web_Register
  imports Register Http_Pool
begin

text \<open>
  The refinement of \<open>Register\<close> carried through the whole server: a sequence of HTTP requests that
  come with a route of an endpoint, whatever their headers and bodies are, is answered through
  the chain of middlewares, the router, the decoding and the service with the status and the
  body that the register implies.
\<close>

subsection \<open>The register behind HTTP\<close>

text \<open>What a request with a user asks of the service, or why it is refused.\<close>

fun request_task ::
  "(sentinel + json_error \<Rightarrow> string) \<Rightarrow> validation \<Rightarrow> endpoint \<Rightarrow> string \<Rightarrow> bytes \<Rightarrow> app_error + task" where
  "request_task lt V EStart u body =
    (case BindJSON lt V unmarshal_start StartRequest_fields body of
      Inl a \<Rightarrow> Inl a | Inr req \<Rightarrow> Inr (TStart u req))"
| "request_task lt V EGetCurrent u body = Inr (TCurrent u)"
| "request_task lt V EHeartbeat u body =
    (case BindJSON lt V unmarshal_heartbeat HeartbeatRequest_fields body of
      Inl a \<Rightarrow> Inl a | Inr req \<Rightarrow> Inr (THeartbeat u req))"
| "request_task lt V EPause u body =
    (case BindJSON lt V unmarshal_pause_resume PauseResumeRequest_fields body of
      Inl a \<Rightarrow> Inl a | Inr req \<Rightarrow> Inr (TPause u (pr_DeviceID req)))"
| "request_task lt V EResume u body =
    (case BindJSON lt V unmarshal_pause_resume PauseResumeRequest_fields body of
      Inl a \<Rightarrow> Inl a | Inr req \<Rightarrow> Inr (TResume u (pr_DeviceID req)))"

definition web_task ::
  "(sentinel + json_error \<Rightarrow> string) \<Rightarrow> validation \<Rightarrow> endpoint \<Rightarrow> exchange \<Rightarrow> app_error + task" where
  "web_task lt V e x =
    (if ex_headers x ''X-User-ID'' = [] then Inl (NewUnauthorized ''X-User-ID header is required'')
     else request_task lt V e (ex_headers x ''X-User-ID'') (ex_body x))"

text \<open>The status and the body of an answer.\<close>

definition outcome_of :: "exchange \<Rightarrow> int \<times> bytes" where
  "outcome_of x = (ex_status x, ex_response x)"

fun answered_with :: "endpoint \<Rightarrow> reply \<Rightarrow> exchange \<Rightarrow> exchange" where
  "answered_with e (Held s) x = session_exchange (success_code e) s x"
| "answered_with e NoSession x = error_exchange (NewNotFound ''playback session not found'') x"
| "answered_with e Accepted x = x\<lparr>ex_status := success_code e\<rparr>"

definition web_register ::
  "(sentinel + json_error \<Rightarrow> string) \<Rightarrow> validation \<Rightarrow> endpoint \<Rightarrow> exchange \<Rightarrow> go_time \<Rightarrow>
   (string \<rightharpoonup> PlaybackSession) \<Rightarrow> (int \<times> bytes) \<times> (string \<rightharpoonup> PlaybackSession)" where
  "web_register lt V e x now M =
    (case web_task lt V e x of
      Inl a \<Rightarrow> (outcome_of (error_exchange a x), M)
    | Inr t \<Rightarrow> (case register t now M of (r, M') \<Rightarrow> (outcome_of (answered_with e r x), M')))"

fun web_register_all ::
  "(sentinel + json_error \<Rightarrow> string) \<Rightarrow> validation \<Rightarrow> ((endpoint \<times> exchange) \<times> go_time) list \<Rightarrow>
   (string \<rightharpoonup> PlaybackSession) \<Rightarrow> (int \<times> bytes) list \<times> (string \<rightharpoonup> PlaybackSession)" where
  "web_register_all lt V [] M = ([], M)"
| "web_register_all lt V (((e, x), now) # xs) M =
    (case web_register lt V e x now M of (r, M1) \<Rightarrow>
     case web_register_all lt V xs M1 of (rs, M') \<Rightarrow> (r # rs, M'))"

text \<open>The server, one request after the other, each with the goroutines that it has started.\<close>

fun serve_web :: "'w env \<Rightarrow> 'c request_handler \<Rightarrow> 'c list \<Rightarrow> 'w machine \<Rightarrow> (bytes option \<times> 'c) list \<times> 'w machine" where
  "serve_web E H [] m = ([], m)"
| "serve_web E H (ctx # ctxs) m =
    (case run E (H ctx) m of (r, m1) \<Rightarrow>
     case serve_web E H ctxs (settle E m1) of (rs, m') \<Rightarrow> (r # rs, m'))"

subsection \<open>An endpoint is its task\<close>

lemma answered_session:
  assumes F: "fasthttp_laws ex F" and r: "reply_of (Session res) m = Some r" and e: "code = success_code e"
  shows "\<exists>c. run E (case res of Inl err \<Rightarrow> writeServiceError F err ctx
      | Inr sess \<Rightarrow> write_session F code sess ctx) m = (c, m) \<and> ex c = answered_with e r (ex ctx)"
proof (cases res)
  case (Inl err)
  then have "err = App (NewNotFound ''playback session not found'')" "r = NoSession"
    using r by (simp_all split: if_splits)
  with Inl show ?thesis by (simp add: writeServiceError_def WriteError_exchange [OF F])
next
  case (Inr p)
  with r e show ?thesis
    using run_write_session [OF F, of E code p ctx m] by (auto simp: prod_eq_iff)
qed

lemma endpoint_session_task:
  assumes F: "fasthttp_laws ex F" and e: "code = success_code e"
    and h: "endpoint_handler lt V F (NewHandler NewService) e ctx =
      bind call (\<lambda>r. case r of Inl err \<Rightarrow> writeServiceError F err ctx | Inr sess \<Rightarrow> write_session F code sess ctx)"
    and t: "thread t = bind call (\<lambda>r. Done (Session r))"
    and run: "run E (thread t) m = (out, m1)" and r: "reply_of out m1 = Some r"
  shows "\<exists>c. run E (endpoint_handler lt V F (NewHandler NewService) e ctx) m = (c, m1) \<and>
    ex c = answered_with e r (ex ctx)"
proof -
  obtain res where "run E call m = (res, m1)" "out = Session res"
    using run by (auto simp: t run_bind split: prod.splits)
  with answered_session [OF F _ e, of res m1 r E ctx] r show ?thesis by (simp add: h run_bind)
qed

lemma endpoint_task:
  assumes F: "fasthttp_laws ex F" and t: "web_task lt V e (ex ctx) = Inr t"
    and run: "run E (thread t) m = (out, m1)" and r: "reply_of out m1 = Some r"
  shows "\<exists>c. run E (endpoint_handler lt V F (NewHandler NewService) e ctx) m = (c, m1) \<and>
    ex c = answered_with e r (ex ctx)"
proof -
  let ?u = "ex_headers (ex ctx) ''X-User-ID''"
  have t: "?u \<noteq> []" "request_task lt V e ?u (ex_body (ex ctx)) = Inr t"
    using t by (auto simp: web_task_def split: if_splits)
  note defs = handler_defs Handler_userID_cases [OF F] fasthttp_simps [OF F] NewHandler_def success_code_def t(1)
  note session = endpoint_session_task [OF F _ _ _ run r]
  show ?thesis
  proof (cases e)
    case EStart
    with t(2) obtain req where "BindJSON lt V unmarshal_start StartRequest_fields (ex_body (ex ctx)) = Inr req"
        "t = TStart ?u req" by (auto split: sum.splits)
    with EStart show ?thesis by (intro session) (simp_all add: defs)
  next
    case EGetCurrent
    with t(2) have "t = TCurrent ?u" by simp
    with EGetCurrent show ?thesis by (intro session) (simp_all add: defs)
  next
    case EPause
    with t(2) obtain req where
      "BindJSON lt V unmarshal_pause_resume PauseResumeRequest_fields (ex_body (ex ctx)) = Inr req"
      "t = TPause ?u (pr_DeviceID req)" by (auto split: sum.splits)
    with EPause show ?thesis by (intro session) (simp_all add: defs)
  next
    case EResume
    with t(2) obtain req where
      "BindJSON lt V unmarshal_pause_resume PauseResumeRequest_fields (ex_body (ex ctx)) = Inr req"
      "t = TResume ?u (pr_DeviceID req)" by (auto split: sum.splits)
    with EResume show ?thesis by (intro session) (simp_all add: defs)
  next
    case EHeartbeat
    with t(2) obtain req where
      req: "BindJSON lt V unmarshal_heartbeat HeartbeatRequest_fields (ex_body (ex ctx)) = Inr req"
      "t = THeartbeat ?u req" by (auto split: sum.splits)
    obtain res where res: "run E (Service_Heartbeat NewService ?u req) m = (res, m1)" "out = Answer res"
      using run by (auto simp: req(2) run_bind split: prod.splits)
    with r have "res = None" "r = Accepted" by (cases res; simp)+
    with EHeartbeat req(1) res(1) show ?thesis by (simp add: defs run_bind)
  qed
qed

lemma endpoint_refusal:
  assumes F: "fasthttp_laws ex F" and "web_task lt V e (ex ctx) = Inl a"
  shows "endpoint_handler lt V F (NewHandler NewService) e ctx = Done (WriteError F a ctx)"
  using assms(2)
  by (cases e) (auto simp: web_task_def handler_defs Handler_userID_cases [OF F] fasthttp_simps [OF F]
      split: sum.splits if_splits)

subsection \<open>The chain leaves the stores alone\<close>

definition unchanged ::
  "('w \<Rightarrow> bool) \<Rightarrow> ('w \<Rightarrow> table) \<Rightarrow> ('w \<Rightarrow> (string \<rightharpoonup> bytes)) \<Rightarrow> 'w machine \<Rightarrow> 'w machine \<Rightarrow> bool" where
  "unchanged I tab kv m m' \<longleftrightarrow> I (world m') \<and> tab (world m') = tab (world m) \<and> kv (world m') = kv (world m) \<and>
    heap m' = heap m \<and> spawned m' = spawned m"

lemma unchanged_trans: "unchanged I tab kv m m1 \<Longrightarrow> unchanged I tab kv m1 m2 \<Longrightarrow> unchanged I tab kv m m2"
  by (simp add: unchanged_def)

text \<open>
  The program \<open>p\<close> makes calls that change nothing before and after one of the programs \<open>Q\<close>, as
  long as that returns.
\<close>

definition wraps ::
  "('w \<Rightarrow> bool) \<Rightarrow> ('w \<Rightarrow> table) \<Rightarrow> ('w \<Rightarrow> (string \<rightharpoonup> bytes)) \<Rightarrow> 'w env \<Rightarrow>
   (bytes option \<times> 'c) prog \<Rightarrow> (bytes option \<times> 'c) prog set \<Rightarrow> bool" where
  "wraps I tab kv E p Q \<longleftrightarrow> (\<forall>m. I (world m) \<longrightarrow>
    (\<exists>q \<in> Q. \<exists>m1. unchanged I tab kv m m1 \<and>
      (\<forall>c m2. run E q m1 = ((None, c), m2) \<longrightarrow> I (world m2) \<longrightarrow>
        (\<exists>m3. unchanged I tab kv m2 m3 \<and> run E p m = ((None, c), m3)))))"

lemma wraps_trans:
  assumes "wraps I tab kv E p Q" "\<And>q. q \<in> Q \<Longrightarrow> wraps I tab kv E q R"
  shows "wraps I tab kv E p R"
  unfolding wraps_def
proof (intro allI impI)
  fix m :: "'a machine"
  assume "I (world m)"
  with assms(1) obtain q m1 where q: "q \<in> Q" "unchanged I tab kv m m1"
      "\<And>c m2. run E q m1 = ((None, c), m2) \<Longrightarrow> I (world m2) \<Longrightarrow>
        \<exists>m3. unchanged I tab kv m2 m3 \<and> run E p m = ((None, c), m3)"
    unfolding wraps_def by metis
  from q(2) have "I (world m1)" by (simp add: unchanged_def)
  with assms(2) [OF q(1)] obtain r n where r: "r \<in> R" "unchanged I tab kv m1 n"
      "\<And>c m2. run E r n = ((None, c), m2) \<Longrightarrow> I (world m2) \<Longrightarrow>
        \<exists>m3. unchanged I tab kv m2 m3 \<and> run E q m1 = ((None, c), m3)"
    unfolding wraps_def by metis
  have "\<exists>m3. unchanged I tab kv m2 m3 \<and> run E p m = ((None, c), m3)"
    if "run E r n = ((None, c), m2)" "I (world m2)" for c m2
    using r(3) [OF that] q(3) unchanged_trans unfolding unchanged_def by metis
  with r(1) q(2) r(2) unchanged_trans
  show "\<exists>r \<in> R. \<exists>m1. unchanged I tab kv m m1 \<and> (\<forall>c m2. run E r m1 = ((None, c), m2) \<longrightarrow> I (world m2) \<longrightarrow>
      (\<exists>m3. unchanged I tab kv m2 m3 \<and> run E p m = ((None, c), m3)))"
    by metis
qed

lemma wraps_mono: "wraps I tab kv E p Q \<Longrightarrow> Q \<subseteq> R \<Longrightarrow> wraps I tab kv E p R"
  unfolding wraps_def by (meson subsetD)

lemma wrapsI:
  assumes "\<And>m. I (world m) \<Longrightarrow> 
      \<exists>q \<in> Q. \<exists>x m1. unchanged I tab kv m m1 \<and> run E p m = run E (bind q (f x)) m1"
    and "\<And>x c m2. I (world m2) \<Longrightarrow>
      \<exists>m3. unchanged I tab kv m2 m3 \<and> run E (f x (None, c)) m2 = ((None, c), m3)"
  shows "wraps I tab kv E p Q"
  unfolding wraps_def
proof (intro allI impI)
  fix m :: "'a machine"
  assume "I (world m)"
  from assms(1) [OF this] obtain q x m1
    where "q \<in> Q" "unchanged I tab kv m m1" "run E p m = run E (bind q (f x)) m1" by blast
  with assms(2) show "\<exists>q \<in> Q. \<exists>m1. unchanged I tab kv m m1 \<and> (\<forall>c m2. run E q m1 = ((None, c), m2) \<longrightarrow> I (world m2) \<longrightarrow>
      (\<exists>m3. unchanged I tab kv m2 m3 \<and> run E p m = ((None, c), m3)))"
    by (intro bexI [of _ q] exI [of _ m1]) (auto simp: run_bind)
qed

context steady
begin

lemma outside_steady:
  assumes "I (world m)"
  shows "clock E (world m) = (now, w) \<Longrightarrow> unchanged I tab kv m (m\<lparr>world := w\<rparr>)"
    "rand_read E n (world m) = (b, w) \<Longrightarrow> unchanged I tab kv m (m\<lparr>world := w\<rparr>)"
    "unchanged I tab kv m (called m (span_call E op (world m)) ev)"
    "span_trace_id E (world m) = (tid, w) \<Longrightarrow> unchanged I tab kv m (m\<lparr>world := w\<rparr>)"
proof -  have "tab (snd (rand_read E n (world m))) = tab (world m)" "kv (snd (rand_read E n (world m))) = kv (world m)"
      "I (snd (rand_read E n (world m)))" "tab (snd (span_trace_id E (world m))) = tab (world m)"
      "kv (snd (span_trace_id E (world m))) = kv (world m)" "I (snd (span_trace_id E (world m)))" "tab (span_call E op (world m)) = tab (world m)"
      "kv (span_call E op (world m)) = kv (world m)" "I (span_call E op (world m))"
    using order assms laws(1)
    by (simp_all add: in_order_def postgres_laws_def calls_outside_postgres_def calls_outside_redis_def)
  then show "rand_read E n (world m) = (b, w) \<Longrightarrow> unchanged I tab kv m (m\<lparr>world := w\<rparr>)"
    "unchanged I tab kv m (called m (span_call E op (world m)) ev)"
    "span_trace_id E (world m) = (tid, w) \<Longrightarrow> unchanged I tab kv m (m\<lparr>world := w\<rparr>)"
    by (simp_all add: unchanged_def)
  show "unchanged I tab kv m (m\<lparr>world := w\<rparr>)" if "clock E (world m) = (now, w)"
    using clock_steady [OF assms that] by (simp add: unchanged_def)
qed

lemma wraps_Logger: "wraps I tab kv E (Logger F h c) {h c}"
proof (rule wrapsI [where f = "\<lambda>start (panic, ctx). case panic of
      Some rec \<Rightarrow> Done (Some rec, ctx)
    | None \<Rightarrow> Now (\<lambda>end. let attrs = request_attrs F start end ctx in case SpanContext F ctx of
          None \<Rightarrow> Log Info ''request completed'' attrs (Done (None, ctx))
        | Some _ \<Rightarrow> SpanTraceID (\<lambda>tid.
            Log Info ''request completed'' (attrs @ trace_attrs tid) (Done (None, ctx))))"], goal_cases)
  case (1 m)
  obtain t w where "clock E (world m) = (t, w)" by fastforce
  with outside_steady(1) [OF 1] show ?case
    by (intro bexI exI [of _ t] exI [of _ "m\<lparr>world := w\<rparr>"]) (simp_all add: Logger_def)
next
  case (2 start c m)
  obtain t w where t: "clock E (world m) = (t, w)" by fastforce
  note first = outside_steady(1) [OF 2 t]
  obtain tid w' where tid: "span_trace_id E w = (tid, w')" by fastforce
  have "I (world (m\<lparr>world := w\<rparr>))" using first by (simp add: unchanged_def)
  from outside_steady(4) [OF this] tid have "unchanged I tab kv (m\<lparr>world := w\<rparr>) (m\<lparr>world := w'\<rparr>)"
    by fastforce
  from first unchanged_trans [OF first this] t tid show ?case
    by (cases "SpanContext F c") (auto simp: unchanged_def Let_def)
qed

lemma wraps_Metrics: "wraps I tab kv E (Metrics F h c) {h c}"
proof (rule wrapsI [where f = "\<lambda>start (panic, ctx). case panic of
      Some rec \<Rightarrow> Done (Some rec, ctx)
    | None \<Rightarrow> Metric (CountRequest (Method F ctx) (routePattern F ctx) (dec_int (StatusCode F ctx)))
        (Now (\<lambda>end. Metric (ObserveDuration (Method F ctx) (routePattern F ctx) start end)
          (Done (None, ctx))))"], goal_cases)
  case (1 m)
  obtain t w where "clock E (world m) = (t, w)" by fastforce
  with outside_steady(1) [OF 1] show ?case
    unfolding Metrics_def Let_def by (intro bexI exI [of _ t] exI [of _ "m\<lparr>world := w\<rparr>"]) simp_all
next
  case (2 start c m)
  obtain t w where "clock E (world m) = (t, w)" by fastforce
  with outside_steady(1) [OF 2] show ?case by (auto simp: unchanged_def)
qed

lemma wraps_Tracing: "wraps I tab kv E (Tracing F h c) {h (SetUserValue F otelCtxKey USpanContext c)}"
proof (rule wrapsI [where f = "\<lambda>_ :: unit. \<lambda>(panic, ctx). case panic of
      Some rec \<Rightarrow> SpanCall SpanEnd (Done (Some rec, ctx))
    | None \<Rightarrow> SpanCall (SpanStatusCode (StatusCode F ctx)) (
        if StatusCode F ctx \<ge> 500
        then SpanCall (SpanError (''HTTP '' @ dec_int (StatusCode F ctx))) (SpanCall SpanEnd (Done (None, ctx)))
        else SpanCall SpanEnd (Done (None, ctx)))"], goal_cases)
  case (1 m)
  let ?m = "m\<lparr>history := history m @ [Did_extract (map (\<lambda>k. (k, carrier_Get F c k)) (carrier_Keys F c))]\<rparr>"
  have "I (world ?m)" using 1 by simp
  let ?start = "SpanStart (Method F c @ '' '' @ Path F c)
    [(''http.request.method'', AText (Method F c)), (''url.path'', AText (Path F c)),
     (''net.peer.ip'', AText (RemoteAddr F c))]"
  have "unchanged I tab kv m (called ?m (span_call E ?start (world ?m)) (Did_span ?start))"
    using outside_steady(3) [OF \<open>I (world ?m)\<close>] by (simp add: unchanged_def)
  then show ?case
    unfolding Tracing_def
    by (intro bexI exI [of _ "()"] exI [of _ "called ?m (span_call E ?start (world ?m)) (Did_span ?start)"]) simp_all
next
  case (2 x c m)
  note span = outside_steady(3) [OF 2]
  have end': "\<exists>m3. unchanged I tab kv m m3 \<and> run E (SpanCall SpanEnd (Done (None, c))) m1 = ((None, c), m3)"
    if "unchanged I tab kv m m1" for m1
    using that outside_steady(3) [of m1 SpanEnd "Did_span SpanEnd"] unchanged_trans [OF that]
    by (auto simp: unchanged_def)
  note first = span [of "SpanStatusCode (StatusCode F c)" "Did_span (SpanStatusCode (StatusCode F c))"]
  let ?m = "called m (span_call E (SpanStatusCode (StatusCode F c)) (world m)) (Did_span (SpanStatusCode (StatusCode F c)))"
  have "I (world ?m)" using first by (simp add: unchanged_def)
  from end' [OF first] end' [OF unchanged_trans [OF first outside_steady(3) [OF this]]]
  show ?case by (auto simp del: called_simps)
qed

lemma wraps_RequestID:
  "wraps I tab kv E (RequestID F h c)
    (range (\<lambda>id. h (SetUserValue F ''request_id'' (UString id) (Header_Set F RequestIDHeader id c))))"
proof (rule wrapsI [where f = "\<lambda>_ :: unit. Done"], goal_cases)
  case (1 m)
  obtain id w where id: "request_id E F c (world m) = (id, w)" by fastforce
  have "unchanged I tab kv m (m\<lparr>world := w\<rparr>)"
    using id outside_steady(2) [OF 1, of 16] 1
    by (auto simp: request_id_def unchanged_def Let_def split: if_splits prod.splits)
  then show ?case
    by (intro bexI [of _ "h (SetUserValue F ''request_id'' (UString id) (Header_Set F RequestIDHeader id c))"]
        exI [of _ "()"] exI [of _ "m\<lparr>world := w\<rparr>"]) (simp_all add: run_RequestID [OF id])
next
  case (2 x c m)
  then show ?case by (simp add: unchanged_def)
qed

lemma wraps_Recoverer: "wraps I tab kv E (Recoverer F h c) {h c}"
proof (rule wrapsI [where f = "\<lambda>_ :: unit. \<lambda>(panic, ctx). Recoverer F (\<lambda>_. Done (panic, ctx)) c"], goal_cases)
  case (1 m)
  then show ?case by (intro bexI exI [of _ "()"] exI [of _ m]) (auto simp: unchanged_def Recoverer_def run_bind split: prod.split)
next
  case (2 x c m)
  then show ?case by (auto simp: unchanged_def Recoverer_def)
qed

lemma wraps_chain: "wraps I tab kv E (chain F h c) (range (\<lambda>rid. h (entered F rid c)))"
proof -
  let ?inner = "Tracing F (Metrics F (Logger F h))"
  have inner: "wraps I tab kv E (?inner c) {h (SetUserValue F otelCtxKey USpanContext c)}" for c
    by (rule wraps_trans [OF wraps_Tracing], simp, rule wraps_trans [OF wraps_Metrics], simp, rule wraps_Logger)
  have "wraps I tab kv E (RequestID F ?inner c) (range (\<lambda>rid. h (entered F rid c)))"
    by (rule wraps_trans [OF wraps_RequestID], erule rangeE)
      (auto simp: entered_def intro!: wraps_mono [OF inner])
  then have "wraps I tab kv E (Recoverer F (RequestID F ?inner) c) (range (\<lambda>rid. h (entered F rid c)))"
    by (intro wraps_trans [OF wraps_Recoverer]) simp
  then show ?thesis by (simp add: chain_def)
qed

subsection \<open>One request\<close>

lemma served_unchanged:
  assumes "served I tab kv t M now out m" "unchanged I tab kv m m'"
  shows "served I tab kv t M now out m'"
proof -
  have same: "heap m' = heap m" "spawned m' = spawned m" "held tab kv m' = held tab kv m" "I (world m')"
      "tab (world m') = tab (world m)"
    using assms(2) by (simp_all add: unchanged_def held_def)
  have "reply_of out m' = reply_of out m"
    using same(1) by (cases "(out, m)" rule: reply_of.cases) simp_all
  with assms(1) same(4) show ?thesis unfolding served_def same(1-3,5) by auto
qed

text \<open>The endpoint, with the context as it reaches it.\<close>

lemma run_endpoint_steady:
  assumes F: "fasthttp_laws ex F"
    and m: "I (world m)" "table_ok (tab (world m))" "good (held tab kv m)" "spawned m = []"
    and ok: "\<And>t. web_task lt V e (ex ctx) = Inr t \<Longrightarrow> acceptable t"
  shows "\<exists>now c m'. run E (endpoint_handler lt V F (NewHandler NewService) e ctx) m = (c, m') \<and> I (world m') \<and> valid_time now \<and>
    outcome_of (ex c) = fst (web_register lt V e (ex ctx) now (held tab kv m)) \<and>
    (\<forall>m''. unchanged I tab kv m' m'' \<longrightarrow>
      held tab kv (settle E m'') = snd (web_register lt V e (ex ctx) now (held tab kv m)) \<and>
      I (world (settle E m'')) \<and> table_ok (tab (world (settle E m''))) \<and>
      good (held tab kv (settle E m'')) \<and> spawned (settle E m'') = [])"
proof (cases "web_task lt V e (ex ctx)")
  case (Inl a)
  have "settle E m'' = m''" if "unchanged I tab kv m m''" for m''
    using that m(4) by (simp add: unchanged_def settle_def)
  with Inl m endpoint_refusal [OF F Inl] show ?thesis
    by (intro exI [of _ "instant 0"]) (auto simp: web_register_def WriteError_exchange [OF F] unchanged_def held_def)
next
  case (Inr t)
  obtain out m1 where run: "run E (thread t) m = (out, m1)" by fastforce
  from served_request [OF m ok [OF Inr] run] obtain now where
    s: "served I tab kv t (held tab kv m) now out m1" ..
  from endpoint_task [OF F Inr run settle_served(2) [OF s]] obtain c where
    c: "run E (endpoint_handler lt V F (NewHandler NewService) e ctx) m = (c, m1)"
      "ex c = answered_with e (fst (register t now (held tab kv m))) (ex ctx)" by blast
  have "I (world m1)" using s by (simp add: served_def)
  with c Inr settle_served(3-7) [OF served_unchanged [OF s]] settle_served(1) [OF s] show ?thesis
    by (intro exI [of _ now] exI [of _ c] exI [of _ m1]) (simp add: web_register_def case_prod_unfold)
qed

text \<open>What the middlewares put into the context does not change the answer.\<close>

lemma web_register_cong:
  assumes "ex_headers x = ex_headers y" "ex_body x = ex_body y" "ex_status x = ex_status y" "ex_response x = ex_response y"
  shows "web_task lt V e x = web_task lt V e y" "web_register lt V e x now M = web_register lt V e y now M"
proof -
  show "web_task lt V e x = web_task lt V e y" using assms by (simp add: web_task_def)
  moreover have "outcome_of (answered_with e r x) = outcome_of (answered_with e r y)" for r
    using assms by (cases r) (simp_all add: outcome_of_def session_exchange_def error_exchange_def split: sum.split)
  moreover have "outcome_of (error_exchange a x) = outcome_of (error_exchange a y)" for a
    using assms by (simp add: outcome_of_def error_exchange_def)
  ultimately show "web_register lt V e x now M = web_register lt V e y now M"
    by (simp add: web_register_def split: sum.split prod.split)
qed

lemma serve_web_one:
  assumes F: "fasthttp_laws ex F" and R: "router_laws ex R"
    and m: "I (world m)" "table_ok (tab (world m))" "good (held tab kv m)" "spawned m = []"
    and route: "endpoint_route e = (ex_method (ex ctx), ex_path (ex ctx))"
    and ok: "\<And>t. web_task lt V e (ex ctx) = Inr t \<Longrightarrow> acceptable t"
    and run: "run E (server_handler R lt V F promhttp swagger h (NewHandler NewService) ctx) m = (r, m')"
  shows "\<exists>now. valid_time now \<and> fst r = None \<and>
    outcome_of (ex (snd r)) = fst (web_register lt V e (ex ctx) now (held tab kv m)) \<and>
    held tab kv (settle E m') = snd (web_register lt V e (ex ctx) now (held tab kv m)) \<and>
    I (world (settle E m')) \<and> table_ok (tab (world (settle E m'))) \<and>
    good (held tab kv (settle E m')) \<and> spawned (settle E m') = []"
proof -
  let ?r = "R (routes lt V F promhttp swagger h (NewHandler NewService))"
  obtain rid m1 where m1: "unchanged I tab kv m m1" and wrap: "\<And>c m2. run E (?r (entered F rid ctx)) m1 = ((None, c), m2) \<Longrightarrow>
      I (world m2) \<Longrightarrow> \<exists>m3. unchanged I tab kv m2 m3 \<and> run E (chain F ?r ctx) m = ((None, c), m3)"
    using wraps_chain [of F ?r ctx] m(1) unfolding wraps_def by blast
  let ?c = "SetUserValue F RoutePatternKey (UString (snd (endpoint_route e))) (entered F rid ctx)"
  have "endpoint_route e = (ex_method (ex (entered F rid ctx)), ex_path (ex (entered F rid ctx)))"
    using route by (simp add: entered_def fasthttp_simps [OF F])
  note routed = routed_endpoint [where ex = ex, OF R this, of lt V F promhttp swagger h "NewHandler NewService"]
  have cong: "web_task lt V e (ex ?c) = web_task lt V e (ex ctx)"
      "web_register lt V e (ex ?c) now M = web_register lt V e (ex ctx) now M" for now M
    by (rule web_register_cong; simp add: entered_def fasthttp_simps [OF F])+
  have m1': "I (world m1)" "table_ok (tab (world m1))" "good (held tab kv m1)" "spawned m1 = []"
      "held tab kv m1 = held tab kv m"
    using m1 m by (simp_all add: unchanged_def held_def)
  from run_endpoint_steady [OF F m1'(1-4), of lt V e ?c] ok obtain now c m2 where
    c: "run E (endpoint_handler lt V F (NewHandler NewService) e ?c) m1 = (c, m2)" "I (world m2)" "valid_time now"
      "outcome_of (ex c) = fst (web_register lt V e (ex ctx) now (held tab kv m))"
    and settled: "\<And>m''. unchanged I tab kv m2 m'' \<Longrightarrow>
      held tab kv (settle E m'') = snd (web_register lt V e (ex ctx) now (held tab kv m)) \<and>
      I (world (settle E m'')) \<and> table_ok (tab (world (settle E m''))) \<and>
      good (held tab kv (settle E m'')) \<and> spawned (settle E m'') = []"
    unfolding cong m1'(5) by blast
  have "run E (?r (entered F rid ctx)) m1 = ((None, c), m2)"
    by (simp add: routed withRoute_def quiet_def run_bind c(1))
  from wrap [OF this c(2)] obtain m3 where "unchanged I tab kv m2 m3" "run E (chain F ?r ctx) m = ((None, c), m3)" by blast
  moreover from this(2) have "r = (None, c)" "m' = m3" using run by (simp_all add: server_handler_def)
  ultimately show ?thesis using settled [of m3] c(3,4) by (intro exI [of _ now]) auto
qed

lemma serve_web_register:
  assumes F: "fasthttp_laws ex F" and R: "router_laws ex R"
    and m: "I (world m)" "table_ok (tab (world m))" "good (held tab kv m)" "spawned m = []"
    and requests: "\<forall>(e, ctx) \<in> set rs. endpoint_route e = (ex_method (ex ctx), ex_path (ex ctx)) \<and>
      (\<forall>t. web_task lt V e (ex ctx) = Inr t \<longrightarrow> acceptable t)"
    and H: "H = server_handler R lt V F promhttp swagger h (NewHandler NewService)"
  shows "\<exists>nows. length nows = length rs \<and> (\<forall>now \<in> set nows. valid_time now) \<and>
    map (\<lambda>(p, c). (p, outcome_of (ex c))) (fst (serve_web E H (map snd rs) m)) =
      map (Pair None) (fst (web_register_all lt V (zip (map (\<lambda>(e, c). (e, ex c)) rs) nows) (held tab kv m))) \<and>
    held tab kv (snd (serve_web E H (map snd rs) m)) =
      snd (web_register_all lt V (zip (map (\<lambda>(e, c). (e, ex c)) rs) nows) (held tab kv m))"
  using m requests
proof (induction rs arbitrary: m)
  case (Cons r rs)
  obtain e ctx where r: "r = (e, ctx)" by fastforce
  obtain a m' where run: "run E (H ctx) m = (a, m')" by fastforce
  have "endpoint_route e = (ex_method (ex ctx), ex_path (ex ctx))"
      "\<And>t. web_task lt V e (ex ctx) = Inr t \<Longrightarrow> acceptable t" using Cons.prems(5) r by auto
  note one_request = serve_web_one [OF F R Cons.prems(1-4) this]
  have "run E (server_handler R lt V F promhttp swagger h (NewHandler NewService) ctx) m = (a, m')"
    using run H by simp
  from one_request [OF _ this] obtain now where
    one: "valid_time now" "fst a = None" "outcome_of (ex (snd a)) = fst (web_register lt V e (ex ctx) now (held tab kv m))"
      "held tab kv (settle E m') = snd (web_register lt V e (ex ctx) now (held tab kv m))"
    and idle: "I (world (settle E m'))" "table_ok (tab (world (settle E m')))"
      "good (held tab kv (settle E m'))" "spawned (settle E m') = []"
    by blast
  from Cons.IH [OF idle] Cons.prems(5) obtain nows where
    "length nows = length rs" "\<forall>now \<in> set nows. valid_time now"
    "map (\<lambda>(p, c). (p, outcome_of (ex c))) (fst (serve_web E H (map snd rs) (settle E m'))) =
      map (Pair None) (fst (web_register_all lt V (zip (map (\<lambda>(e, c). (e, ex c)) rs) nows) (held tab kv (settle E m'))))"
    "held tab kv (snd (serve_web E H (map snd rs) (settle E m'))) =
      snd (web_register_all lt V (zip (map (\<lambda>(e, c). (e, ex c)) rs) nows) (held tab kv (settle E m')))"
    by auto
  with one run show ?case
    by (intro exI [of _ "now # nows"]) (auto simp: r case_prod_unfold)
qed simp

end

text \<open>
  C2. The server refines the register: with Redis, PostgreSQL and the clock in order, any
  sequence of HTTP requests with the routes of the endpoints, of any users and with any
  headers and bodies, is answered through the whole server with the status and the body that
  the register gives: 401 without a user, 400 with the reason when the body is refused, 404
  when the register has no session, and else the status of success with the session that the
  register holds after the request; and the stores then hold what the register holds. A
  session that is accepted but does not fit the columns is excluded.
\<close>

theorem server_refines_register:
  assumes F: "fasthttp_laws ex F" and R: "router_laws ex R"
    and laws: "postgres_laws pg tab E" "redis_laws kv E" "clock_ok E" "in_order I tab kv E"
    and start: "I (world m)" "table_ok (tab (world m))" "good (held tab kv m)" "spawned m = []"
    and requests: "\<forall>(e, ctx) \<in> set rs. endpoint_route e = (ex_method (ex ctx), ex_path (ex ctx)) \<and>
      (\<forall>t. web_task lt V e (ex ctx) = Inr t \<longrightarrow> acceptable t)"
    and H: "H = server_handler R lt V F promhttp swagger h (NewHandler NewService)"
  shows "\<exists>nows. length nows = length rs \<and> (\<forall>now \<in> set nows. valid_time now) \<and>
    map (\<lambda>(p, c). (p, outcome_of (ex c))) (fst (serve_web E H (map snd rs) m)) =
      map (Pair None) (fst (web_register_all lt V (zip (map (\<lambda>(e, c). (e, ex c)) rs) nows) (held tab kv m))) \<and>
    held tab kv (snd (serve_web E H (map snd rs) m)) =
      snd (web_register_all lt V (zip (map (\<lambda>(e, c). (e, ex c)) rs) nows) (held tab kv m))"
  using steady.serve_web_register [OF steady.intro [OF laws] F R start requests H] .

text \<open>A user without a session starts one, sends a heartbeat and asks for it.\<close>

definition web_request :: "endpoint \<Rightarrow> bytes \<Rightarrow> exchange" where
  "web_request e body = fresh_exchange (fst (endpoint_route e)) (snd (endpoint_route e))
     (\<lambda>k. if k = ''X-User-ID'' then ''u1'' else []) body"

definition some_web_requests :: "(endpoint \<times> exchange) list" where
  "some_web_requests = map (\<lambda>(e, body). (e, web_request e body))
     [(EGetCurrent, []), (EStart, negative_start), (EHeartbeat, heartbeat_body), (EGetCurrent, [])]"

definition t_start :: StartRequest where
  "t_start = \<lparr>sr_TrackID = ''t'', sr_DeviceID = ''d'', sr_Position = -5\<rparr>"

definition t_beat :: HeartbeatRequest where
  "t_beat = \<lparr>hr_TrackID = ''t'', hr_Position = 5, hr_DeviceID = ''d''\<rparr>"

lemma web_request_simps [simp]:
  "ex_headers (web_request e body) ''X-User-ID'' = ''u1''" "ex_body (web_request e body) = body"
  "ex_method (web_request e body) = fst (endpoint_route e)" "ex_path (web_request e body) = snd (endpoint_route e)"
  "ex_status (web_request e body) = 200" "ex_response (web_request e body) = []"
  by (simp_all add: web_request_def fresh_exchange_def)

lemma some_web_tasks [simp]:
  "web_task no_text documented_validation EGetCurrent (web_request EGetCurrent body) = Inr (TCurrent ''u1'')"
  "web_task no_text documented_validation EStart (web_request EStart negative_start) = Inr (TStart ''u1'' t_start)"
  "web_task no_text documented_validation EHeartbeat (web_request EHeartbeat heartbeat_body)
    = Inr (THeartbeat ''u1'' t_beat)"
proof -
  have "BindJSON no_text documented_validation unmarshal_start StartRequest_fields negative_start = Inr t_start"
    "BindJSON no_text documented_validation unmarshal_heartbeat HeartbeatRequest_fields heartbeat_body = Inr t_beat"
    unfolding BindJSON_Inr valid_requests [OF documented_validation_laws] unmarshal_negative_start
      unmarshal_heartbeat_body
    by (simp_all add: t_start_def t_beat_def) (simp_all add: heartbeat_body_def negative_start_def)
  then show "web_task no_text documented_validation EStart (web_request EStart negative_start) = Inr (TStart ''u1'' t_start)"
    "web_task no_text documented_validation EHeartbeat (web_request EHeartbeat heartbeat_body)
      = Inr (THeartbeat ''u1'' t_beat)"
    by (simp_all add: web_task_def)
qed (simp add: web_task_def)

lemma server_refines_register_witness:
  "\<exists>now started data. marshal_session (heartbeat_session ''u1'' t_beat now) = Inr data \<and>
    map (\<lambda>(p, c). (p, outcome_of c)) (fst (serve_web in_memory plain_server (map snd some_web_requests) (boot all_up))) =
      [(None, 404, marshal_response (ToResponse (NewNotFound ''playback session not found'')) @ [newline]),
       (None, 201, started @ [newline]), (None, 204, []), (None, 200, data @ [newline])]"
proof -
  let ?tab = sv_table and ?m = "boot all_up" and ?M = "held sv_table sv_cache (boot all_up)"
  have ok: "\<forall>(e, ctx) \<in> set some_web_requests. endpoint_route e = (ex_method (id ctx), ex_path (id ctx)) \<and>
      (\<forall>t. web_task no_text documented_validation e (id ctx) = Inr t \<longrightarrow> acceptable t)"
    by (simp add: some_web_requests_def session_accepted_iff started_session_def heartbeat_session_def
        t_start_def t_beat_def text_ok_def StatusPlaying_def char_count_def byte_def)
  have empty: "?M = Map.empty"
    by (simp add: fun_eq_iff held_def current_def boot_def all_up_def)
  have "up (world ?m)" "table_ok (sv_table (world ?m))" "good ?M" "spawned ?m = []"
    by (simp_all add: empty good_def) (simp_all add: boot_def all_up_def up_def)
  from server_refines_register [OF plain_http_laws(1) list_router_laws in_memory_postgres in_memory_redis
      memory.laws(3) memory.order this ok refl, unfolded empty]
  obtain nows where nows: "length nows = length some_web_requests" "\<forall>now \<in> set nows. valid_time now"
    and served: "map (\<lambda>(p, c). (p, outcome_of (id c))) (fst (serve_web in_memory plain_server (map snd some_web_requests) ?m)) =
      map (Pair None) (fst (web_register_all no_text documented_validation
        (zip (map (\<lambda>(e, c). (e, id c)) some_web_requests) nows) Map.empty))" by blast
  from nows(1) obtain n1 n2 n3 n4 where n: "nows = [n1, n2, n3, n4]"
    by (auto simp: some_web_requests_def numeral_eq_Suc length_Suc_conv)
  obtain started data where "marshal_session (started_session ''u1'' t_start n2) = Inr started"
      "marshal_session (heartbeat_session ''u1'' t_beat n3) = Inr data"
    using unmarshal_marshal_session [of "started_session ''u1'' t_start n2"]
      unmarshal_marshal_session [of "heartbeat_session ''u1'' t_beat n3"] nows(2)
    by (auto simp: n started_session_def heartbeat_session_def)
  with served show ?thesis
    by (intro exI [of _ n3] exI [of _ started] exI [of _ data])
      (simp add: n some_web_requests_def web_register_def outcome_of_def error_exchange_def session_exchange_def
        success_code_def NewNotFound_def)
qed

end
