(* ===== verification/Db_Errors.thy ===== *)
theory Db_Errors
  imports Serving Concurrency
begin

text \<open>
  What becomes of an error of the database behind an endpoint: it is wrapped into an
  application error as its cause, and nothing looks at the cause again. The endpoints are blind
  to it, in the sense of noninterference: two databases that differ only in what their errors
  say make the same executions.
\<close>

text \<open>
  A program is blind when it goes on in the same way whichever error a statement fails with, and
  whichever a query fails with as long as it says as much about missing rows.
\<close>

primrec blind :: "'a prog \<Rightarrow> bool" where
  "blind (Done x) = True"
| "blind (RedisGet k c) = (\<forall>r. blind (c r))"
| "blind (RedisSet k v t c) = (\<forall>r. blind (c r))"
| "blind (PgQueryRow q k c) = ((\<forall>r. blind (c r)) \<and>
    (\<forall>e e'. (errors_Is e PgNoRows \<longleftrightarrow> errors_Is e' PgNoRows) \<longrightarrow> c (Inl e) = c (Inl e')))"
| "blind (PgExec q a c) = ((\<forall>r. blind (c r)) \<and> (\<forall>e e'. c (Some e) = c (Some e')))"
| "blind (WriteMessages g c) = (\<forall>r. blind (c r))"
| "blind (FetchMessage c) = (\<forall>r. blind (c r))"
| "blind (CommitMessages g c) = (\<forall>r. blind (c r))"
| "blind (TraceInject c) = (\<forall>r. blind (c r))"
| "blind (TraceExtract h p) = blind p"
| "blind (SpanCall op p) = blind p"
| "blind (SpanRecording c) = (\<forall>r. blind (c r))"
| "blind (SpanTraceID c) = (\<forall>r. blind (c r))"
| "blind (Metric x p) = blind p"
| "blind (RandRead n c) = (\<forall>r. blind (c r))"
| "blind (Now c) = (\<forall>r. blind (c r))"
| "blind (New s c) = (\<forall>r. blind (c r))"
| "blind (Load a c) = (\<forall>r. blind (c r))"
| "blind (Store a s p) = blind p"
| "blind (Go g p) = blind p"
| "blind (Log l t a p) = blind p"

lemma blind_failures:
  "blind (PgQueryRow q k c) \<Longrightarrow> errors_Is e PgNoRows = errors_Is e' PgNoRows \<Longrightarrow> c (Inl e) = c (Inl e')"
  "blind (PgExec x a d) \<Longrightarrow> d (Some e) = d (Some e')"
  unfolding blind.simps by blast+

lemma blind_bind: "blind p \<Longrightarrow> (\<And>x. blind (f x)) \<Longrightarrow> blind (bind p f)"
proof (induction p)
  case (PgQueryRow q k c)
  then have "blind (bind (c r) f)" for r by (simp add: rangeI)
  moreover have "c (Inl e) = c (Inl e')" if "errors_Is e PgNoRows = errors_Is e' PgNoRows" for e e'
    using PgQueryRow.prems(1) that by (rule blind_failures(1))
  ultimately show ?case
    unfolding bind.simps blind.simps by (intro conjI allI impI) (assumption, metis)
next
  case (PgExec q a c)
  then have "blind (bind (c r) f)" for r by (simp add: rangeI)
  moreover have "bind (c (Some e)) f = bind (c (Some e')) f" for e e'
    by (rule arg_cong [where f = "\<lambda>p. bind p f", OF blind_failures(2) [OF PgExec.prems(1)]])
  ultimately show ?case by simp
qed (simp_all add: rangeI)

subsection \<open>Databases that differ in their errors\<close>

definition same_failure :: "go_error \<Rightarrow> go_error \<Rightarrow> bool" where
  "same_failure e e' \<longleftrightarrow> (errors_Is e PgNoRows \<longleftrightarrow> errors_Is e' PgNoRows)"

definition differ_in_errors :: "'w env \<Rightarrow> 'w env \<Rightarrow> bool" where
  "differ_in_errors E E' \<longleftrightarrow> (\<exists>query exec. E' = E\<lparr>pg_query_row := query, pg_exec := exec\<rparr> \<and>
    (\<forall>q k w. snd (query q k w) = snd (pg_query_row E q k w) \<and>
      rel_sum same_failure (=) (fst (pg_query_row E q k w)) (fst (query q k w))) \<and>
    (\<forall>q a w. snd (exec q a w) = snd (pg_exec E q a w) \<and>
      rel_option (\<lambda>_ _. True) (fst (pg_exec E q a w)) (fst (exec q a w))))"

lemma blind_step:
  assumes "differ_in_errors E E'" "blind p"
  shows "step E' p m = step E p m \<and> blind (fst (step E p m))"
proof -
  obtain query exec where E': "E' = E\<lparr>pg_query_row := query, pg_exec := exec\<rparr>"
    and query: "\<And>q k w. snd (query q k w) = snd (pg_query_row E q k w)"
      "\<And>q k w. rel_sum same_failure (=) (fst (pg_query_row E q k w)) (fst (query q k w))"
    and exec: "\<And>q a w. snd (exec q a w) = snd (pg_exec E q a w)"
      "\<And>q a w. rel_option (\<lambda>_ _. True) (fst (pg_exec E q a w)) (fst (exec q a w))"
    using assms(1) unfolding differ_in_errors_def by blast
  show ?thesis
  proof (cases p)
    case (PgQueryRow q k c)
    obtain r w where r: "pg_query_row E q k (world m) = (r, w)" by fastforce
    obtain r' where r': "query q k (world m) = (r', w)"
      using query(1) [of q k "world m"] r by (metis prod.collapse snd_conv)
    have "rel_sum same_failure (=) r r'" using query(2) [of q k "world m"] r r' by simp
    then have "c r' = c r \<and> is_ok r' = is_ok r"
    proof cases
      case (1 e e')
      then have "errors_Is e PgNoRows = errors_Is e' PgNoRows" by (simp only: same_failure_def)
      then have "c (Inl e) = c (Inl e')" by (rule blind_failures(1) [OF assms(2) [unfolded PgQueryRow]])
      with 1 show ?thesis by simp
    qed simp
    with PgQueryRow assms(2) r r' show ?thesis by (simp add: E')
  next
    case (PgExec q a c)
    obtain r w where r: "pg_exec E q a (world m) = (r, w)" by fastforce
    obtain r' where r': "exec q a (world m) = (r', w)"
      using exec(1) [of q a "world m"] r by (metis prod.collapse snd_conv)
    have "rel_option (\<lambda>_ _. True) r r'" using exec(2) [of q a "world m"] r r' by simp
    then have "c r' = c r \<and> ok r' = ok r"
    proof cases
      case (Some e e')
      with blind_failures(2) [OF assms(2) [unfolded PgExec], of e e'] show ?thesis by simp
    qed simp
    with PgExec assms(2) r r' show ?thesis by (simp add: E')
  qed (use assms(2) in \<open>simp_all add: E' case_prod_unfold\<close>)
qed

lemma blind_run:
  assumes "differ_in_errors E E'"
  shows "blind p \<Longrightarrow> run E' p m = run E p m"
proof (induction p m rule: prog_step_induct [where E = E])
  case (Step p m)
  with blind_step [OF assms Step.prems, of m] show ?case
    by (subst (1 2) run_step) (simp add: case_prod_unfold)
qed simp

subsection \<open>The endpoints\<close>

text \<open>The response to an application error does not depend on its cause.\<close>

lemma WriteError_cause: "WriteError F (NewInternal t e) ctx = WriteError F (NewInternal t e') ctx"
  by (simp add: WriteError_def NewInternal_def ToResponse_def)

lemma writeServiceError_cause:
  "writeServiceError F (App (NewInternal t e)) ctx = writeServiceError F (App (NewInternal t e')) ctx"
  using WriteError_cause [of F t e ctx e'] by (simp add: writeServiceError_def)

text \<open>What goes on after an operation of the service, if it goes on the same way whatever the cause.\<close>

definition indifferent :: "(app_error \<Rightarrow> 'r) \<Rightarrow> ('r \<Rightarrow> 'b prog) \<Rightarrow> bool" where
  "indifferent fail f \<longleftrightarrow> (\<forall>r. blind (f r)) \<and>
    (\<forall>t e e'. f (fail (NewInternal t e)) = f (fail (NewInternal t e')))"

lemma indifferentD:
  assumes "indifferent fail f"
  shows "blind (f r)" "f (fail (NewInternal t e)) = f (fail (NewInternal t e'))"
  using assms unfolding indifferent_def by blast+

abbreviation failed :: "app_error \<Rightarrow> go_error + addr" where
  "failed a \<equiv> Inl (App a)"

lemma blind_Get: "indifferent failed f \<Longrightarrow> blind (bind (Get u) f)"
  using indifferentD(1) [of failed f] indifferentD(2) [of failed f "''db query failed''"]
  by (auto simp: repo_bodies split: sum.split)

lemma blind_SetCache: "(\<And>r. blind (f r)) \<Longrightarrow> blind (bind (SetCache p) f)"
  by (simp add: repo_bodies split: sum.split)

lemma blind_saved:
  assumes "indifferent failed f"
  shows "blind (bind (save NewService u p fl wn) f)"
proof -
  have "blind (bind (cache_or_warn NewService u p wn (Done (Inr p))) f)" for p
    using indifferentD(1) [OF assms]
    by (simp add: cache_or_warn_def bind_assoc) (rule blind_SetCache, simp split: option.split)
  with indifferentD [OF assms] show ?thesis
    by (auto simp: save_def Upsert_def split: option.split)
qed

lemma blind_set_status:
  assumes "indifferent failed f"
  shows "blind (bind (set_status NewService st fl wn u d) f)"
proof -
  have "indifferent failed (\<lambda>r. bind (case r of
      Inl err \<Rightarrow> Done (Inl err)
    | Inr sess \<Rightarrow>
        Load sess (\<lambda>s. Store sess (s\<lparr>Status := st\<rparr>) (
        Load sess (\<lambda>s. Store sess (s\<lparr>DeviceID := d\<rparr>) (
        Now (\<lambda>now. Load sess (\<lambda>s. Store sess (s\<lparr>UpdatedAt := now\<rparr>) (
        save NewService u sess fl wn)))))))) f)"
    using indifferentD [OF assms] blind_saved [OF assms]
    by (auto simp: indifferent_def split: sum.split)
  then show ?thesis
    unfolding set_status_save NewService_simps bind_assoc by (rule blind_Get)
qed

lemma blind_Start: "indifferent failed f \<Longrightarrow> blind (bind (Service_Start NewService u req) f)"
  by (simp add: Service_Start_save blind_saved)

lemma blind_Heartbeat:
  assumes "indifferent (\<lambda>a. Some (App a)) f"
  shows "blind (bind (Service_Heartbeat NewService u req) f)"
proof -
  have persist: "blind (bind (bind (Upsert p) (\<lambda>r. case r of
      Some e \<Rightarrow> Done (Some (App (NewInternal ''failed to persist heartbeat'' e))) | None \<Rightarrow> Done None)) f)" for p
    using indifferentD [OF assms] by (auto simp: Upsert_def split: option.split)
  have send: "blind (bind (Load p (\<lambda>s.
      bind (NewEnvelope ''playback.heartbeat'' 1 (marshal_session s)) (\<lambda>r. case r of
        Inl err \<Rightarrow> Done (Some (App (NewInternal ''failed to encode heartbeat event'' err)))
      | Inr payload \<Rightarrow> bind (Publish heartbeatTopic u payload) (\<lambda>r. case r of
            Some pubErr \<Rightarrow> Log Error_level ''kafka publish failed, writing heartbeat directly to db''
              [(''user_id'', AText u), (''error'', AErr pubErr)]
              (bind (Upsert p) (\<lambda>r. case r of
                Some dbErr \<Rightarrow> Done (Some (App (NewInternal ''failed to persist heartbeat'' dbErr)))
              | None \<Rightarrow> Done None))
          | None \<Rightarrow> Done None)))) f)" for p
    using indifferentD(1) [OF assms] persist
    by (simp add: NewEnvelope_def Publish_def injectTraceHeaders_def split: sum.split option.split)
  have cached: "blind (bind (bind (SetCache p) (\<lambda>r. case r of Some err \<Rightarrow> Log Warn wn (at err) k | None \<Rightarrow> k)) f)"
    if "blind (bind k f)" for p wn at k
    unfolding bind_assoc using that by (intro blind_SetCache) (simp split: option.split)
  show ?thesis
    unfolding Service_Heartbeat_def cache_or_warn_def NewService_simps
    by (simp only: bind.simps blind.simps) (intro allI cached send)
qed

lemma indifferent_answers:
  "indifferent failed (\<lambda>r. case r of Inl err \<Rightarrow> writeServiceError F err ctx
     | Inr sess \<Rightarrow> write_session F code sess ctx)"
  "indifferent (\<lambda>a. Some (App a)) (\<lambda>r. case r of Some err \<Rightarrow> writeServiceError F err ctx
     | None \<Rightarrow> Done (SetStatusCode F 204 ctx))"
  using writeServiceError_cause
  by (auto simp: indifferent_def writeServiceError_def write_session_def WriteError_cause
      split: sum.split option.split intro: WriteError_cause)

lemma blind_endpoint: "blind (endpoint_handler lt V F (NewHandler NewService) e ctx)"
  by (cases e; simp add: handler_defs NewHandler_def Service_GetCurrent_def set_status_instances
      blind_Get blind_Start blind_Heartbeat blind_set_status indifferent_answers split: sum.split)

subsection \<open>Through the whole server\<close>

lemma blind_chain:
  assumes "\<And>rid. blind (h (entered F rid ctx))"
  shows "blind (chain F h ctx)"
proof -
  have logger: "blind (Logger F h c)" if "blind (h c)" for c
    by (auto simp: Logger_def Let_def intro!: blind_bind [OF that] split: option.split)
  have metrics: "blind (Metrics F (Logger F h) c)" if "blind (h c)" for c
    by (auto simp: Metrics_def Let_def intro!: blind_bind [OF logger [OF that]] split: option.split)
  have tracing: "blind (Tracing F (Metrics F (Logger F h)) c)"
    if "blind (h (SetUserValue F otelCtxKey USpanContext c))" for c
    by (auto simp: Tracing_def intro!: blind_bind [OF metrics [OF that]] split: option.split)
  have "blind (RequestID F (Tracing F (Metrics F (Logger F h))) ctx)"
    using tracing assms by (simp add: RequestID_def generateID_def Let_def entered_def)
  then show ?thesis
    by (auto simp: chain_def Recoverer_def Let_def intro!: blind_bind split: option.split)
qed

text \<open>
  C25. The cause of a database failure is swallowed: two databases that differ only in what
  their errors say are indistinguishable through the server. A request for any endpoint gets the
  same response, and the whole execution is the same: the same log lines with the same
  attributes, the same span, the same metrics. So the cause of a 500 leaks to no client, and
  reaches no operator either.
\<close>

theorem database_errors_are_swallowed:
  assumes F: "fasthttp_laws ex F" and R: "router_laws ex R"
    and request: "endpoint_route e = (ex_method (ex ctx), ex_path (ex ctx))"
    and errors: "differ_in_errors E E'"
  shows "run E' (server_handler R lt V F promhttp swagger h (NewHandler NewService) ctx) m =
    run E (server_handler R lt V F promhttp swagger h (NewHandler NewService) ctx) m"
proof (rule blind_run [OF errors])
  show "blind (server_handler R lt V F promhttp swagger h (NewHandler NewService) ctx)"
    unfolding server_handler_def
  proof (rule blind_chain)
    fix rid
    have "endpoint_route e = (ex_method (ex (entered F rid ctx)), ex_path (ex (entered F rid ctx)))"
      using request by (simp add: entered_def fasthttp_simps [OF F])
    with R show "blind (R (routes lt V F promhttp swagger h (NewHandler NewService)) (entered F rid ctx))"
      by (simp add: routed_endpoint withRoute_def quiet_def blind_bind blind_endpoint)
  qed
qed

text \<open>Services whose database says more when it is down.\<close>

definition talkative :: "services env" where
  "talkative = in_memory\<lparr>pg_query_row := (\<lambda>q k w. if sv_postgres_up w then pg_query_row in_memory q k w
     else (Inl (Opaque ''FATAL: password authentication failed''), w))\<rparr>"

lemma database_errors_are_swallowed_witness:
  "let down = boot (all_up\<lparr>sv_postgres_up := False\<rparr>);
       server = server_handler list_router no_text documented_validation plain_http
         panicking panicking New_Infra (NewHandler NewService) served_request
   in pg_query_row talkative select_session ''u1'' (world down) \<noteq>
        pg_query_row in_memory select_session ''u1'' (world down) \<and>
      run talkative server down = run in_memory server down \<and>
      (\<exists>ctx' m'. run in_memory server down = ((None, ctx'), m') \<and> ex_status ctx' = 500)"
proof -
  let ?down = "boot (all_up\<lparr>sv_postgres_up := False\<rparr>)"
  have "in_memory\<lparr>pg_query_row := query, pg_exec := pg_exec in_memory\<rparr> = in_memory\<lparr>pg_query_row := query\<rparr>" for query
    by simp
  then have errors: "differ_in_errors in_memory talkative"
    unfolding differ_in_errors_def talkative_def
    by (intro exI [of _ "\<lambda>q k w. if sv_postgres_up w then pg_query_row in_memory q k w
          else (Inl (Opaque ''FATAL: password authentication failed''), w)"] exI [of _ "pg_exec in_memory"])
      (auto simp: in_memory_def refused_def same_failure_def sum.rel_refl option.rel_refl)
  have "endpoint_route EGetCurrent = (ex_method (id served_request), ex_path (id served_request))"
    by (simp add: served_request_def fresh_exchange_def)
  note same = database_errors_are_swallowed [OF plain_http_laws(1) list_router_laws this errors]
  have "pg_query_row talkative select_session ''u1'' (world ?down) \<noteq>
      pg_query_row in_memory select_session ''u1'' (world ?down)"
    by (simp add: talkative_def in_memory_def boot_def all_up_def refused_def)
  moreover have "\<exists>ctx' m'. run in_memory (server_handler list_router no_text documented_validation plain_http
      panicking panicking New_Infra (NewHandler NewService) served_request) ?down = ((None, ctx'), m') \<and>
    ex_status ctx' = 500"
    by (simp add: server_handler_def chain_def Recoverer_def RequestID_def Tracing_def Metrics_def Logger_def
        RequestIDHeader_def served_request_def fresh_exchange_def plain_http_def list_router_def routes_def
        withRoute_def quiet_def handler_defs Handler_userID_def NewHandler_def Service_GetCurrent_def
        repo_bodies run_bind in_memory_def boot_def all_up_def refused_def Let_def writeServiceError_def
        WriteError_def WriteJSON_def NewInternal_def SpanContext_def otelCtxKey_def RoutePatternKey_def)
  ultimately show ?thesis unfolding Let_def same by blast
qed

end
