(* ===== verification/Spec2Isabelle.thy ===== *)
theory Spec2Isabelle
  imports Api_Docs Lifecycle Formats Last_Write Consumption Web_Register Db_Errors
begin

text \<open>
  A verification development for the playback session service, a Go program that keeps for
  every user which track is playing where, on which device, and whether it is paused. It
  serves five HTTP endpoints, keeps the sessions in PostgreSQL with Redis in front, and moves
  heartbeats through a Kafka topic that it consumes itself.

  Values and errors. A Go string or byte slice is a list of bytes, \<^verbatim>\<open>int\<close> is a 64-bit
  word, a struct is a record, an \<^verbatim>\<open>error\<close> is a value of \<open>go_error\<close> (an application error, a
  wrapped error, a sentinel, an error of the decoder, or another one known by its text), and
  a function that may fail returns a sum or an option.
  \<^item> \<open>Prelude\<close>, \<open>Apperror\<close>: bytes and words; \<^verbatim>\<open>internal/apperror\<close> with rendering,
    unwrapping, \<^verbatim>\<open>errors.Is\<close> and \<^verbatim>\<open>errors.As\<close>.
  \<^item> \<open>Utf8\<close>, \<open>Json_String\<close>, \<open>Json_Scan\<close>, \<open>Json_Doc\<close>, \<open>Json_Int\<close>, \<open>Json_Compact\<close>,
    \<open>Go_Time\<close>, \<open>Json_Struct\<close>: what the program uses of \<^verbatim>\<open>encoding/json\<close> and of the RFC 3339
    form of \<^verbatim>\<open>time.Time\<close>, byte by byte: the scanner with its depth limit, quoting with the
    HTML escapes and the replacement of ill-formed UTF-8, members matched up to case folding,
    numbers that do not fit, compaction of raw messages; and the round trips.
  \<^item> \<open>Session_Model\<close>, \<open>Kafka_Event\<close>: \<^verbatim>\<open>internal/session/model.go\<close> and
    \<^verbatim>\<open>internal/kafka/event.go\<close>, the structs with their JSON forms.

  Effects. \<open>Effects\<close> has the programs: trees of calls to Redis, PostgreSQL, Kafka, the
  tracer, the metrics, the random generator, the clock, the heap of session structs that
  pointers share, and the logger with the attributes of its lines. The services behind the calls are the fields of \<open>env\<close>,
  functions on an arbitrary world, so every theorem about a program speaks of all answers
  they can give; what a theorem needs of them is a named hypothesis. \<open>step\<close> makes one call,
  \<open>run\<close> all of them, and the history of the machine keeps what was called.
  \<^item> \<open>Repository\<close>, \<open>Kafka_Client\<close>, \<open>Service\<close>, \<open>Heartbeat_Consumer\<close>: the files
    \<^verbatim>\<open>repository.go\<close>, \<^verbatim>\<open>service.go\<close> and \<^verbatim>\<open>consumer.go\<close> of \<^verbatim>\<open>internal/session\<close>, and
    \<^verbatim>\<open>internal/kafka\<close>. The Go interfaces are locales: \<open>upsert_store\<close>, \<open>repo_store\<close> and
    \<open>event_publisher\<close> state what the clients rely on, \<open>service\<close> and \<open>heartbeat_consumer\<close> are
    proved over them, and each is interpreted on the operations that \<^verbatim>\<open>NewService\<close> and
    \<^verbatim>\<open>NewHeartbeatConsumer\<close> put in place.
  \<^item> \<open>Stores\<close>, \<open>Consistency\<close>: the table of the migration, the meaning of the two statements on
    its rows, the laws of a database and a cache (calls may fail, a failed write may have
    happened, a cached entry may vanish), and the contract of the repository and the service
    over them: an upsert is an update of the map from users to sessions, a read finds the
    session in force.
  \<^item> \<open>In_Memory\<close>: services that keep all the laws, on which every hypothesis is witnessed.

  Serving. \<open>Fasthttp\<close> states the methods of a request context as an argument with its laws;
  \<open>Http_Handler\<close>, \<open>Validator\<close>, \<open>Session_Handler\<close>, \<open>Middleware\<close>, \<open>Server\<close> are
  \<^verbatim>\<open>internal/handler\<close>, \<^verbatim>\<open>internal/validator\<close>, \<^verbatim>\<open>internal/session/handler.go\<close>,
  \<^verbatim>\<open>internal/middleware\<close> and \<^verbatim>\<open>internal/server\<close>; a panic is a value that a handler returns
  and the middlewares pass on or catch. \<open>Api\<close> and \<open>Serving\<close> have the properties of the
  endpoints and of the server around them. \<open>Db_Errors\<close> shows by a noninterference argument
  that the error of the database behind a 500 reaches neither the response nor the logs.
  \<open>Api_Docs\<close> is the document of \<^verbatim>\<open>docs/docs.go\<close> as
  data, compared with the routes, the validation and the responses.

  Starting and stopping. \<open>Config\<close> is \<^verbatim>\<open>internal/config\<close> and \<^verbatim>\<open>internal/logger\<close> over what
  Viper documents, \<open>Startup\<close> is \<^verbatim>\<open>internal/postgres\<close>, \<^verbatim>\<open>internal/redis\<close>,
  \<^verbatim>\<open>internal/tracing\<close> and \<^verbatim>\<open>cmd/service\<close>: settings, failures, what is closed, and the graph
  of constructors that fx orders. \<open>Lifecycle\<close> puts them together with the start and stop hooks
  of all parts: \<open>main_run\<close> is the program from the first constructor to the last hook, in the
  orders that the documentation of fx allows (\<open>fx_order\<close>, \<open>fx_runs\<close>); it ends early when a
  constructor fails. \<open>everything_is_closed\<close> says what has been opened and closed by then, and
  \<open>broken_start_serves_nothing\<close> what an early end leaves.

  All at once. \<open>Pool\<close> is a pool of threads over one machine, whatever the threads are: a
  step is the arrival of a thread, the start of a goroutine that one has spawned or one call
  of one thread. \<open>Concurrency\<close> has the threads of the service, one for each request, for the
  consumer and for each warming goroutine; \<open>Http_Pool\<close> has those of the whole server, where
  every request goes through the chain, the router, the handler and the service.
  \<open>Discipline\<close> says what a thread may do with the structs it owns, the pointers it can read and
  the users it is labelled to write for, and proves in the locale \<open>guarded_pool\<close> what follows
  for all interleavings of threads that keep to it; \<open>Isolation\<close> interprets it on the threads of
  the service, \<open>Http_Pool\<close> on those of the server. So an answer of the server keeps its promise
  (\<open>promises_are_kept\<close>), requests of other users leave a session alone and every request is
  answered in a number of its own turns. \<open>Last_Write\<close> says what the database holds after any
  interleaving; \<open>Races\<close> has the two orders of calls that lose an update. \<open>Consumption\<close> shows the
  consumer to be a replay of its topic: the database ends up with the sessions of the fetched
  messages written in order over the ones before. \<open>Formats\<close> has the
  round trips of sessions and events, the bounds of positions, and the end of the consumer's
  loop.

  One after the other. \<open>Register\<close> is the abstract service, a register for every user, and the
  refinement: with Redis, PostgreSQL and the clock in order, a sequence of requests is
  answered as the register answers it. The abstraction function reads the cache before the
  database, as \<^verbatim>\<open>Get\<close> does; the locale \<open>steady\<close> collects the laws and is interpreted on the
  services in memory. \<open>Web_Register\<close> carries the refinement through the whole server:
  a sequence of HTTP requests is answered with the status and the body that the register
  implies (\<open>server_refines_register\<close>), where the chain of middlewares \<open>wraps\<close> the endpoint in
  calls that leave the stores alone. \<open>Races\<close> shows that the refinement does not extend to
  interleavings.

  Fuel and bounds. The consumer's loop runs for ever by design, so \<open>Run_loop\<close> takes a number
  of turns and answers None when it is still running after them. \<open>consumer_replays_topic\<close>
  holds for every number; \<open>consumer_stops\<close> shows that any number beyond the turn in which the
  fetch is cancelled gives the same result. Every other loop of the program is a structural
  recursion. The budgets of \<open>served_requests_end\<close> are the longest paths of the programs.

  What the findings are. The theorems \<open>failed_write_is_committed\<close>,
  \<open>stale_cache_after_failed_write\<close>, \<open>warm_cache_race\<close>, \<open>late_heartbeat_wins\<close>,
  \<open>position_beyond_column\<close>, \<open>null_event_is_written\<close>, \<open>database_errors_are_swallowed\<close> and a part of \<open>panics_are_contained\<close>, \<open>environment_wins\<close>,
  \<open>nothing_left_open\<close>, \<open>client_settings\<close>, \<open>documented_operations\<close> and
  \<open>defaults_without_file\<close> state how the code behaves where that is not what it means to do or
  what its documents say.

  Not modelled. Contexts with their deadlines and cancellation (a cancelled call is one that
  answers with an error), the text of stack traces, the JSON form of log lines, the prose of the
  API documentation and its registration, the Swagger and metrics handlers (arguments of \<open>routes\<close>), the router, the HTTP parser, the SQL and Redis
  protocols, group coordination in Kafka, and the configuration files of the deployment. A
  call is atomic: encoding a session reads the struct in one step, so the data race between a
  warming goroutine and its caller shows as an order of reads and writes, not as a torn value.
  The goroutines that serve connections and shut the server down belong to fasthttp; the hooks
  around them, and what is logged when serving ends with an error, are modelled. The exit
  status of the process is fx's.
\<close>

section \<open>Heartbeats\<close>

definition sample_heartbeat :: HeartbeatRequest where
  "sample_heartbeat = \<lparr>hr_TrackID = ''t1'', hr_Position = 42, hr_DeviceID = ''phone''\<rparr>"

text \<open>
  C3. A published heartbeat reaches the database as it was sent: when the publication
  succeeded, the event is keyed by the user, and the consumer that later handles a message
  with its value writes the very session of the heartbeat, whatever the broker made of the
  offset and the headers.
\<close>

theorem heartbeat_reaches_database:
  assumes time: "\<forall>w. valid_time (fst (clock E w))"
    and utf8: "utf8_valid u" "utf8_valid (hr_TrackID req)" "utf8_valid (hr_DeviceID req)"
    and sent: "run E (Service_Heartbeat NewService u req) m = (r, m')"
      "effects (history m') = effects (history m) @ [Did_write msg True]"
    and handled: "msg_value msg' = msg_value msg"
      "run E' (handle (NewHeartbeatConsumer cfg) msg') n = (r', n')"
  shows "r = None \<and> msg_topic msg = heartbeatTopic \<and> msg_key msg = u \<and>
    effects (history n') = effects (history n) @
      [Did_exec (row_args (heartbeat_session u req (fst (clock E (world m))))) (ok r')]"
proof -
  obtain now w where now: "clock E (world m) = (now, w)" by fastforce
  let ?s = "heartbeat_session u req now"
  have s: "valid_session ?s" "valid_time (UpdatedAt ?s)"
    using time utf8 now by (auto simp: heartbeat_session_def valid_session_def dest: spec [of _ "world m"])
  from svc.heartbeat_spec [OF sent(1) now] sent(2)
  obtain t v where t: "t \<in> range (\<lambda>w. fst (clock E w))" "heartbeat_event t ?s = Inr v"
      "msg_value msg = v" and r: "r = None" "msg_topic msg = heartbeatTopic" "msg_key msg = u"
    by (cases; simp)
  have "valid_time t" using t(1) time by auto
  from heartbeat_event_read [OF this s(2)] t handled(1)
  have "session_of_message msg' = Some ?s" by (simp add: sanitize_id [OF s(1)])
  from consumer.handle_session [OF this handled(2)] r now show ?thesis by simp
qed

definition sample_consumer :: ConsumerConfig where
  "sample_consumer = \<lparr>cc_Brokers = [''localhost:9092''], cc_GroupID = ''playback-session'',
     cc_Topic = heartbeatTopic, cc_MinBytes = 0, cc_MaxBytes = 0, cc_MaxWait = 0\<rparr>"

lemma heartbeat_reaches_database_witness:
  "\<exists>m' msg r' n'. run in_memory (Service_Heartbeat NewService ''u1'' sample_heartbeat) (boot all_up)
      = (None, m') \<and> msg_topic msg = heartbeatTopic \<and> msg_key msg = ''u1'' \<and>
    run in_memory (handle (NewHeartbeatConsumer sample_consumer) msg) (boot all_up) = (r', n') \<and>
    effects (history n') = [Did_exec (row_args (heartbeat_session ''u1'' sample_heartbeat (instant 0))) (ok r')]"
proof -
  let ?m = "boot all_up"
  have up: "sv_redis_up (world ?m)" "\<not> sv_redis_full (world ?m)" "sv_kafka_up (world ?m)"
    by (simp_all add: boot_def all_up_def)
  obtain m' msg where m': "run in_memory (Service_Heartbeat NewService ''u1'' sample_heartbeat) ?m
      = (None, m')" "effects (history m') = effects (history ?m) @ [Did_write msg True]"
    using in_memory_heartbeat [OF up, of "''u1''" sample_heartbeat] by auto
  obtain r' n' where n': "run in_memory (handle (NewHeartbeatConsumer sample_consumer) msg) ?m = (r', n')"
    by fastforce
  have "utf8_valid ''u1''" "utf8_valid (hr_TrackID sample_heartbeat)"
      "utf8_valid (hr_DeviceID sample_heartbeat)"
    by (simp_all add: sample_heartbeat_def byte_def)
  with heartbeat_reaches_database [OF _ _ _ _ m' refl n'] m'(1) n' show ?thesis
    by (auto simp: boot_def all_up_def)
qed

text \<open>
  C4. A heartbeat is never lost silently: it is published as an event that carries its
  session, and when the publication fails its session is written to the database; an error
  is returned exactly when both have failed.
\<close>

theorem heartbeat_not_lost:
  assumes time: "\<forall>w. valid_time (fst (clock E w))"
    and run: "run E (Service_Heartbeat NewService u req) m = (r, m')"
  shows "\<exists>msg published written.
    effects (history m') = effects (history m) @ Did_write msg published #
      (if published then []
       else [Did_exec (row_args (heartbeat_session u req (fst (clock E (world m))))) written]) \<and>
    msg_topic msg = heartbeatTopic \<and> msg_key msg = u \<and>
    session_of_message msg = Some (sanitize (heartbeat_session u req (fst (clock E (world m))))) \<and>
    (r = None \<longleftrightarrow> published \<or> written) \<and>
    (\<forall>e. r = Some e \<longrightarrow> (\<exists>err. e = App (NewInternal ''failed to persist heartbeat'' err)))"
proof -
  obtain now w where now: "clock E (world m) = (now, w)" by fastforce
  let ?s = "heartbeat_session u req now"
  have s: "valid_time (UpdatedAt ?s)"
    using time now by (auto simp: heartbeat_session_def dest: spec [of _ "world m"])
  have event: "\<exists>v. heartbeat_event t ?s = Inr v \<and>
      (\<forall>msg. msg_value msg = v \<longrightarrow> session_of_message msg = Some (sanitize ?s))"
    if "t \<in> range (\<lambda>w. fst (clock E w))" for t
    using that time heartbeat_event_read [OF _ s, of t] by auto
  show ?thesis
  proof (cases rule: svc.heartbeat_spec [OF run now, case_names unencoded published written])
    case (unencoded t e)
    with event [of t] show ?thesis by simp
  next
    case (published t v msg)
    moreover have "session_of_message msg = Some (sanitize ?s)"
      using event [OF published(1)] published by auto
    ultimately show ?thesis
      using now by (intro exI [of _ msg] exI [of _ True]) simp
  next
    case (written t v msg)
    moreover have "session_of_message msg = Some (sanitize ?s)"
      using event [OF written(1)] written by auto
    ultimately show ?thesis
      using now by (intro exI [of _ msg] exI [of _ False] exI [of _ "ok r"]) (auto simp: ok_def)
  qed
qed

lemma heartbeat_not_lost_witness:
  "\<exists>r m' msg published written.
    run in_memory (Service_Heartbeat NewService ''u1'' sample_heartbeat) (boot all_up) = (r, m') \<and>
    effects (history m') = Did_write msg published #
      (if published then []
       else [Did_exec (row_args (heartbeat_session ''u1'' sample_heartbeat (instant 0))) written]) \<and>
    (r = None \<longleftrightarrow> published \<or> written)"
proof -
  obtain r m' where run: "run in_memory (Service_Heartbeat NewService ''u1'' sample_heartbeat)
      (boot all_up) = (r, m')" by fastforce
  have "\<forall>w. valid_time (fst (clock in_memory w))" by simp
  from heartbeat_not_lost [OF this run] obtain msg published written where
    "effects (history m') = effects (history (boot all_up)) @ Did_write msg published #
      (if published then []
       else [Did_exec (row_args (heartbeat_session ''u1'' sample_heartbeat
         (fst (clock in_memory (world (boot all_up)))))) written])"
    "r = None \<longleftrightarrow> published \<or> written" by blast
  with run show ?thesis
    by (intro exI [of _ r] exI [of _ m'] exI [of _ msg] exI [of _ published] exI [of _ written])
      (simp add: boot_def all_up_def)
qed

section \<open>Delivery\<close>

text \<open>
  Every message that is fetched is committed, once and in the order of the fetches, by
  any number of turns of the consumer's loop.
\<close>

lemma consumer_commits_in_order:
  "\<exists>msgs.
    fetched_messages (history (snd (run E (consumer_goroutine n (NewHeartbeatConsumer cfg)) m))) =
      fetched_messages (history m) @ msgs \<and>
    committed_messages (history (snd (run E (consumer_goroutine n (NewHeartbeatConsumer cfg)) m))) =
      committed_messages (history m) @ msgs"
proof -
  let ?h = "handle (NewHeartbeatConsumer cfg)"
  obtain r m' where run: "run E (Run_loop n ?h) (started_line (NewConsumer cfg) m) = (r, m')"
    by fastforce
  have "r = None \<or> r = Some None"
    using Run_loop_result [of E n ?h] run by (metis fst_conv option.exhaust)
  moreover have "\<exists>msgs. fetched_messages (history m') = fetched_messages (history m) @ msgs \<and>
      committed_messages (history m') = committed_messages (history m) @ msgs"
    using Run_loop_offsets [OF handle_leaves_offsets [of E cfg], of n
        "started_line (NewConsumer cfg) m"] run by simp
  ultimately show ?thesis using run
    by (auto simp: consumer_goroutine_def run_Run NewHeartbeatConsumer_def run_bind)
qed



section \<open>Sessions\<close>


definition sample_start :: StartRequest where
  "sample_start = \<lparr>sr_TrackID = ''t1'', sr_DeviceID = ''phone'', sr_Position = 7\<rparr>"



definition sample_session :: PlaybackSession where
  "sample_session = \<lparr>UserID = ''u1'', TrackID = ''t1'', Position = 42, Status = ''playing'',
     DeviceID = ''phone'', UpdatedAt = instant 0\<rparr>"

lemma sample_session_ok:
  "valid_session sample_session"
  "st \<in> {StatusPlaying, StatusPaused} \<Longrightarrow> session_accepted (restamp st ''tv'' t sample_session)"
  by (auto simp: sample_session_def valid_session_def session_accepted_iff restamp_def text_ok_def
      StatusPlaying_def StatusPaused_def char_count_def byte_def)


text \<open>
  C13. Resuming on another device: a session that was paused and then resumed, each time with
  the cache taking it, is the session before the pause, playing on the device of the second
  request, at the place where it was.
\<close>

theorem resume_on_other_device:
  assumes laws: "postgres_laws pg tab E" "redis_laws kv E" "clock_ok E" "table_ok (tab (world m))"
    and before: "in_force pg (tab (world m)) (kv (world m)) s" "valid_session s"
    and utf8: "utf8_valid d1" "utf8_valid d2"
    and pause: "run E (Service_Pause NewService (UserID s) d1) m = (Inr p, m1)" "cache_written m1"
    and resume: "run E (Service_Resume NewService (UserID s) d2) m1 = (Inr q, m2)" "cache_written m2"
  shows "\<exists>now. heap m2 q = s\<lparr>Status := ''playing'', DeviceID := d2, UpdatedAt := now\<rparr> \<and>
    sessions (tab (world m2)) =
      (sessions (tab (world m)))(UserID s \<mapsto> stored_session pg (heap m2 q)) \<and>
    in_force pg (tab (world m2)) (kv (world m2)) (heap m2 q)"
proof -
  obtain t where valid: "valid_session (restamp StatusPaused d1 t s)"
    and t: "table_ok (tab (world m1))" "sessions (tab (world m1)) =
      (sessions (tab (world m)))(UserID s \<mapsto> stored_session pg (restamp StatusPaused d1 t s))"
    "in_force pg (tab (world m1)) (kv (world m1)) (restamp StatusPaused d1 t s)"
    and p: "heap m1 p = restamp StatusPaused d1 t s"
    using run_set_status_in_force [OF laws before utf8_valid_status(2) utf8(1)
        pause(1) [unfolded set_status_instances]] pause(2) by blast
  let ?s = "restamp StatusPaused d1 t s"
  have s: "UserID ?s = UserID s" "restamp st d2 now ?s = restamp st d2 now s" for st now
    by (simp_all add: restamp_def)
  from run_set_status_in_force [OF laws(1-3) t(1,3) valid utf8_valid_status(1) utf8(2), unfolded s,
      OF resume(1) [unfolded set_status_instances]] resume(2) t(2)
  show ?thesis by (auto simp: restamp_def StatusPlaying_def)
qed

lemma resume_on_other_device_witness:
  "\<exists>p m1 q m2 now.
    run in_memory (Service_Pause NewService ''u1'' ''phone'') (boot (with_session sample_session))
      = (Inr p, m1) \<and>
    run in_memory (Service_Resume NewService ''u1'' ''tv'') m1 = (Inr q, m2) \<and>
    heap m2 q = sample_session\<lparr>Status := ''playing'', DeviceID := ''tv'', UpdatedAt := now\<rparr>"
proof -
  let ?s = sample_session and ?m = "boot (with_session sample_session)"
  have u: "UserID ?s = ''u1''" by (simp add: sample_session_def)
  have clock: "clock_ok in_memory" by (simp add: clock_ok_def)
  note laws = in_memory_postgres in_memory_redis clock
  have m: "up (world ?m)" "table_ok (sv_table (world ?m))"
      "in_force id (sv_table (world ?m)) (sv_cache (world ?m)) ?s"
    by (simp_all add: boot_def)
  have utf8: "utf8_valid ''phone''" "utf8_valid ''tv''" by (simp_all add: byte_def)
  have accepted: "session_accepted (restamp st d t ?s)"
    if "st \<in> {StatusPlaying, StatusPaused}" "d \<in> {''phone'', ''tv''}" for st d t
    using that sample_session_ok(2) [of st t]
    by (auto simp: sample_session_def session_accepted_iff restamp_def text_ok_def byte_def)
  obtain p m1 where pause: "run in_memory (Service_Pause NewService (UserID ?s) ''phone'') ?m = (Inr p, m1)"
      "cache_written m1" "up (world m1)"
    using in_memory_set_status [OF m(1,3), of StatusPaused "''phone''"] accepted
    unfolding set_status_instances by blast
  obtain t where t: "in_force id (sv_table (world m1)) (sv_cache (world m1)) (restamp StatusPaused ''phone'' t ?s)"
    using run_set_status_in_force [OF laws m(2,3) sample_session_ok(1) utf8_valid_status(2) utf8(1)
        pause(1) [unfolded set_status_instances]] pause(2) by blast
  have s: "restamp StatusPlaying ''tv'' t' (restamp StatusPaused ''phone'' t ?s)
      = restamp StatusPlaying ''tv'' t' ?s" "UserID (restamp StatusPaused ''phone'' t ?s) = UserID ?s" for t'
    by (simp_all add: restamp_def)
  have "session_accepted (restamp StatusPlaying ''tv'' t' ?s)" for t'
    using accepted by simp
  from in_memory_set_status [OF pause(3) t, of StatusPlaying "''tv''", unfolded s, OF this]
  obtain q m2 where resume: "run in_memory (Service_Resume NewService (UserID ?s) ''tv'') m1 = (Inr q, m2)"
      "cache_written m2"
    unfolding set_status_instances by blast
  from resume_on_other_device [OF laws m(2,3) sample_session_ok(1) utf8 pause(1,2) resume] pause(1) resume(1)
  show ?thesis unfolding u by blast
qed



text \<open>
  C15. An upsert refines the update of the abstract store: when it succeeds the user's session
  is replaced as a whole, created if there was none, and every other user's session stays;
  when it fails either that has happened or nothing has.
\<close>

theorem upsert_refines_update:
  assumes laws: "postgres_laws pg tab E" "redis_laws kv E" "table_ok (tab (world m))"
    and run: "run E (Upsert p) m = (r, m')"
  shows "table_ok (tab (world m')) \<and> heap m' = heap m \<and>
    (sessions (tab (world m')) =
       (sessions (tab (world m)))(UserID (heap m p) \<mapsto> stored_session pg (heap m p)) \<or>
     r \<noteq> None \<and> sessions (tab (world m')) = sessions (tab (world m)))"
  using run_Upsert_table [OF laws run] repo.upsert_frame [OF run] by auto

lemma upsert_refines_update_witness:
  "\<exists>m'. run in_memory (Upsert 0) ((boot all_up)\<lparr>heap := \<lambda>_. sample_session\<rparr>) = (None, m') \<and>
    sessions (sv_table (world m')) = [''u1'' \<mapsto> sample_session]"
proof -
  let ?m = "(boot all_up)\<lparr>heap := \<lambda>_. sample_session\<rparr>"
  have accepted: "row_accepted (ins_columns upsert_session) (row_args sample_session)"
    using sample_session_ok(2) [of StatusPlaying]
    by (simp add: session_accepted_def [symmetric] session_accepted_iff restamp_def)
      (simp add: sample_session_def StatusPlaying_def text_ok_def byte_def char_count_def)
  then obtain m' where run: "run in_memory (Upsert 0) ?m = (None, m')"
    by (simp add: run_Upsert in_memory_def boot_def all_up_def)
  have u: "UserID sample_session = ''u1''" by (simp add: sample_session_def)
  from upsert_refines_update [OF in_memory_postgres in_memory_redis _ run] run u show ?thesis
    by (auto simp: boot_def all_up_def stored_session_def)
qed

text \<open>
  C19. A cache that refuses a write goes on answering with what it has: the pause succeeds
  and the database says paused, but the current session is still the playing one.
\<close>

theorem stale_cache_after_failed_write:
  "\<exists>data p m1 q m2.
    run in_memory (Service_Pause NewService ''u1'' ''tv'')
      (boot ((with_session sample_session)\<lparr>sv_cache := [cache_key ''u1'' \<mapsto> data],
         sv_redis_full := True\<rparr>)) = (Inr p, m1) \<and>
    Status (heap m1 p) = ''paused'' \<and>
    sessions (sv_table (world m1)) ''u1'' = Some (heap m1 p) \<and>
    run in_memory (Service_GetCurrent NewService ''u1'') m1 = (Inr q, m2) \<and>
    heap m2 q = sample_session \<and> Status sample_session = ''playing''"
proof -
  let ?s = sample_session
  have "valid_time (UpdatedAt ?s)" "sanitize ?s = ?s" and u: "UserID ?s = ''u1''" "Status ?s = ''playing''"
    using sample_session_ok(1) sanitize_id by (simp_all add: valid_session_def sample_session_def)
  with unmarshal_marshal_session [of ?s] obtain data where data: "unmarshal_session data = Inr ?s"
    by auto
  let ?w = "(with_session ?s)\<lparr>sv_cache := [cache_key ''u1'' \<mapsto> data], sv_redis_full := True\<rparr>"
  let ?p = "?s\<lparr>Status := ''paused'', DeviceID := ''tv'', UpdatedAt := instant 0\<rparr>"
  have accepted: "row_accepted (ins_columns upsert_session) (row_args ?p)"
    using sample_session_ok(2) [of StatusPaused "instant 0"]
    by (simp add: session_accepted_def restamp_def StatusPaused_def)
  have tab: "table_ok (sv_table (with_session ?s))" by simp
  have "sv_redis_up (with_session ?s)" "sv_postgres_up (with_session ?s)" "sv_ticks (with_session ?s) = 0"
    by (simp_all add: with_session_def all_up_def)
  moreover obtain data' where "marshal_session ?p = Inr data'"
    using unmarshal_marshal_session [of ?p] by auto
  moreover have "sessions ((sv_table (with_session ?s))(UserID ?p \<mapsto> row_of id ?p)) (UserID ?p) = Some ?p"
    by (simp add: stored_session_def)
  ultimately show ?thesis
    using data accepted apply_upsert_session [OF tab, of id ?p] u
    by (intro exI [of _ data])
      (simp add: Service_Pause_def Service_GetCurrent_def NewService_def cache_or_warn_def run_bind
        Get_def run_Upsert run_SetCache in_memory_def boot_def cache_key_def StatusPaused_def)
qed

end
